(* ===== verification/Prelude.thy ===== *)
theory Prelude
  imports Main "HOL-Library.Word" "HOL-Library.Signed_Division"
begin

text \<open>
  What every component of the development shares: the C integer types the sources use, the
  ways a C expression can go wrong (a read or write outside an array, a dereferenced null or
  poisoned pointer, a lock taken twice, a loop that never ends), sequencing of fallible steps,
  checked array access, kernel error numbers and the kernel log.
\<close>

section \<open>Collections of simplification rules\<close>

named_theorems model_defs
  \<open>definitions of modelled operations, unfolded when an operation is evaluated\<close>
named_theorems wf_defs
  \<open>well-formedness predicates\<close>

section \<open>C integers\<close>

type_synonym u8 = "8 word"
type_synonym u32 = "32 word"
type_synonym u64 = "64 word"

text \<open>
  \<open>u32\<close> and \<open>u64\<close> hold the bits of both the signed and the unsigned C type of that width;
  a use as a signed number is written \<^const>\<open>sint\<close>, a use as an unsigned one \<^const>\<open>uint\<close>.
  A comparison of an \<open>int\<close> with an \<open>unsigned int\<close> converts the first to the type of the
  second, which is equality of the words.
\<close>

definition INT_MAX :: int where "INT_MAX = 2 ^ 31 - 1"
definition INT_MIN :: int where "INT_MIN = - (2 ^ 31)"

text \<open>The byte that ends a C string.\<close>

definition NUL :: char where "NUL = CHR 0x00"

section \<open>Faults and sequencing\<close>

datatype fault =
    OutOfBounds      \<comment> \<open>array access outside the array\<close>
  | BadPointer       \<comment> \<open>dereference of a null, poisoned or freed pointer\<close>
  | Deadlock         \<comment> \<open>a lock taken by the thread that holds it\<close>
  | NoReturn         \<comment> \<open>the loop never ends\<close>
  | Overflow         \<comment> \<open>a signed addition or subtraction outside the range of the type\<close>
  | Uninit           \<comment> \<open>a variable read before it is set\<close>
  | BugOn            \<comment> \<open>the kernel stops on purpose (panic, BUG)\<close>

type_synonym 'a res = "fault + 'a"

definition andThen :: "'a res \<Rightarrow> ('a \<Rightarrow> 'b res) \<Rightarrow> 'b res" where
  "andThen m f = (case m of Inl e \<Rightarrow> Inl e | Inr x \<Rightarrow> f x)"

lemma andThen_simps [simp]:
  "andThen (Inl e) f = Inl e"
  "andThen (Inr x) f = f x"
  by (simp_all add: andThen_def)

lemma andThen_eq_Inr:
  "andThen m f = Inr y \<longleftrightarrow> (\<exists>x. m = Inr x \<and> f x = Inr y)"
  by (cases m) simp_all

lemma andThen_eq_Inl:
  "andThen m f = Inl e \<longleftrightarrow> m = Inl e \<or> (\<exists>x. m = Inr x \<and> f x = Inl e)"
  by (cases m) simp_all

lemma andThen_assoc: "andThen (andThen m f) g = andThen m (\<lambda>x. andThen (f x) g)"
  by (cases m) simp_all

lemma andThen_cong [fundef_cong]:
  "m = m' \<Longrightarrow> (\<And>x. m' = Inr x \<Longrightarrow> f x = g x) \<Longrightarrow> andThen m f = andThen m' g"
  by (cases m') simp_all

section \<open>Arrays\<close>

definition aget :: "'a list \<Rightarrow> int \<Rightarrow> 'a res" where
  "aget xs i = (if 0 \<le> i \<and> i < int (length xs) then Inr (xs ! nat i) else Inl OutOfBounds)"

definition aset :: "'a list \<Rightarrow> int \<Rightarrow> 'a \<Rightarrow> 'a list res" where
  "aset xs i v =
     (if 0 \<le> i \<and> i < int (length xs) then Inr (xs[nat i := v]) else Inl OutOfBounds)"

lemma aget_in [simp]: "0 \<le> i \<Longrightarrow> i < int (length xs) \<Longrightarrow> aget xs i = Inr (xs ! nat i)"
  by (simp add: aget_def)

lemma aget_out [simp]: "i < 0 \<or> int (length xs) \<le> i \<Longrightarrow> aget xs i = Inl OutOfBounds"
  by (auto simp: aget_def)

lemma aset_in [simp]: "0 \<le> i \<Longrightarrow> i < int (length xs) \<Longrightarrow> aset xs i v = Inr (xs[nat i := v])"
  by (simp add: aset_def)

lemma aset_out [simp]: "i < 0 \<or> int (length xs) \<le> i \<Longrightarrow> aset xs i v = Inl OutOfBounds"
  by (auto simp: aset_def)

lemma aset_length: "aset xs i v = Inr ys \<Longrightarrow> length ys = length xs"
  by (auto simp: aset_def split: if_splits)

lemma nth_list_update_if:
  "xs[i := x] ! j = (if i = j \<and> j < length xs then x else xs ! j)"
  by (cases "i = j"; cases "j < length xs") (simp_all add: list_update_beyond)

section \<open>Error numbers and the kernel log\<close>

text \<open>The values of \<^verbatim>\<open>include/uapi/asm-generic/errno-base.h\<close>.\<close>

definition EPERM :: int where "EPERM = 1"
definition ENOENT :: int where "ENOENT = 2"
definition ESRCH :: int where "ESRCH = 3"
definition ENOMEM :: int where "ENOMEM = 12"
definition EACCES :: int where "EACCES = 13"
definition EFAULT :: int where "EFAULT = 14"
definition EEXIST :: int where "EEXIST = 17"
definition EINVAL :: int where "EINVAL = 22"

lemmas errno_defs =
  EPERM_def ENOENT_def ESRCH_def ENOMEM_def EACCES_def EFAULT_def EEXIST_def EINVAL_def

text \<open>A \<^verbatim>\<open>printk\<close> is its format string and its arguments; the log keeps them in order.\<close>

type_synonym kmsg = "string \<times> int list"

end
