(* ===== verification/Transitions.thy ===== *)
theory Transitions
  imports Prelude
begin

text \<open>
  What the components with several threads share: the invariants of a step relation, and progress
  by a measure. \<open>invariant\<close> is the contract of a property that every step keeps; \<open>progress\<close> adds a
  measure that every step lowers by one and a final state for every state without a step, which
  gives completion under every schedule.
\<close>

text \<open>A schedule: each moment some thread moves, or none can.\<close>

definition moves_on :: "('s \<Rightarrow> 's \<Rightarrow> bool) \<Rightarrow> 's \<Rightarrow> 's \<Rightarrow> bool" where
  "moves_on step s t \<longleftrightarrow> step s t \<or> (t = s \<and> \<not> (\<exists>u. step s u))"

locale invariant =
  fixes step :: "'s \<Rightarrow> 's \<Rightarrow> bool" and inv :: "'s \<Rightarrow> bool"
  assumes step_keeps: "step s t \<Longrightarrow> inv s \<Longrightarrow> inv t"
begin

lemma steps_keep: "step\<^sup>*\<^sup>* s t \<Longrightarrow> inv s \<Longrightarrow> inv t"
  by (induction rule: rtranclp.induct) (auto intro: step_keeps)

lemma schedule_keeps:
  assumes "inv (w 0)" "\<And>n. moves_on step (w n) (w (Suc n))"
  shows "inv (w n)"
proof (induction n)
  case (Suc n)
  then show ?case using assms(2)[of n] step_keeps by (auto simp: moves_on_def)
qed (rule assms(1))

end

locale progress = invariant step inv
  for step :: "'s \<Rightarrow> 's \<Rightarrow> bool" and inv :: "'s \<Rightarrow> bool" +
  fixes left :: "'s \<Rightarrow> nat" and final :: "'s \<Rightarrow> bool"
  assumes step_works: "step s t \<Longrightarrow> inv s \<Longrightarrow> Suc (left t) = left s"
    and stuck_final: "inv s \<Longrightarrow> \<not> (\<exists>t. step s t) \<Longrightarrow> final s"
begin

lemma schedule_works:
  assumes "inv (w 0)" "\<And>n. moves_on step (w n) (w (Suc n))"
  shows "left (w n) + n \<le> left (w 0) \<or> \<not> (\<exists>t. step (w n) t)"
proof (induction n)
  case (Suc n)
  note here = schedule_keeps[OF assms, of n]
  show ?case
  proof (cases "step (w n) (w (Suc n))")
    case True
    then have "left (w n) + n \<le> left (w 0)" using Suc.IH by blast
    then show ?thesis using step_works[OF True here] by simp
  next
    case False
    then show ?thesis using assms(2)[of n] by (auto simp: moves_on_def)
  qed
qed simp

lemma schedule_completes:
  assumes "inv (w 0)" "\<And>n. moves_on step (w n) (w (Suc n))"
  shows "final (w (left (w 0)))"
proof -
  note here = schedule_keeps[OF assms, of "left (w 0)"]
  have "\<not> (\<exists>t. step (w (left (w 0))) t)"
    using schedule_works[OF assms, of "left (w 0)"] step_works here by fastforce
  then show ?thesis by (rule stuck_final[OF here])
qed

end

end
