(* ===== verification/Sandbox.thy ===== *)
theory Sandbox
  imports Prelude
begin

text \<open>
  The system-call sandbox of project 2 (\<^verbatim>\<open>project 2/proj2/kernel/proj2.c\<close> with the table of
  \<^verbatim>\<open>project 2/proj2.h\<close>). The table \<open>permList\<close> has one row per system call; a row holds one
  call number, one counter and a hash array of user ids. \<open>sbx421_block\<close> and \<open>sbx421_unblock\<close>
  edit a row, \<open>sbx421_count\<close> reads its counter, and \<open>findder\<close> is the question the kernel's
  entry path asks before it dispatches a call.

  Reading of the source where it does not build: \<open>findder\<close> calls \<open>getHash\<close>, which neither
  \<^verbatim>\<open>proj2.c\<close> nor \<^verbatim>\<open>proj2.h\<close> declares; it is taken to be \<open>getHashs\<close>, the function the other
  operations call. The local \<open>permList = getTableMain()\<close> in each handler is a variable of its
  own \<open>else\<close> block and has no effect. \<open>current_cred()->uid.val\<close> is the argument \<open>uid\<close> of each
  operation, and every operation returns the value the system call returns.
\<close>

section \<open>State\<close>

definition SIZE :: int where "SIZE = 32"

record sysTable =
  call :: u64
  count :: u64
  hash :: "u32 list"

record sbx =
  started :: int
  permList :: "sysTable list"
  lockTable :: bool
  klog :: "kmsg list"

text \<open>The state the kernel boots with: all the static data zero.\<close>

definition sbx_boot :: sbx where
  "sbx_boot =
     \<lparr>started = 0,
      permList = replicate 437 \<lparr>call = 0, count = 0, hash = replicate 32 0\<rparr>,
      lockTable = False, klog = []\<rparr>"

section \<open>Operations\<close>

text \<open>
  \<open>key % SIZE\<close> on two \<open>int\<close>s truncates towards zero, so a negative key has a negative hash. An access
  to \<open>hash\<close> with it is read as leaving the array: undefined in C, although the bytes in front of the
  array belong to the same row or the one before it.
\<close>

definition getHashs :: "u32 \<Rightarrow> int" where
  "getHashs key = sint key smod SIZE"

definition printk :: "string \<Rightarrow> int list \<Rightarrow> sbx \<Rightarrow> sbx" where
  "printk fmt args s = s\<lparr>klog := klog s @ [(fmt, args)]\<rparr>"

definition mutex_lock :: "sbx \<Rightarrow> sbx res" where
  "mutex_lock s = (if lockTable s then Inl Deadlock else Inr (s\<lparr>lockTable := True\<rparr>))"

definition mutex_unlock :: "sbx \<Rightarrow> sbx" where
  "mutex_unlock s = s\<lparr>lockTable := False\<rparr>"

text \<open>The loop \<open>for (countm = 0; countm <= 436; countm++)\<close> of \<open>initalizeHash\<close>.\<close>

function init_rows :: "int \<Rightarrow> sysTable list \<Rightarrow> sysTable list res" where
  "init_rows countm t =
     (if countm \<le> 436
      then andThen (aget t countm) (\<lambda>e.
           andThen (aset t countm (e\<lparr>call := 999, count := 0\<rparr>)) (\<lambda>t'.
           init_rows (countm + 1) t'))
      else Inr t)"
  by pat_completeness auto
termination
  by (relation "measure (\<lambda>(countm, t). nat (437 - countm))") auto

declare init_rows.simps [simp del]

definition initalizeHash :: "sbx \<Rightarrow> sbx res" where
  "initalizeHash s = andThen (init_rows 0 (permList s)) (\<lambda>t. Inr (s\<lparr>permList := t\<rparr>))"

text \<open>The first lines of every system call: the table is set up on the first call of any.\<close>

definition sbx_start :: "sbx \<Rightarrow> sbx res" where
  "sbx_start s =
     (if started s = 0
      then andThen (initalizeHash s) (\<lambda>s. Inr (s\<lparr>started := 1\<rparr>))
      else Inr s)"

text \<open>\<open>permList[nr].hash[index] == proc\<close>\<close>

definition row_has :: "sysTable \<Rightarrow> int \<Rightarrow> u32 \<Rightarrow> bool res" where
  "row_has e index proc = andThen (aget (hash e) index) (\<lambda>v. Inr (v = proc))"

definition put_row :: "u64 \<Rightarrow> sysTable \<Rightarrow> sbx \<Rightarrow> sbx" where
  "put_row nr e s = s\<lparr>permList := (permList s)[unat nr := e]\<rparr>"

text \<open>
  The body the two permitted branches of \<open>sbx421_block\<close> share, word for word: lines 52 to 66
  and 69 to 84.
\<close>

definition block_entry :: "u32 \<Rightarrow> u64 \<Rightarrow> sbx \<Rightarrow> (int \<times> sbx) res" where
  "block_entry proc nr s =
     (let index = getHashs proc in
      andThen (mutex_lock s) (\<lambda>s.
      andThen (aget (permList s) (uint nr)) (\<lambda>e.
      andThen (if call e \<noteq> 999 then row_has e index proc else Inr False) (\<lambda>dup.
      if dup then
        (let s = printk ''Error: Proccess %d is already blocked for system call %ld''
                   [sint proc, uint nr] s;
             s = put_row nr (e\<lparr>call := call e + 1\<rparr>) s
         in Inr (- EEXIST, mutex_unlock s))
      else
        andThen (aset (hash e) index proc) (\<lambda>h.
        Inr (0, mutex_unlock (put_row nr \<lparr>call = nr, count = 0, hash = h\<rparr> s)))))))"

definition sbx421_block :: "u32 \<Rightarrow> u32 \<Rightarrow> u64 \<Rightarrow> sbx \<Rightarrow> (int \<times> sbx) res" where
  "sbx421_block uid proc nr s =
     andThen (sbx_start s) (\<lambda>s.
     if uid = proc then block_entry proc nr s
     else if uid = 0 then block_entry proc nr s
     else Inr (- EPERM,
       printk ''Error: Process needs to be root to block other PID's calls'' [] s))"

text \<open>The body the two permitted branches of \<open>sbx421_unblock\<close> share, then the last \<open>return\<close>.\<close>

definition unblock_entry :: "u32 \<Rightarrow> u64 \<Rightarrow> sbx \<Rightarrow> (int \<times> sbx) res" where
  "unblock_entry proc nr s =
     (let index = getHashs proc in
      andThen (mutex_lock s) (\<lambda>s.
      andThen (aget (permList s) (uint nr)) (\<lambda>e.
      andThen (if call e = nr then row_has e index proc else Inr False) (\<lambda>hit.
      if hit then
        (let s = printk ''Proccess %d is now unblocked for system call %ld''
                   [sint proc, uint nr] s in
         andThen (aset (hash e) index 0) (\<lambda>h.
         Inr (0, mutex_unlock (put_row nr (e\<lparr>call := 999, hash := h\<rparr>) s))))
      else
        Inr (- EEXIST, printk ''Error: Process %d is not blocked from using %ld''
               [sint proc, uint nr] (mutex_unlock s))))))"

definition sbx421_unblock :: "u32 \<Rightarrow> u32 \<Rightarrow> u64 \<Rightarrow> sbx \<Rightarrow> (int \<times> sbx) res" where
  "sbx421_unblock uid proc nr s =
     andThen (sbx_start s) (\<lambda>s.
     if uid = proc then unblock_entry proc nr s
     else if uid = 0 then unblock_entry proc nr s
     else Inr (- EPERM,
       printk ''Error: Process needs to be root to block other PID's calls'' [] s))"

text \<open>\<open>int temp = permList[nr].count\<close> keeps the low 32 bits, read as a signed number.\<close>

definition sbx421_count :: "u32 \<Rightarrow> u32 \<Rightarrow> u64 \<Rightarrow> sbx \<Rightarrow> (int \<times> sbx) res" where
  "sbx421_count uid proc nr s =
     andThen (sbx_start s) (\<lambda>s.
     if uid = 0 then
       (if proc \<noteq> 0 \<and> 0 < sint proc then
          (let index = getHashs proc in
           andThen (mutex_lock s) (\<lambda>s.
           andThen (aget (permList s) (uint nr)) (\<lambda>e.
           andThen (if call e = nr then row_has e index proc else Inr False) (\<lambda>hit.
           if hit then Inr (sint (ucast (count e) :: u32), mutex_unlock s)
           else Inr (- EEXIST, printk ''Error: Proccess %d is not found with %ld''
                  [sint proc, uint nr] (mutex_unlock s))))))
        else Inr (- EINVAL, printk ''Error: Invalid process to check'' [] s))
     else Inr (- EPERM, printk ''Error: Process needs to be root'' [] s))"

text \<open>The entry path's question; it neither starts the table nor takes the lock.\<close>

definition findder :: "u32 \<Rightarrow> u64 \<Rightarrow> sbx \<Rightarrow> (int \<times> sbx) res" where
  "findder uid nr s =
     (let index = getHashs uid in
      andThen (aget (permList s) (uint nr)) (\<lambda>e.
      andThen (if call e = nr then row_has e index uid else Inr False) (\<lambda>hit.
      if hit then
        (let s = put_row nr (e\<lparr>count := count e + 1\<rparr>) s
         in Inr (1, printk ''UID %d is blocked from using %ld'' [sint uid, uint nr] s))
      else
        Inr (0, printk ''UID %d is not blocked from using %ld'' [sint uid, uint nr] s))))"

section \<open>Well-formed tables and hash indices\<close>

definition wf_row :: "sysTable \<Rightarrow> bool" where
  [wf_defs]: "wf_row e \<longleftrightarrow> length (hash e) = 32"

definition wf_sbx :: "sbx \<Rightarrow> bool" where
  [wf_defs]: "wf_sbx s \<longleftrightarrow>
     length (permList s) = 437 \<and> (\<forall>e \<in> set (permList s). wf_row e) \<and> \<not> lockTable s"

definition bucket :: "u32 \<Rightarrow> nat" where
  "bucket p = nat (getHashs p)"

text \<open>The call numbers the table has a row for.\<close>

definition valid_nr :: "u64 \<Rightarrow> bool" where
  "valid_nr nr \<longleftrightarrow> unat nr < 437"

definition row :: "sbx \<Rightarrow> u64 \<Rightarrow> sysTable" where
  "row s nr = permList s ! unat nr"

lemma getHashs_nonneg:
  assumes "0 \<le> sint p"
  shows "getHashs p = sint p mod 32" "0 \<le> getHashs p"
proof -
  show eq: "getHashs p = sint p mod 32"
    using assms by (cases "sint p = 0")
      (auto simp: getHashs_def SIZE_def signed_modulo_int_def signed_divide_int_def
        minus_mult_div_eq_mod)
  show "0 \<le> getHashs p" by (simp add: eq)
qed

lemma getHashs_neg:
  assumes "sint p < 0"
  shows "getHashs p = - ((- sint p) mod 32)"
  using assms by (auto simp: getHashs_def SIZE_def signed_modulo_int_def
        signed_divide_int_def sgn_if minus_mult_div_eq_mod algebra_simps)

lemma getHashs_lt: "getHashs p < 32"
  by (cases "sint p < 0") (simp_all add: getHashs_neg getHashs_nonneg(1))

lemma getHashs_negative:
  assumes "sint p < 0" "sint p mod 32 \<noteq> 0"
  shows "getHashs p < 0"
proof -
  have "(- sint p) mod 32 \<noteq> 0" using assms(2) by presburger
  moreover have "0 \<le> (- sint p) mod 32" by simp
  ultimately show ?thesis using getHashs_neg[OF assms(1)] by linarith
qed

text \<open>The ids the table can hold: those whose hash is an index.\<close>

definition valid_id :: "u32 \<Rightarrow> bool" where
  "valid_id p \<longleftrightarrow> 0 \<le> getHashs p"

lemma valid_id_nonneg: "0 \<le> sint p \<Longrightarrow> valid_id p"
  by (simp add: valid_id_def getHashs_nonneg)

lemma bucket_lt [simp]: "bucket p < 32"
  using getHashs_lt[of p] by (simp add: bucket_def nat_less_iff)

lemma bucket_zero [simp]: "bucket 0 = 0"
  by (simp add: bucket_def getHashs_def SIZE_def)

lemma wf_row_at [simp]:
  "wf_sbx s \<Longrightarrow> valid_nr nr \<Longrightarrow> length (hash (row s nr)) = 32"
  by (simp add: row_def wf_defs valid_nr_def)

lemma uint_unat_lt: "unat (nr :: u64) < 437 \<Longrightarrow> uint nr < 437"
  by (metis of_nat_less_iff of_nat_numeral uint_nat)

lemma aget_row [simp]:
  "length (permList s) = 437 \<Longrightarrow> valid_nr nr \<Longrightarrow>
   aget (permList s) (uint nr) = Inr (row s nr)"
  by (simp add: uint_unat_lt row_def valid_nr_def)

lemma aget_row_out [simp]:
  "length (permList s) = 437 \<Longrightarrow> \<not> valid_nr nr \<Longrightarrow>
   aget (permList s) (uint nr) = Inl OutOfBounds"
  unfolding valid_nr_def not_less
  by (metis aget_out of_nat_le_iff of_nat_numeral uint_nat)

lemma row_has_in [simp]:
  "length (hash e) = 32 \<Longrightarrow> valid_id p \<Longrightarrow>
   row_has e (getHashs p) p = Inr (hash e ! bucket p = p)"
  by (simp add: row_has_def getHashs_lt valid_id_def bucket_def)

lemma row_has_out [simp]:
  "\<not> valid_id p \<Longrightarrow> row_has e (getHashs p) q = Inl OutOfBounds"
  by (simp add: row_has_def valid_id_def)

lemma aset_hash_in [simp]:
  "length h = 32 \<Longrightarrow> valid_id p \<Longrightarrow> aset h (getHashs p) v = Inr (h[bucket p := v])"
  by (simp add: getHashs_lt valid_id_def bucket_def)

lemma aset_hash_out [simp]:
  "\<not> valid_id p \<Longrightarrow> aset h (getHashs p) v = Inl OutOfBounds"
  by (simp add: valid_id_def)

section \<open>Starting the table\<close>

definition reset_row :: "sysTable \<Rightarrow> sysTable" where
  "reset_row e = e\<lparr>call := 999, count := 0\<rparr>"

lemma init_rows_from:
  "0 \<le> k \<Longrightarrow> k \<le> 437 \<Longrightarrow> length t = 437 \<Longrightarrow>
   init_rows k t = Inr (take (nat k) t @ map reset_row (drop (nat k) t))"
proof (induction k t rule: init_rows.induct)
  case (1 k t)
  show ?case
  proof (cases "k \<le> 436")
    case True
    let ?e = "t ! nat k" and ?t = "t[nat k := reset_row (t ! nat k)]"
    have k: "nat k < length t" and k1: "nat (k + 1) = Suc (nat k)"
      using True "1.prems" by auto
    have "init_rows k t = init_rows (k + 1) ?t"
      using True "1.prems" by (subst init_rows.simps) (simp add: reset_row_def)
    also have "\<dots> = Inr (take (nat (k + 1)) ?t @ map reset_row (drop (nat (k + 1)) ?t))"
      using "1.IH"[OF True, of ?e ?t] True "1.prems" by (simp add: reset_row_def)
    also have "take (nat (k + 1)) ?t @ map reset_row (drop (nat (k + 1)) ?t)
        = take (nat k) t @ map reset_row (drop (nat k) t)"
      using k by (simp add: k1 take_Suc_conv_app_nth flip: Cons_nth_drop_Suc)
    finally show ?thesis .
  next
    case False
    then have "k = 437" using "1.prems" by simp
    then show ?thesis using "1.prems" by (simp add: init_rows.simps)
  qed
qed

lemma initalizeHash_run:
  "length (permList s) = 437 \<Longrightarrow>
   initalizeHash s = Inr (s\<lparr>permList := map reset_row (permList s)\<rparr>)"
  by (simp add: initalizeHash_def init_rows_from)

definition sbx_begun :: "sbx \<Rightarrow> sbx" where
  "sbx_begun s =
     (if started s = 0 then s\<lparr>permList := map reset_row (permList s), started := 1\<rparr> else s)"

lemma sbx_start_run: "length (permList s) = 437 \<Longrightarrow> sbx_start s = Inr (sbx_begun s)"
  by (simp add: sbx_start_def sbx_begun_def initalizeHash_run)

lemma wf_sbx_begun [simp]: "wf_sbx s \<Longrightarrow> wf_sbx (sbx_begun s)"
  by (auto simp: wf_defs sbx_begun_def reset_row_def)

lemma sbx_begun_idle [simp]: "started s \<noteq> 0 \<Longrightarrow> sbx_begun s = s"
  by (simp add: sbx_begun_def)

lemma started_begun [simp]: "started (sbx_begun s) \<noteq> 0"
  by (simp add: sbx_begun_def)

lemma klog_begun [simp]: "klog (sbx_begun s) = klog s"
  by (simp add: sbx_begun_def)

lemma row_begun:
  "wf_sbx s \<Longrightarrow> valid_nr nr \<Longrightarrow>
   row (sbx_begun s) nr = (if started s = 0 then reset_row (row s nr) else row s nr)"
  by (simp add: sbx_begun_def row_def wf_defs valid_nr_def)

lemma wf_sbx_boot [simp]: "wf_sbx sbx_boot"
  by (simp add: wf_defs sbx_boot_def)

section \<open>Each operation in closed form\<close>

text \<open>
  On a well-formed state, an in-range call number and a non-negative id, an operation is a
  rewrite of one row; these are the rewrites.
\<close>

definition row_block :: "u32 \<Rightarrow> u64 \<Rightarrow> sysTable \<Rightarrow> int \<times> sysTable" where
  "row_block proc nr e =
     (if call e \<noteq> 999 \<and> hash e ! bucket proc = proc
      then (- EEXIST, e\<lparr>call := call e + 1\<rparr>)
      else (0, \<lparr>call = nr, count = 0, hash = (hash e)[bucket proc := proc]\<rparr>))"

definition row_unblock :: "u32 \<Rightarrow> u64 \<Rightarrow> sysTable \<Rightarrow> int \<times> sysTable" where
  "row_unblock proc nr e =
     (if call e = nr \<and> hash e ! bucket proc = proc
      then (0, e\<lparr>call := 999, hash := (hash e)[bucket proc := 0]\<rparr>)
      else (- EEXIST, e))"

definition row_find :: "u32 \<Rightarrow> u64 \<Rightarrow> sysTable \<Rightarrow> int \<times> sysTable" where
  "row_find uid nr e =
     (if call e = nr \<and> hash e ! bucket uid = uid
      then (1, e\<lparr>count := count e + 1\<rparr>) else (0, e))"

lemma row_put [simp]:
  "length (permList s) = 437 \<Longrightarrow> valid_nr nr \<Longrightarrow>
   row (put_row nr e s) nr' = (if nr' = nr then e else row s nr')"
  by (auto simp: row_def put_row_def nth_list_update word_unat_eq_iff valid_nr_def)

lemma sbx_simps [simp]:
  "permList (printk f a s) = permList s" "lockTable (printk f a s) = lockTable s"
  "started (printk f a s) = started s" "klog (printk f a s) = klog s @ [(f, a)]"
  "permList (mutex_unlock s) = permList s" "lockTable (mutex_unlock s) = False"
  "started (mutex_unlock s) = started s" "klog (mutex_unlock s) = klog s"
  "lockTable (put_row nr e s) = lockTable s" "started (put_row nr e s) = started s"
  "klog (put_row nr e s) = klog s"
  "length (permList (put_row nr e s)) = length (permList s)"
  by (simp_all add: printk_def mutex_unlock_def put_row_def)

lemma row_printk [simp]:
  "row (printk f a s) nr = row s nr" "row (mutex_unlock s) nr = row s nr"
  by (simp_all add: row_def)

lemma wf_sbx_log [simp]:
  "wf_sbx (printk f a s) \<longleftrightarrow> wf_sbx s" "wf_sbx (s\<lparr>klog := l\<rparr>) \<longleftrightarrow> wf_sbx s"
  by (simp_all add: wf_sbx_def)

lemma put_row_same [simp]:
  "length (permList s) = 437 \<Longrightarrow> put_row nr (row s nr) s = s"
  by (simp add: put_row_def row_def)

lemma wf_put_row:
  "wf_sbx s \<Longrightarrow> wf_row e \<Longrightarrow> wf_sbx (put_row nr e s)"
  unfolding wf_sbx_def put_row_def by (auto dest: set_update_subset_insert [THEN subsetD])

end
