(* ===== verification/Sandbox_Runs.thy ===== *)
theory Sandbox_Runs
  imports Sandbox_Policy
begin

text \<open>
  The sandbox as a state machine: its requests, runs of requests, the states reachable from
  boot and their invariant; and the policy the table implements when a system call has at most
  one tenant at a time, with the simulation that relates the two.
\<close>

section \<open>Requests and runs\<close>

datatype sbx_req =
    Block u32 u32 u64
  | Unblock u32 u32 u64
  | Count u32 u32 u64
  | Find u32 u64

fun sbx_do :: "sbx_req \<Rightarrow> sbx \<Rightarrow> (int \<times> sbx) res" where
  "sbx_do (Block uid proc nr) s = sbx421_block uid proc nr s"
| "sbx_do (Unblock uid proc nr) s = sbx421_unblock uid proc nr s"
| "sbx_do (Count uid proc nr) s = sbx421_count uid proc nr s"
| "sbx_do (Find uid nr) s = findder uid nr s"

fun sbx_run :: "sbx_req list \<Rightarrow> sbx \<Rightarrow> (int list \<times> sbx) res" where
  "sbx_run [] s = Inr ([], s)"
| "sbx_run (q # qs) s =
     andThen (sbx_do q s) (\<lambda>(r, s'). andThen (sbx_run qs s') (\<lambda>(rs, s''). Inr (r # rs, s'')))"

inductive sbx_reachable :: "sbx \<Rightarrow> bool" where
  boot: "sbx_reachable sbx_boot"
| request: "sbx_reachable s \<Longrightarrow> sbx_do q s = Inr (r, s') \<Longrightarrow> sbx_reachable s'"

section \<open>Arguments outside the table\<close>

lemma block_outside:
  assumes "wf_sbx s" "uid = proc \<or> uid = 0" "\<not> (valid_id proc \<and> valid_nr nr)"
  shows "sbx421_block uid proc nr s = Inl OutOfBounds"
  using assms wf_lens[OF wf_sbx_begun[OF assms(1)]]
  by (cases "valid_nr nr")
    (auto simp: sbx421_block_def sbx_start_run block_entry_def mutex_lock_def Let_def)

lemma unblock_outside:
  assumes "wf_sbx s" "uid = proc \<or> uid = 0" "\<not> (valid_id proc \<and> valid_nr nr)"
  shows "sbx421_unblock uid proc nr s = Inl OutOfBounds
    \<or> (\<exists>lg. sbx421_unblock uid proc nr s
          = Inr (- EEXIST, (sbx_begun s)\<lparr>klog := klog s @ lg\<rparr>))"
  using assms wf_lens[OF wf_sbx_begun[OF assms(1)]]
  by (cases "valid_nr nr")
    (auto simp: sbx421_unblock_def sbx_start_run unblock_entry_def mutex_lock_def
      mutex_unlock_def printk_def Let_def)

lemma count_keeps:
  assumes "wf_sbx s" "sbx421_count uid proc nr s = Inr (r, s')"
  shows "\<exists>lg. s' = (sbx_begun s)\<lparr>klog := klog s @ lg\<rparr>"
proof -
  have l: "\<not> lockTable (sbx_begun s)"
    using assms(1) by (simp add: wf_lens)
  show ?thesis
    using assms l wf_sbx_begun[OF assms(1)] sbx_start_run[OF wf_lens(1)[OF assms(1)]]
    by (auto simp: sbx421_count_def mutex_lock_def mutex_unlock_def printk_def Let_def
        andThen_eq_Inr split: if_splits intro: exI[of _ "[]"])
qed

lemma findder_outside:
  assumes "wf_sbx s" "\<not> (valid_id uid \<and> valid_nr nr)"
  shows "findder uid nr s = Inl OutOfBounds
    \<or> (\<exists>lg. findder uid nr s = Inr (0, s\<lparr>klog := klog s @ lg\<rparr>))"
  using assms by (cases "valid_nr nr") (auto simp: findder_def printk_def Let_def)

section \<open>The invariant of the reachable states\<close>

definition slots_ok :: "sbx \<Rightarrow> bool" where
  "slots_ok s \<longleftrightarrow> (\<forall>nr i. valid_nr nr \<and> i < 32 \<longrightarrow>
     (let v = hash (row s nr) ! i in v = 0 \<or> valid_id v \<and> bucket v = i))"

definition pristine :: "sbx \<Rightarrow> bool" where
  "pristine s \<longleftrightarrow>
     (\<forall>nr. valid_nr nr \<longrightarrow> call (row s nr) = 0 \<and> hash (row s nr) = replicate 32 0)"

definition sbx_inv :: "sbx \<Rightarrow> bool" where
  "sbx_inv s \<longleftrightarrow> wf_sbx s \<and> slots_ok s \<and> (started s = 0 \<longrightarrow> pristine s)"

text \<open>Every slot after a request is old, cleared, or holds an id that hashes to it.\<close>

definition slots_from :: "sbx \<Rightarrow> sbx \<Rightarrow> bool" where
  "slots_from s s' \<longleftrightarrow> (\<forall>n i. valid_nr n \<and> i < 32 \<longrightarrow>
     hash (row s' n) ! i \<in> {0, hash (row s n) ! i}
     \<or> valid_id (hash (row s' n) ! i) \<and> i = bucket (hash (row s' n) ! i))"

lemma hash_begun [simp]:
  "wf_sbx s \<Longrightarrow> valid_nr n \<Longrightarrow> hash (row (sbx_begun s) n) = hash (row s n)"
  by (simp add: row_begun reset_row_def)

lemma slots_from_begun: "wf_sbx s \<Longrightarrow> slots_from s ((sbx_begun s)\<lparr>klog := l\<rparr>)"
  by (auto simp: slots_from_def)

lemma slots_fromI:
  assumes "wf_sbx s" "valid_id p"
    and "\<And>n i. hash (row s' n) ! i \<in> {0, hash (row (sbx_begun s) n) ! i}
      \<or> i = bucket p \<and> hash (row s' n) ! i = p"
  shows "slots_from s s'"
  unfolding slots_from_def
proof (intro allI impI)
  fix n :: u64 and i :: nat assume "valid_nr n \<and> i < 32"
  then show "hash (row s' n) ! i \<in> {0, hash (row s n) ! i}
      \<or> valid_id (hash (row s' n) ! i) \<and> i = bucket (hash (row s' n) ! i)"
    using assms(3)[of n i] assms(1,2) by (metis hash_begun)
qed

lemma edit_step:
  assumes "wf_sbx s" "op = sbx421_block \<or> op = sbx421_unblock" "op uid proc nr s = Inr (r, s')"
  shows "wf_sbx s' \<and> started s' \<noteq> 0 \<and> slots_from s s'"
proof (cases "valid_id proc \<and> valid_nr nr")
  case True
  note v = assms(1) conjunct2[OF True] conjunct1[OF True]
  show ?thesis
    using assms(2)
  proof
    assume op: "op = sbx421_block"
    note r = assms(3)[unfolded op]
    have "slots_from s s'"
      by (rule slots_fromI[OF assms(1)]) (use True blk.slot_values[OF v r] in auto)
    then show ?thesis using blk.returns[OF v, of uid] r by auto
  next
    assume op: "op = sbx421_unblock"
    note r = assms(3)[unfolded op]
    have "slots_from s s'"
      by (rule slots_fromI[OF assms(1)]) (use True unb.slot_values[OF v r] in auto)
    then show ?thesis using unb.returns[OF v, of uid] r by auto
  qed
next
  case False
  have "\<exists>l. s' = (sbx_begun s)\<lparr>klog := l\<rparr>"
  proof (cases "uid = proc \<or> uid = 0")
    case True
    then show ?thesis
      using block_outside[OF assms(1) True False] unblock_outside[OF assms(1) True False]
        assms(2,3) by auto
  next
    case False
    then show ?thesis
      using blk.denied[OF assms(1), of uid proc nr] unb.denied[OF assms(1), of uid proc nr]
        assms(2,3) by auto
  qed
  then show ?thesis
    using slots_from_begun[OF assms(1)] assms(1) started_begun[of s] by auto
qed

lemma find_step:
  assumes "wf_sbx s" "findder uid nr s = Inr (r, s')"
  shows "wf_sbx s' \<and> started s' = started s
    \<and> (\<forall>n. valid_nr n \<longrightarrow> call (row s' n) = call (row s n) \<and> hash (row s' n) = hash (row s n))"
proof (cases "valid_id uid \<and> valid_nr nr")
  case True
  then show ?thesis
    using findder_row[OF assms(1) _ _ assms(2)] by auto
next
  case False
  then show ?thesis
    using findder_outside[OF assms(1) False] assms by auto
qed

lemma sbx_do_inv:
  assumes "sbx_inv s" "sbx_do q s = Inr (r, s')"
  shows "sbx_inv s'"
proof -
  have wf: "wf_sbx s" using assms(1) by (simp add: sbx_inv_def)
  have from_inv: "slots_ok s'" if "slots_from s s'"
    using that assms(1) unfolding sbx_inv_def slots_ok_def slots_from_def Let_def
    by (metis insert_iff singletonD)
  have edit: ?thesis if "wf_sbx s' \<and> started s' \<noteq> 0 \<and> slots_from s s'"
    using that from_inv by (simp add: sbx_inv_def)
  show ?thesis
  proof (cases q)
    case (Block uid proc nr)
    then show ?thesis using edit edit_step[OF wf, of sbx421_block] assms(2) by auto
  next
    case (Unblock uid proc nr)
    then show ?thesis using edit edit_step[OF wf, of sbx421_unblock] assms(2) by auto
  next
    case (Count uid proc nr)
    then obtain l where s': "s' = (sbx_begun s)\<lparr>klog := l\<rparr>"
      using count_keeps[OF wf] assms(2) by fastforce
    show ?thesis
      by (rule edit) (use s' slots_from_begun[OF wf] started_begun[of s] wf in auto)
  next
    case (Find uid nr)
    then show ?thesis
      using find_step[OF wf, of uid nr] assms
      by (auto simp: sbx_inv_def slots_ok_def pristine_def)
  qed
qed

lemma sbx_boot_rows: "valid_nr nr \<Longrightarrow>
   row sbx_boot nr = \<lparr>call = 0, count = 0, hash = replicate 32 0\<rparr>"
  by (simp add: row_def sbx_boot_def valid_nr_def)

lemma reachable_inv: "sbx_reachable s \<Longrightarrow> sbx_inv s"
proof (induction rule: sbx_reachable.induct)
  case boot
  show ?case by (auto simp: sbx_inv_def slots_ok_def pristine_def sbx_boot_rows)
next
  case (request s q r s')
  then show ?case by (blast intro: sbx_do_inv)
qed

text \<open>Ids that share a bucket evict each other, so no two of them are refused at once.\<close>

lemma refuses_bucket_unique:
  "refuses s u nr \<Longrightarrow> refuses s v nr \<Longrightarrow> bucket u = bucket v \<Longrightarrow> u = v"
  by (metis refuses_def)

lemma refuses_card: "card {u. refuses s u nr} \<le> 32"
proof -
  have "inj_on bucket {u. refuses s u nr}"
    by (rule inj_onI) (auto dest: refuses_bucket_unique)
  moreover have "bucket ` {u. refuses s u nr} \<subseteq> {..<32}" by auto
  ultimately show ?thesis
    by (metis card_inj_on_le card_lessThan finite_lessThan)
qed

section \<open>The policy the table implements\<close>

text \<open>
  The intent of the three system calls and of \<open>findder\<close>, without hashing: for each system call
  at most one blocked id, with the number of calls refused to it. \<open>spec_do\<close> answers a request;
  \<open>admissible\<close> is the discipline under which the table keeps this promise: a call number has
  one tenant at a time, the tenant is not root, and arguments are in range.
\<close>

type_synonym policy = "u64 \<rightharpoonup> u32 \<times> u64"

fun spec_do :: "sbx_req \<Rightarrow> policy \<Rightarrow> int \<times> policy" where
  "spec_do (Block uid proc nr) P =
     (if uid \<noteq> proc \<and> uid \<noteq> 0 then (- EPERM, P) else (0, P(nr \<mapsto> (proc, 0))))"
| "spec_do (Unblock uid proc nr) P =
     (if uid \<noteq> proc \<and> uid \<noteq> 0 then (- EPERM, P)
      else (case P nr of
              None \<Rightarrow> (- EEXIST, P)
            | Some (p, c) \<Rightarrow> if p = proc then (0, P(nr := None)) else (- EEXIST, P)))"
| "spec_do (Count uid proc nr) P =
     (if uid \<noteq> 0 then (- EPERM, P)
      else if sint proc \<le> 0 then (- EINVAL, P)
      else (case P nr of
              None \<Rightarrow> (- EEXIST, P)
            | Some (p, c) \<Rightarrow> (if p = proc then sint (ucast c :: u32) else - EEXIST, P)))"
| "spec_do (Find uid nr) P =
     (case P nr of
        None \<Rightarrow> (0, P)
      | Some (p, c) \<Rightarrow> if p = uid then (1, P(nr \<mapsto> (p, c + 1))) else (0, P))"

fun spec_run :: "sbx_req list \<Rightarrow> policy \<Rightarrow> int list \<times> policy" where
  "spec_run [] P = ([], P)"
| "spec_run (q # qs) P =
     (let (r, P') = spec_do q P; (rs, P'') = spec_run qs P' in (r # rs, P''))"

fun admissible :: "sbx_req \<Rightarrow> policy \<Rightarrow> bool" where
  "admissible (Block uid proc nr) P \<longleftrightarrow>
     valid_id proc \<and> proc \<noteq> 0 \<and> valid_nr nr \<and> (uid = proc \<or> uid = 0 \<longrightarrow> P nr = None)"
| "admissible (Unblock uid proc nr) P \<longleftrightarrow> valid_id proc \<and> proc \<noteq> 0 \<and> valid_nr nr"
| "admissible (Count uid proc nr) P \<longleftrightarrow> valid_nr nr"
| "admissible (Find uid nr) P \<longleftrightarrow> valid_id uid \<and> uid \<noteq> 0 \<and> valid_nr nr"

fun admissible_run :: "sbx_req list \<Rightarrow> policy \<Rightarrow> bool" where
  "admissible_run [] P = True"
| "admissible_run (q # qs) P \<longleftrightarrow> admissible q P \<and> admissible_run qs (snd (spec_do q P))"

text \<open>How a row stands for the entry of one system call.\<close>

fun row_for :: "u64 \<Rightarrow> (u32 \<times> u64) option \<Rightarrow> sysTable \<Rightarrow> bool" where
  "row_for nr None e \<longleftrightarrow> call e = 999 \<and> hash e = replicate 32 0"
| "row_for nr (Some (p, c)) e \<longleftrightarrow>
     call e = nr \<and> count e = c \<and> p \<noteq> 0 \<and> hash e = (replicate 32 0)[bucket p := p]"

definition implements :: "sbx \<Rightarrow> policy \<Rightarrow> bool" where
  "implements s P \<longleftrightarrow> wf_sbx s \<and> started s \<noteq> 0
     \<and> (\<forall>nr. valid_nr nr \<longrightarrow> row_for nr (P nr) (row s nr))"

lemma implementsD:
  assumes "implements s P"
  shows "wf_sbx s" "started s \<noteq> 0" "sbx_begun s = s"
    "valid_nr nr \<Longrightarrow> row_for nr (P nr) (row s nr)"
  using assms by (simp_all add: implements_def)

lemma implements_start: "implements (sbx_begun sbx_boot) Map.empty"
  by (simp add: implements_def row_begun sbx_boot_rows reset_row_def)
    (simp add: sbx_boot_def)

lemma slot_for [simp]:
  "q \<noteq> 0 \<Longrightarrow> (replicate 32 0)[bucket p := p] ! bucket q = q \<longleftrightarrow> p = (q :: u32)"
  by (auto simp: nth_list_update_if)

lemma slot_free [simp]: "replicate 32 0 ! bucket q = (q :: u32) \<longleftrightarrow> q = 0"
  by auto

lemma implements_after:
  assumes "implements s P" "valid_nr nr" "row_for nr v e" "P' = P(nr := v)"
  shows "implements (after nr e lg s) P'"
proof -
  have "length (hash e) = 32"
    using assms(3) by (cases v) auto
  then show ?thesis
    using assms wf_after[OF implementsD(1)[OF assms(1)]] by (auto simp: implements_def)
qed

lemma implements_log: "implements s P \<Longrightarrow> implements (s\<lparr>klog := l\<rparr>) P"
  by (simp add: implements_def)

lemma implements_printk: "implements s P \<Longrightarrow> implements (printk f a s) P"
  by (simp add: implements_def)

section \<open>Simulation\<close>

definition simulates :: "(int \<times> sbx) res \<Rightarrow> int \<times> policy \<Rightarrow> bool" where
  "simulates m rP \<longleftrightarrow> (\<exists>s'. m = Inr (fst rP, s') \<and> implements s' (snd rP))"

lemma simulates_log [simp]:
  "implements s P \<Longrightarrow> simulates (Inr (r, s\<lparr>klog := l\<rparr>)) (r, P)"
  "implements s P \<Longrightarrow> simulates (Inr (r, printk f a s)) (r, P)"
  "implements s P \<Longrightarrow> simulates (Inr (r, s)) (r, P)"
  by (simp_all add: simulates_def implements_log implements_printk)

lemma simulates_after:
  "implements s P \<Longrightarrow> valid_nr nr \<Longrightarrow> row_for nr v e \<Longrightarrow>
   simulates (Inr (r, after nr e lg s)) (r, P(nr := v))"
  by (auto simp: simulates_def intro: implements_after)

lemma sim_block:
  assumes i: "implements s P" and a: "admissible (Block uid proc nr) P"
  shows "simulates (sbx421_block uid proc nr s) (spec_do (Block uid proc nr) P)"
proof (cases "uid = proc \<or> uid = 0")
  case True
  have e: "row_for nr None (row s nr)"
    using a True implementsD(4)[OF i, of nr] by auto
  then have "row_block proc nr (row s nr)
      = (0, \<lparr>call = nr, count = 0, hash = (replicate 32 0)[bucket proc := proc]\<rparr>)"
    by (simp add: row_block_def)
  then have "sbx421_block uid proc nr s = Inr (0, after nr
      \<lparr>call = nr, count = 0, hash = (replicate 32 0)[bucket proc := proc]\<rparr> [] s)"
    using block_run[OF implementsD(1)[OF i] _ _ True] a
    by (simp add: implementsD(3)[OF i] block_log_def)
  then show ?thesis
    using simulates_after[OF i, of nr "Some (proc, 0)"] a True by auto
next
  case False
  then show ?thesis
    using blk.denied[OF implementsD(1)[OF i], of uid proc nr] i
    by (auto simp: implementsD(3)[OF i])
qed

lemma sim_unblock:
  assumes i: "implements s P" and a: "admissible (Unblock uid proc nr) P"
  shows "simulates (sbx421_unblock uid proc nr s) (spec_do (Unblock uid proc nr) P)"
proof (cases "uid = proc \<or> uid = 0")
  case True
  have v: "valid_nr nr" "valid_id proc" "proc \<noteq> 0" using a by auto
  note run = unblock_run[OF implementsD(1)[OF i] v(1,2) True, unfolded implementsD(3)[OF i]]
  note rf = implementsD(4)[OF i v(1)]
  show ?thesis
  proof (cases "\<exists>c. P nr = Some (proc, c)")
    case hit: True
    then obtain c where P: "P nr = Some (proc, c)" ..
    let ?e = "(row s nr)\<lparr>call := 999, hash := (hash (row s nr))[bucket proc := 0]\<rparr>"
    have "row_for nr None ?e"
      using rf P by (simp add: list_eq_iff_nth_eq nth_list_update_if)
    moreover have "row_unblock proc nr (row s nr) = (0, ?e)"
      using rf P v by (simp add: row_unblock_def)
    ultimately show ?thesis
      using run P True simulates_after[OF i v(1), of None ?e] by auto
  next
    case miss: False
    have "row_unblock proc nr (row s nr) = (- EEXIST, row s nr)"
      using rf miss v valid_nr_not_999[OF v(1)]
      by (cases "P nr") (auto simp: row_unblock_def)
    then have "sbx421_unblock uid proc nr s
        = Inr (- EEXIST, s\<lparr>klog := klog s @ unblock_log proc nr (- EEXIST)\<rparr>)"
      using run by (simp add: after_def)
    moreover have "spec_do (Unblock uid proc nr) P = (- EEXIST, P)"
      using miss True by (auto split: option.splits)
    ultimately show ?thesis using i by simp
  qed
next
  case False
  then show ?thesis
    using unb.denied[OF implementsD(1)[OF i], of uid proc nr] i
    by (auto simp: implementsD(3)[OF i])
qed

lemma sim_find:
  assumes i: "implements s P" and a: "admissible (Find uid nr) P"
  shows "simulates (findder uid nr s) (spec_do (Find uid nr) P)"
proof -
  have v: "valid_nr nr" "valid_id uid" "uid \<noteq> 0" using a by auto
  note run = findder_run[OF implementsD(1)[OF i] v(1,2)]
  note rf = implementsD(4)[OF i v(1)]
  show ?thesis
  proof (cases "\<exists>c. P nr = Some (uid, c)")
    case True
    then obtain c where P: "P nr = Some (uid, c)" ..
    have "row_find uid nr (row s nr) = (1, (row s nr)\<lparr>count := c + 1\<rparr>)"
      using rf P v by (simp add: row_find_def)
    moreover have "row_for nr (Some (uid, c + 1)) ((row s nr)\<lparr>count := c + 1\<rparr>)"
      using rf P by simp
    ultimately show ?thesis
      using run P simulates_after[OF i v(1), of "Some (uid, c + 1)"] by auto
  next
    case False
    then have "row_find uid nr (row s nr) = (0, row s nr)"
      using rf v valid_nr_not_999[OF v(1)] by (cases "P nr") (auto simp: row_find_def)
    then have "findder uid nr s = Inr (0, s\<lparr>klog := klog s @ find_log uid nr 0\<rparr>)"
      using run by (simp add: after_def)
    then show ?thesis
      using False i by (auto split: option.splits)
  qed
qed

lemma sim_count:
  assumes i: "implements s P" and a: "admissible (Count uid proc nr) P"
  shows "simulates (sbx421_count uid proc nr s) (spec_do (Count uid proc nr) P)"
proof (cases "uid = 0 \<and> 0 < sint proc")
  case True
  have v: "valid_nr nr" "proc \<noteq> 0" using a True by auto
  note run = count_run[OF implementsD(1)[OF i] v(1) conjunct2[OF True],
      unfolded implementsD(3)[OF i]]
  note rf = implementsD(4)[OF i v(1)]
  show ?thesis
    using rf run True v i valid_nr_not_999[OF v(1)]
    by (cases "P nr") (auto simp: Let_def)
next
  case False
  then show ?thesis
    using i sbx_start_run[OF wf_lens(1)[OF implementsD(1)[OF i]]]
    by (auto simp: sbx421_count_def implementsD(3)[OF i] not_less)
qed

lemma sbx_do_simulates:
  "implements s P \<Longrightarrow> admissible q P \<Longrightarrow> simulates (sbx_do q s) (spec_do q P)"
  using sim_block sim_unblock sim_count sim_find by (cases q) (metis sbx_do.simps)+

lemma sbx_run_simulates:
  "implements s P \<Longrightarrow> admissible_run qs P \<Longrightarrow>
   \<exists>s'. sbx_run qs s = Inr (fst (spec_run qs P), s') \<and> implements s' (snd (spec_run qs P))"
proof (induction qs arbitrary: s P)
  case Nil
  then show ?case by simp
next
  case (Cons q qs)
  obtain s1 where q: "sbx_do q s = Inr (fst (spec_do q P), s1)"
    and i: "implements s1 (snd (spec_do q P))"
    using sbx_do_simulates[of s P q] Cons.prems by (auto simp: simulates_def)
  from Cons.IH[OF i] Cons.prems(2) q show ?case
    by (auto simp: case_prod_beta Let_def)
qed

end
