(* ===== verification/Sandbox_Props.thy ===== *)
theory Sandbox_Props
  imports Sandbox_Runs
begin

text \<open>
  The properties of the sandbox of \<^verbatim>\<open>proj2.c\<close>, each with a run on a concrete table. The
  table of the examples is the boot table after user 1000 has blocked itself from system call 1.
\<close>

section \<open>A concrete table\<close>

definition demo :: sbx where
  "demo = after 1 \<lparr>call = 1, count = 0, hash = (replicate 32 0)[8 := 1000]\<rparr> [] (sbx_begun sbx_boot)"

lemma demo_ids [simp]:
  "valid_id 1000" "bucket 1000 = 8" "valid_id 2000" "bucket 2000 = 16"
  "valid_nr 0" "valid_nr 1" "valid_nr 2" "\<not> valid_nr 437"
  by (simp_all add: valid_id_nonneg bucket_def getHashs_nonneg valid_nr_def)

lemma demo_block: "sbx421_block 1000 1000 1 sbx_boot = Inr (0, demo)"
  by (simp add: block_run row_block_def row_begun sbx_boot_rows reset_row_def block_log_def
      demo_def)

lemma demo_facts [simp]:
  "wf_sbx demo" "started demo \<noteq> 0" "sbx_begun demo = demo"
  "row demo n = (if n = 1 then \<lparr>call = 1, count = 0, hash = (replicate 32 0)[8 := 1000]\<rparr>
     else row (sbx_begun sbx_boot) n)"
proof -
  show "wf_sbx demo" unfolding demo_def by (rule wf_after) simp_all
  show s: "started demo \<noteq> 0" using started_begun[of sbx_boot] by (simp add: demo_def)
  show "sbx_begun demo = demo" using s by simp
  show "row demo n = (if n = 1 then \<lparr>call = 1, count = 0, hash = (replicate 32 0)[8 := 1000]\<rparr>
     else row (sbx_begun sbx_boot) n)"
    by (simp add: demo_def)
qed

lemma demo_refuses [simp]: "refuses demo 1000 1"
  by (simp add: refuses_def)

section \<open>Blocking\<close>

lemma block_success:
  assumes "wf_sbx s" "sbx421_block uid proc nr s = Inr (0, s')"
  shows "valid_id proc" "valid_nr nr"
    "s' = after nr \<lparr>call = nr, count = 0, hash = (hash (row s nr))[bucket proc := proc]\<rparr> []
       (sbx_begun s)"
proof -
  have p: "uid = proc \<or> uid = 0"
    using blk.denied[OF assms(1), of uid proc nr] assms(2) by (auto simp: EPERM_def)
  then have "valid_id proc \<and> valid_nr nr"
    using block_outside[OF assms(1) _, of uid proc nr] assms(2) by auto
  then show v: "valid_id proc" "valid_nr nr" by auto
  show "s' = after nr \<lparr>call = nr, count = 0, hash = (hash (row s nr))[bucket proc := proc]\<rparr> []
       (sbx_begun s)"
    using block_run[OF assms(1) v(2,1) p] assms v
    by (auto simp: row_block_def block_log_def EEXIST_def split: if_splits)
qed

text \<open>
  C2: after \<open>sbx421_block\<close> has returned 0 for \<open>proc\<close> and \<open>nr\<close>, the entry path's
  question \<open>findder\<close> answers 1 for that pair: the call is refused.
\<close>

theorem block_then_refused:
  assumes "wf_sbx s" "sbx421_block uid proc nr s = Inr (0, s')"
  shows "\<exists>s''. findder proc nr s' = Inr (1, s'')"
proof -
  note b = block_success[OF assms]
  have "wf_sbx s'" unfolding b(3) by (rule wf_after) (use assms(1) b(2) in simp_all)
  moreover have "refuses s' proc nr"
    using assms(1) b(1,2) unfolding b(3) refuses_def by simp
  ultimately show ?thesis
    using sbx_filter.decides[of s' proc nr] b(1,2) by auto
qed

theorem block_then_refused_witness:
  "sbx421_block 1000 1000 1 sbx_boot = Inr (0, demo) \<and> (\<exists>s''. findder 1000 1 demo = Inr (1, s''))"
  using block_then_refused[OF wf_sbx_boot demo_block] demo_block by blast

text \<open>
  C11: what a successful block does to every decision of the table. In the row of \<open>nr\<close> the
  target is refused, an id of the same bucket no longer is, and any other id is refused exactly
  when its slot still held it; every other row decides as before.
\<close>

theorem block_policy:
  assumes "wf_sbx s" "sbx421_block uid proc nr s = Inr (0, s')" "valid_nr n"
  shows "refuses s' u n \<longleftrightarrow>
    (if n = nr
     then u = proc \<or> bucket u \<noteq> bucket proc \<and> hash (row s nr) ! bucket u = u
     else refuses (sbx_begun s) u n)"
  using assms(1,3) block_success[OF assms(1,2)]
  by (auto simp: refuses_def nth_list_update_if)

theorem block_policy_witness:
  "refuses demo 1000 1 \<and> refuses demo 0 1 \<and> \<not> refuses demo 2000 1 \<and> \<not> refuses demo 1000 2"
  using block_policy[OF wf_sbx_boot demo_block, of 1 1000]
    block_policy[OF wf_sbx_boot demo_block, of 1 0]
    block_policy[OF wf_sbx_boot demo_block, of 1 2000]
    block_policy[OF wf_sbx_boot demo_block, of 2 1000]
  by (simp add: sbx_boot_rows refuses_def row_begun reset_row_def)

text \<open>
  Blocking any user from a system call also blocks root from it, as long as no id of
  bucket 0 was ever stored in that row: the empty slot value 0 is root's own id.
\<close>

theorem block_catches_root:
  assumes "wf_sbx s" "sbx421_block uid proc nr s = Inr (0, s')"
    and "bucket proc \<noteq> 0" "hash (row s nr) ! 0 = 0"
  shows "\<exists>s''. findder 0 nr s' = Inr (1, s'')"
proof -
  note b = block_success[OF assms(1,2)]
  have "wf_sbx s'" unfolding b(3) by (rule wf_after) (use assms(1) b(2) in simp_all)
  moreover have "refuses s' 0 nr"
    using assms b(1,2) unfolding b(3) refuses_def by simp
  ultimately show ?thesis
    using sbx_filter.decides[of s' 0 nr] b(2) by auto
qed

theorem block_catches_root_witness:
  "\<exists>s''. findder 0 1 demo = Inr (1, s'')"
  using block_catches_root[OF wf_sbx_boot demo_block] by (simp add: sbx_boot_rows)

text \<open>
  Blocking a pair that is already blocked returns \<open>-EEXIST\<close> and lifts the block for
  every user of that system call: the handler counts the repeat in the call number of the row,
  which then no longer matches.
\<close>

theorem reblock_lifts:
  assumes "wf_sbx s" "started s \<noteq> 0" "valid_id proc" "valid_nr nr" "uid = proc \<or> uid = 0"
    and "refuses s proc nr"
  shows "\<exists>s'. sbx421_block uid proc nr s = Inr (- EEXIST, s') \<and> (\<forall>u. \<not> refuses s' u nr)"
proof -
  have "row_block proc nr (row s nr) = (- EEXIST, (row s nr)\<lparr>call := nr + 1\<rparr>)"
    using assms(6) valid_nr_not_999[OF assms(4)] by (auto simp: row_block_def refuses_def)
  then show ?thesis
    using block_run[OF assms(1,4,3,5)] assms(1,2,4) by (auto simp: refuses_def)
qed

theorem reblock_lifts_witness:
  "\<exists>s'. sbx421_block 1000 1000 1 demo = Inr (- EEXIST, s') \<and> (\<forall>u. \<not> refuses s' u 1)"
  by (rule reblock_lifts) simp_all

text \<open>
  C38: for a caller the handler lets through, \<open>sbx421_block\<close> leaves the table's memory
  exactly when the call number is not below 437 or the id hashes to a negative index; no such
  argument is rejected by a check.
\<close>

theorem block_bounds:
  assumes "wf_sbx s" "uid = proc \<or> uid = 0"
  shows "sbx421_block uid proc nr s = Inl OutOfBounds \<longleftrightarrow>
    436 < unat nr \<or> getHashs proc < 0"
proof (cases "valid_id proc \<and> valid_nr nr")
  case True
  then show ?thesis
    using blk.returns[OF assms(1), of nr proc uid] by (auto simp: valid_id_def valid_nr_def)
next
  case False
  then show ?thesis
    using block_outside[OF assms False] by (auto simp: valid_id_def valid_nr_def not_le not_less)
qed

theorem block_bounds_witness:
  "sbx421_block 0 1000 437 sbx_boot = Inl OutOfBounds
   \<and> sbx421_block 0 (- 1) 1 sbx_boot = Inl OutOfBounds
   \<and> sbx421_block 0 1000 436 sbx_boot \<noteq> Inl OutOfBounds"
proof -
  have "getHashs (- 1) < 0" by (rule getHashs_negative) simp_all
  moreover have "\<not> getHashs 1000 < 0" using demo_ids(1) by (simp add: valid_id_def)
  ultimately show ?thesis
    using block_bounds[OF wf_sbx_boot, of 0 1000 437] block_bounds[OF wf_sbx_boot, of 0 "- 1" 1]
      block_bounds[OF wf_sbx_boot, of 0 1000 436] by simp
qed

section \<open>Unblocking, permissions and confinement\<close>

lemma unblock_success:
  assumes "wf_sbx s" "sbx421_unblock uid proc nr s = Inr (0, s')"
  shows "valid_id proc" "valid_nr nr" "refuses (sbx_begun s) proc nr"
    "\<exists>lg. s' = after nr ((row (sbx_begun s) nr)\<lparr>call := 999,
       hash := (hash (row s nr))[bucket proc := 0]\<rparr>) lg (sbx_begun s)"
proof -
  have p: "uid = proc \<or> uid = 0"
    using unb.denied[OF assms(1), of uid proc nr] assms(2) by (auto simp: EPERM_def)
  then have "valid_id proc \<and> valid_nr nr"
    using unblock_outside[OF assms(1) _, of uid proc nr] assms(2) by (auto simp: EEXIST_def)
  then show v: "valid_id proc" "valid_nr nr" by auto
  show "refuses (sbx_begun s) proc nr"
    using unblock_run[OF assms(1) v(2,1) p] assms v
    by (auto simp: row_unblock_def EEXIST_def refuses_def split: if_splits)
  show "\<exists>lg. s' = after nr ((row (sbx_begun s) nr)\<lparr>call := 999,
       hash := (hash (row s nr))[bucket proc := 0]\<rparr>) lg (sbx_begun s)"
    using unblock_run[OF assms(1) v(2,1) p] assms v
    by (auto simp: row_unblock_def EEXIST_def split: if_splits)
qed

lemma unblock_decides:
  assumes "wf_sbx s" "sbx421_unblock uid proc nr s = Inr (0, s')" "valid_nr n"
  shows "refuses s' u n \<longleftrightarrow> n \<noteq> nr \<and> refuses (sbx_begun s) u n"
  using unblock_success[OF assms(1,2)] valid_nr_not_999[OF assms(3)] assms(1,3)
  by (auto simp: refuses_def split: if_splits)

text \<open>
  C19: a successful \<open>sbx421_unblock\<close> lifts the block of every id from that system call, not
  only the target's, and leaves every other system call's decisions alone.
\<close>

theorem unblock_policy:
  assumes "wf_sbx s" "sbx421_unblock uid proc nr s = Inr (0, s')" "valid_nr n"
  shows "refuses s' u n \<longleftrightarrow> n \<noteq> nr \<and> refuses (sbx_begun s) u n"
  by (rule unblock_decides[OF assms])

theorem unblock_policy_witness:
  "\<exists>s'. sbx421_unblock 1000 1000 1 demo = Inr (0, s') \<and> \<not> refuses s' 1000 1 \<and> \<not> refuses s' 0 1"
proof -
  obtain s' where "sbx421_unblock 1000 1000 1 demo = Inr (0, s')"
    using unblock_run[of demo 1 1000 1000] by (auto simp: row_unblock_def)
  then show ?thesis
    using unblock_policy[of demo 1000 1000 1 s' 1] by simp
qed

text \<open>
  Blocking a pair and unblocking it again returns 0 twice and leaves the id free to make
  the call.
\<close>

theorem block_unblock_roundtrip:
  assumes "wf_sbx s" "sbx421_block uid proc nr s = Inr (0, s1)"
  shows "\<exists>s2 s3. sbx421_unblock uid proc nr s1 = Inr (0, s2) \<and> findder proc nr s2 = Inr (0, s3)"
proof -
  note b = block_success[OF assms]
  have p: "uid = proc \<or> uid = 0"
    using blk.denied[OF assms(1), of uid proc nr] assms(2) by (auto simp: EPERM_def)
  have wf1: "wf_sbx s1" unfolding b(3) by (rule wf_after) (use assms(1) b(2) in simp_all)
  have st: "started s1 \<noteq> 0" unfolding b(3) using started_begun by simp
  have "fst (row_unblock proc nr (row s1 nr)) = 0"
    using assms(1) b(1,2) unfolding b(3) by (simp add: row_unblock_def)
  then obtain s2 where s2: "sbx421_unblock uid proc nr s1 = Inr (0, s2)"
    using unblock_run[OF wf1 b(2,1) p] st by (simp add: case_prod_beta Let_def)
  moreover have "wf_sbx s2"
    using unb.returns[OF wf1 b(2,1), of uid] s2 by simp
  ultimately show ?thesis
    using sbx_filter.decides[of s2 proc nr] unblock_decides[OF wf1 s2 b(2), of proc] b(1,2)
    by auto
qed

theorem block_unblock_roundtrip_witness:
  "\<exists>s2 s3. sbx421_unblock 1000 1000 1 demo = Inr (0, s2) \<and> findder 1000 1 s2 = Inr (0, s3)"
  by (rule block_unblock_roundtrip[OF wf_sbx_boot demo_block])

text \<open>
  A caller that is neither root nor the target is turned away with \<open>-EPERM\<close> by both
  editing system calls, whatever the arguments, and no decision of the table changes.
\<close>

theorem strangers_denied:
  assumes "wf_sbx s" "uid \<noteq> proc" "uid \<noteq> 0"
    and "op = sbx421_block \<or> op = sbx421_unblock"
  shows "\<exists>s'. op uid proc nr s = Inr (- EPERM, s') \<and> refuses s' = refuses (sbx_begun s)"
proof -
  have "\<exists>lg. op uid proc nr s = Inr (- EPERM, (sbx_begun s)\<lparr>klog := klog s @ lg\<rparr>)"
    using blk.denied[OF assms(1-3)] unb.denied[OF assms(1-3)] assms(4) by auto
  then show ?thesis
    by (auto simp: refuses_def fun_eq_iff)
qed

theorem strangers_denied_witness:
  "\<exists>s'. sbx421_unblock 2000 1000 1 demo = Inr (- EPERM, s') \<and> refuses s' = refuses demo"
  using strangers_denied[of demo 2000 1000 sbx421_unblock 1] by simp

text \<open>
  A sandboxed user leaves the sandbox alone: whoever placed the block, the blocked id's
  own call of \<open>sbx421_unblock\<close> succeeds and the system call is open to it again.
\<close>

theorem blocked_user_unblocks_itself:
  assumes "wf_sbx s" "started s \<noteq> 0" "valid_id u" "valid_nr nr" "refuses s u nr"
  shows "\<exists>s'. sbx421_unblock u u nr s = Inr (0, s') \<and> \<not> refuses s' u nr"
proof -
  have "fst (row_unblock u nr (row s nr)) = 0"
    using assms(5) by (simp add: row_unblock_def refuses_def)
  then obtain s' where "sbx421_unblock u u nr s = Inr (0, s')"
    using unblock_run[OF assms(1,4,3), of u] assms(2) by (simp add: case_prod_beta Let_def)
  then show ?thesis
    using unblock_decides[OF assms(1) _ assms(4)] by blast
qed

theorem blocked_user_unblocks_itself_witness:
  "\<exists>s'. sbx421_unblock 1000 1000 1 demo = Inr (0, s') \<and> \<not> refuses s' 1000 1"
  by (rule blocked_user_unblocks_itself) simp_all

text \<open>
  C17: what an unprivileged caller can reach. A block or unblock by a user other than root,
  on any target, leaves the decisions of every other system call as they were and, in the row
  it names, every slot but the one the caller's own id hashes to.
\<close>

theorem unprivileged_confined:
  assumes "wf_sbx s" "uid \<noteq> 0" "op = sbx421_block \<or> op = sbx421_unblock"
    and "valid_nr nr" "valid_id proc" "op uid proc nr s = Inr (r, s')"
  shows "(\<forall>n u. n \<noteq> nr \<longrightarrow> refuses s' u n = refuses (sbx_begun s) u n)
    \<and> (\<forall>n i. i \<noteq> bucket uid \<longrightarrow> hash (row s' n) ! i = hash (row (sbx_begun s) n) ! i)"
proof (intro conjI allI impI)
  fix n u assume n: "n \<noteq> nr"
  have "row s' n = row (sbx_begun s) n"
    using blk.other_row[OF assms(1,4,5) _ n] unb.other_row[OF assms(1,4,5) _ n] assms(3,6) by auto
  then show "refuses s' u n = refuses (sbx_begun s) u n" by (simp add: refuses_def)
next
  fix n and i :: nat assume i: "i \<noteq> bucket uid"
  show "hash (row s' n) ! i = hash (row (sbx_begun s) n) ! i"
  proof (cases "uid = proc")
    case True
    then show ?thesis
      using blk.other_slot[OF assms(1,4,5)] unb.other_slot[OF assms(1,4,5)] assms(3,6) i by blast
  next
    case False
    then show ?thesis
      using blk.denied_row(2)[OF assms(1) False assms(2)] unb.denied_row(2)[OF assms(1) False assms(2)]
        assms(3,6) by metis
  qed
qed

theorem unprivileged_confined_witness:
  "refuses demo 1000 2 = refuses (sbx_begun sbx_boot) 1000 2
   \<and> hash (row demo 1) ! 5 = hash (row (sbx_begun sbx_boot) 1) ! 5"
proof -
  have a: "(sbx421_block :: u32 \<Rightarrow> u32 \<Rightarrow> u64 \<Rightarrow> sbx \<Rightarrow> (int \<times> sbx) res) = sbx421_block
      \<or> sbx421_block = sbx421_unblock" by simp
  have "(1000 :: u32) \<noteq> 0" "(2 :: u64) \<noteq> 1" "(5 :: nat) \<noteq> bucket 1000" by simp_all
  then show ?thesis
    using unprivileged_confined[OF wf_sbx_boot _ a demo_ids(6,1) demo_block] by blast
qed

section \<open>The boot state and the reachable states\<close>

text \<open>
  Before any sandbox call has been made, the entry path refuses root's \<open>read\<close> (system
  call 0): the boot table is all zero, \<open>findder\<close> does not initialise it, and call number 0
  with id 0 is what an empty row says.
\<close>

theorem boot_refuses_root_read:
  "\<exists>s'. findder 0 0 sbx_boot = Inr (1, s') \<and> started s' = 0"
proof -
  have r: "refuses sbx_boot 0 0" by (simp add: refuses_def sbx_boot_rows)
  obtain s' where "findder 0 0 sbx_boot = Inr (1, s')"
    using sbx_filter.decides[OF wf_sbx_boot, of 0 0] r by auto
  moreover have "started sbx_boot = 0" by (simp add: sbx_boot_def)
  ultimately show ?thesis
    using findder_row(3)[OF wf_sbx_boot demo_ids(5) valid_id_zero] by metis
qed

text \<open>
  C15: in every state the system calls and the entry path can reach from boot, with any
  arguments, the table has its 437 rows of 32 slots, the lock is free, and a slot is empty or
  holds an id that hashes to it.
\<close>

theorem reachable_table:
  assumes "sbx_reachable s"
  shows "wf_sbx s \<and> slots_ok s"
  using reachable_inv[OF assms] by (simp add: sbx_inv_def)

theorem reachable_table_witness: "wf_sbx demo \<and> slots_ok demo"
proof -
  have "sbx_do (Block 1000 1000 1) sbx_boot = Inr (0, demo)" by (simp add: demo_block)
  then show ?thesis
    by (rule reachable_table[OF sbx_reachable.request[OF sbx_reachable.boot]])
qed

text \<open>
  A system call refuses at most 32 ids at a time, one per slot of its row, in any
  state.
\<close>

theorem refused_ids_bounded: "card {u. refuses s u nr} \<le> 32"
  by (rule refuses_card)

section \<open>Counting and the policy\<close>

lemma find_many:
  assumes "wf_sbx s" "valid_nr nr" "valid_id u" "refuses s u nr"
  shows "\<exists>s'. sbx_run (replicate k (Find u nr)) s = Inr (replicate k 1, s') \<and> wf_sbx s'
    \<and> started s' = started s
    \<and> row s' nr = (row s nr)\<lparr>count := count (row s nr) + of_nat k\<rparr>"
  using assms(1,4)
proof (induction k arbitrary: s)
  case 0
  then show ?case by simp
next
  case (Suc k)
  obtain s1 where f: "findder u nr s = Inr (1, s1)" and w: "wf_sbx s1"
    using sbx_filter.decides[OF Suc.prems(1), of u nr] assms(2,3) Suc.prems(2) by auto
  note st = findder_row(3)[OF Suc.prems(1) assms(2,3) f]
    and r = findder_row(4)[OF Suc.prems(1) assms(2,3) f, of nr]
  have rf: "refuses s1 u nr"
    using r assms(2) Suc.prems(2) by (simp add: refuses_def)
  obtain s' where "sbx_run (replicate k (Find u nr)) s1 = Inr (replicate k 1, s')" "wf_sbx s'"
    "started s' = started s1" "row s' nr = (row s1 nr)\<lparr>count := count (row s1 nr) + of_nat k\<rparr>"
    using Suc.IH[OF w rf] by blast
  then show ?case
    using f r st assms(2) Suc.prems(2) by (simp add: algebra_simps)
qed

text \<open>
  C25: \<open>sbx421_count\<close> reports the refusals. After a successful block of an id that is positive
  as an \<open>int\<close>, in a well-formed table, each of \<open>k\<close> calls of the blocked id is refused, and root then
  reads \<open>k\<close> from the count, as long as \<open>k\<close> fits the \<open>int\<close> the handler returns it through.
\<close>

theorem count_counts_refusals:
  assumes "wf_sbx s" "sbx421_block uid proc nr s = Inr (0, s1)" "0 < sint proc" "k < 2 ^ 31"
  shows "\<exists>s2 s3. sbx_run (replicate k (Find proc nr)) s1 = Inr (replicate k 1, s2)
    \<and> sbx421_count 0 proc nr s2 = Inr (int k, s3)"
proof -
  note b = block_success[OF assms(1,2)]
  have wf1: "wf_sbx s1" unfolding b(3) by (rule wf_after) (use assms(1) b(2) in simp_all)
  have st: "started s1 \<noteq> 0" unfolding b(3) using started_begun by simp
  have r1: "row s1 nr = \<lparr>call = nr, count = 0, hash = (hash (row s nr))[bucket proc := proc]\<rparr>"
    unfolding b(3) using assms(1) b(2) by simp
  have rf: "refuses s1 proc nr"
    using assms(1) b(2) by (simp add: refuses_def r1)
  obtain s2 where s2: "sbx_run (replicate k (Find proc nr)) s1 = Inr (replicate k 1, s2)"
    "wf_sbx s2" "started s2 = started s1" "row s2 nr = (row s1 nr)\<lparr>count := of_nat k\<rparr>"
    using find_many[OF wf1 b(2,1) rf, of k] by (auto simp: r1)
  have "take_bit 64 k = k" using assms(4) by (simp add: take_bit_nat_eq_self_iff)
  then have "(ucast (of_nat k :: u64) :: u32) = of_nat k"
    by (simp add: unsigned_of_nat)
  moreover have "sint (of_nat k :: u32) = int k"
    using assms(4) by (simp add: signed_of_nat signed_take_bit_int_eq_self)
  ultimately have "sint (ucast (of_nat k :: u64) :: u32) = int k" by simp
  then show ?thesis
    using count_run[OF s2(2) b(2) assms(3)] s2 st assms(1) b(2) by (simp add: r1 Let_def)
qed

theorem count_counts_refusals_witness:
  "\<exists>s2 s3. sbx_run (replicate 3 (Find 1000 1)) demo = Inr (replicate 3 1, s2)
    \<and> sbx421_count 0 1000 1 s2 = Inr (3, s3)"
  using count_counts_refusals[OF wf_sbx_boot demo_block, of 3] by simp

text \<open>
  C1: the table implements the intended policy. Started, and under the discipline that a
  system call has at most one tenant at a time and root is never one, every run of block,
  unblock, count and lookup requests returns exactly what the policy of \<open>spec_do\<close> returns and
  ends in a table that stands for the policy's final state.
\<close>

theorem table_implements_policy:
  assumes "implements s P" "admissible_run qs P"
  shows "\<exists>s'. sbx_run qs s = Inr (fst (spec_run qs P), s') \<and> implements s' (snd (spec_run qs P))"
  using assms by (rule sbx_run_simulates)

theorem table_implements_policy_witness:
  "\<exists>s'. sbx_run [Block 0 1000 1, Find 1000 1, Find 2000 1, Count 0 1000 1, Unblock 1000 1000 1,
                 Find 1000 1] (sbx_begun sbx_boot)
         = Inr ([0, 1, 0, 1, 0, 0], s') \<and> implements s' Map.empty"
proof -
  have e: "spec_run [Block 0 1000 1, Find 1000 1, Find 2000 1, Count 0 1000 1,
      Unblock 1000 1000 1, Find 1000 1] Map.empty = ([0, 1, 0, 1, 0, 0], Map.empty)"
    by (simp add: fun_eq_iff)
  show ?thesis
    using table_implements_policy[OF implements_start, of "[Block 0 1000 1, Find 1000 1,
        Find 2000 1, Count 0 1000 1, Unblock 1000 1000 1, Find 1000 1]"]
    unfolding e by simp
qed

end
