(* ===== verification/Entry.thy ===== *)
theory Entry
  imports Sandbox_Policy
begin

text \<open>
  The system-call entry and exit path of \<^verbatim>\<open>project 2/common.c\<close>, with the sandbox check that
  project 2 added to \<open>do_syscall_64\<close>.

  The build modelled is x86-64 with \<^verbatim>\<open>CONFIG_IA32_EMULATION\<close>, \<^verbatim>\<open>CONFIG_COMPAT\<close>,
  \<^verbatim>\<open>CONFIG_SECCOMP\<close> and \<^verbatim>\<open>CONFIG_CONTEXT_TRACKING\<close>, and without \<^verbatim>\<open>CONFIG_DEBUG_ENTRY\<close> and
  \<^verbatim>\<open>CONFIG_PROVE_LOCKING\<close>. Every kernel function the file only calls is a parameter: \<open>kenv\<close>
  gives its effect on the state (\<open>ext\<close>) and its result (\<open>ret_of\<close> and the other fields), and
  the call is recorded in the state's trace in the order of the code. Assertions
  (\<^verbatim>\<open>CT_WARN_ON\<close>, \<^verbatim>\<open>lockdep_*\<close>, \<^verbatim>\<open>fpregs_assert_state_consistent\<close>) and branch hints have no
  effect and are left out. Flag words are sets of flags, masking is intersection.
\<close>

section \<open>State and environment\<close>

datatype tif =
    TIF_SYSCALL_TRACE | TIF_SYSCALL_EMU | TIF_SYSCALL_AUDIT | TIF_SECCOMP
  | TIF_SYSCALL_TRACEPOINT | TIF_SINGLESTEP | TIF_SIGPENDING | TIF_NOTIFY_RESUME | TIF_UPROBE
  | TIF_NEED_RESCHED | TIF_USER_RETURN_NOTIFY | TIF_PATCH_PENDING | TIF_NEED_FPU_LOAD
  | TIF_OTHER nat

datatype ts = TS_COMPAT | TS_I386_REGS_POKED | TS_OTHER nat

datatype arch = AUDIT_ARCH_I386 | AUDIT_ARCH_X86_64

record pt_regs =
  r_ax :: u64
  r_orig_ax :: u64
  r_bx :: u64
  r_cx :: u64
  r_dx :: u64
  r_si :: u64
  r_di :: u64
  r_bp :: u64
  r_8 :: u64
  r_9 :: u64
  r_10 :: u64
  r_ip :: u64
  r_sp :: u64
  r_cs :: u64
  r_ss :: u64
  r_trap_flags :: bool   \<comment> \<open>\<^verbatim>\<open>flags & (X86_EFLAGS_RF | X86_EFLAGS_TF)\<close> is not 0\<close>

record seccomp_data =
  sd_arch :: arch
  sd_nr :: u32
  sd_ip :: u64
  sd_args :: "u64 list"

text \<open>The kernel functions the file calls, with the arguments that matter.\<close>

datatype kfun =
    User_exit_irqoff | User_enter_irqoff | Local_irq_enable | Local_irq_disable
  | Schedule | Uprobe_notify_resume | Klp_update_patch_state | Do_signal
  | Tracehook_notify_resume | Rseq_handle_notify_resume | Fire_user_return_notifiers
  | Addr_limit_user_check | Switch_fpu_return | Mds_user_clear_cpu_buffers | Rseq_syscall
  | Report_syscall_entry | Report_syscall_exit bool
  | Secure_computing seccomp_data
  | Trace_sys_enter u64 | Trace_sys_exit u64
  | Audit_syscall_entry u64 "u64 list" | Audit_syscall_exit
  | Dispatch u64 | Dispatch32 u32

record 's kst =
  regs :: pt_regs
  ti_flags :: "tif set"
  ti_status :: "ts set"
  cred_uid :: u32
  filt :: 's               \<comment> \<open>the state of the sandbox\<close>
  trace :: "kfun list"

record 's kenv =
  ext :: "kfun \<Rightarrow> 's kst \<Rightarrow> 's kst"
  ret_of :: "kfun \<Rightarrow> 's kst \<Rightarrow> int"
  in_ia32_syscall :: "'s kst \<Rightarrow> bool"
  get_user_bp :: "'s kst \<Rightarrow> bool \<times> u32"   \<comment> \<open>did it fail, and the value stored\<close>
  landing_pad :: "'s kst \<Rightarrow> u64"
  sys_call_ret :: "u64 \<Rightarrow> 's kst \<Rightarrow> u64"
  ia32_sys_call_ret :: "u32 \<Rightarrow> 's kst \<Rightarrow> u64"
  array_index_nospec :: "u64 \<Rightarrow> u64 \<Rightarrow> u64"
  TIF_WORK_SYSCALL_ENTRY :: "tif set"
  SYSCALL_MASK :: u64
  NR_syscalls :: u64
  IA32_NR_syscalls :: u32
  USER32_CS :: u64
  USER_DS :: u64

definition callx :: "'s kenv \<Rightarrow> kfun \<Rightarrow> 's kst \<Rightarrow> 's kst" where
  "callx E f s = (ext E f s)\<lparr>trace := trace s @ [f]\<rparr>"

definition set_ax :: "u64 \<Rightarrow> 's kst \<Rightarrow> 's kst" where
  "set_ax v s = s\<lparr>regs := (regs s)\<lparr>r_ax := v\<rparr>\<rparr>"

section \<open>Entry work\<close>

definition enter_from_user_mode :: "'s kenv \<Rightarrow> 's kst \<Rightarrow> 's kst" where
  "enter_from_user_mode E s = callx E User_exit_irqoff s"

definition do_audit_syscall_entry :: "'s kenv \<Rightarrow> arch \<Rightarrow> 's kst \<Rightarrow> 's kst" where
  "do_audit_syscall_entry E a s =
     (let r = regs s in
      if a = AUDIT_ARCH_X86_64
      then callx E (Audit_syscall_entry (r_orig_ax r) [r_di r, r_si r, r_dx r, r_10 r]) s
      else callx E (Audit_syscall_entry (r_orig_ax r) [r_bx r, r_cx r, r_dx r, r_si r]) s)"

definition seccomp_args :: "arch \<Rightarrow> pt_regs \<Rightarrow> u64 list" where
  "seccomp_args a r =
     (if a = AUDIT_ARCH_X86_64
      then [r_di r, r_si r, r_dx r, r_10 r, r_8 r, r_9 r]
      else [r_bx r, r_cx r, r_dx r, r_si r, r_di r, r_bp r])"

text \<open>
  \<open>syscall_trace_enter\<close>: the number of the system call to run, or -1 to skip it. The first
  part is the ptrace report, the second seccomp, the third tracepoint and audit.
\<close>

definition trace_enter_tail :: "'s kenv \<Rightarrow> arch \<Rightarrow> u64 \<Rightarrow> 's kst \<Rightarrow> u64 \<times> 's kst" where
  "trace_enter_tail E a ret s =
     (let s = (if TIF_SYSCALL_TRACEPOINT \<in> ti_flags s
               then callx E (Trace_sys_enter (r_orig_ax (regs s))) s else s);
          s = do_audit_syscall_entry E a s
      in (if ret \<noteq> 0 then ret else r_orig_ax (regs s), s))"

definition syscall_trace_enter :: "'s kenv \<Rightarrow> 's kst \<Rightarrow> u64 \<times> 's kst" where
  "syscall_trace_enter E s =
     (let a = (if in_ia32_syscall E s then AUDIT_ARCH_I386 else AUDIT_ARCH_X86_64);
          work = ti_flags s \<inter> TIF_WORK_SYSCALL_ENTRY E;
          emulated = (TIF_SYSCALL_EMU \<in> work);
          report = (emulated \<or> TIF_SYSCALL_TRACE \<in> work);
          rep = ret_of E Report_syscall_entry s;
          s = (if report then callx E Report_syscall_entry s else s)
      in if report \<and> rep \<noteq> 0 then (- 1, s)
         else if emulated then (- 1, s)
         else if TIF_SECCOMP \<in> work then
           (let r = regs s;
                sd = Secure_computing \<lparr>sd_arch = a, sd_nr = ucast (r_orig_ax r), sd_ip = r_ip r,
                       sd_args = seccomp_args a r\<rparr>;
                ret = word_of_int (ret_of E sd s);
                s = callx E sd s
            in if ret = - 1 then (ret, s) else trace_enter_tail E a ret s)
         else trace_enter_tail E a 0 s)"

section \<open>Exit work\<close>

definition EXIT_TO_USERMODE_LOOP_FLAGS :: "tif set" where
  "EXIT_TO_USERMODE_LOOP_FLAGS =
     {TIF_SIGPENDING, TIF_NOTIFY_RESUME, TIF_UPROBE, TIF_NEED_RESCHED,
      TIF_USER_RETURN_NOTIFY, TIF_PATCH_PENDING}"

definition when_set :: "tif \<Rightarrow> tif set \<Rightarrow> ('s kst \<Rightarrow> 's kst) \<Rightarrow> 's kst \<Rightarrow> 's kst" where
  "when_set t cached f s = (if t \<in> cached then f s else s)"

text \<open>One turn of the loop's body, up to the second read of the flags.\<close>

definition exit_pass :: "'s kenv \<Rightarrow> tif set \<Rightarrow> 's kst \<Rightarrow> 's kst" where
  "exit_pass E cached s =
     (let s = callx E Local_irq_enable s;
          s = when_set TIF_NEED_RESCHED cached (callx E Schedule) s;
          s = when_set TIF_UPROBE cached (callx E Uprobe_notify_resume) s;
          s = when_set TIF_PATCH_PENDING cached (callx E Klp_update_patch_state) s;
          s = when_set TIF_SIGPENDING cached (callx E Do_signal) s;
          s = when_set TIF_NOTIFY_RESUME cached
                (\<lambda>s. callx E Rseq_handle_notify_resume
                      (callx E Tracehook_notify_resume
                        (s\<lparr>ti_flags := ti_flags s - {TIF_NOTIFY_RESUME}\<rparr>))) s;
          s = when_set TIF_USER_RETURN_NOTIFY cached (callx E Fire_user_return_notifiers) s
      in callx E Local_irq_disable s)"

partial_function (option) exit_to_usermode_loop ::
  "'s kenv \<Rightarrow> tif set \<Rightarrow> 's kst \<Rightarrow> 's kst option" where
  "exit_to_usermode_loop E cached s =
     (let s' = exit_pass E cached s; cached' = ti_flags s' in
      if cached' \<inter> EXIT_TO_USERMODE_LOOP_FLAGS = {} then Some s'
      else exit_to_usermode_loop E cached' s')"

declare exit_to_usermode_loop.simps [code]

definition prepare_exit_to_usermode :: "'s kenv \<Rightarrow> 's kst \<Rightarrow> 's kst res" where
  "prepare_exit_to_usermode E s =
     (let s = callx E Addr_limit_user_check s;
          cached = ti_flags s
      in andThen
           (if cached \<inter> EXIT_TO_USERMODE_LOOP_FLAGS \<noteq> {}
            then (case exit_to_usermode_loop E cached s of None \<Rightarrow> Inl NoReturn | Some s \<Rightarrow> Inr s)
            else Inr s)
           (\<lambda>s. let cached = ti_flags s;
                    s = when_set TIF_NEED_FPU_LOAD cached (callx E Switch_fpu_return) s;
                    s = s\<lparr>ti_status := ti_status s - {TS_COMPAT, TS_I386_REGS_POKED}\<rparr>;
                    s = callx E User_enter_irqoff s
                in Inr (callx E Mds_user_clear_cpu_buffers s)))"

definition SYSCALL_EXIT_WORK_FLAGS :: "tif set" where
  "SYSCALL_EXIT_WORK_FLAGS =
     {TIF_SYSCALL_TRACE, TIF_SYSCALL_AUDIT, TIF_SINGLESTEP, TIF_SYSCALL_TRACEPOINT}"

definition syscall_slow_exit_work :: "'s kenv \<Rightarrow> tif set \<Rightarrow> 's kst \<Rightarrow> 's kst" where
  "syscall_slow_exit_work E cached s =
     (let s = callx E Audit_syscall_exit s;
          s = when_set TIF_SYSCALL_TRACEPOINT cached
                (\<lambda>s. callx E (Trace_sys_exit (r_ax (regs s))) s) s;
          step = (cached \<inter> {TIF_SINGLESTEP, TIF_SYSCALL_EMU} = {TIF_SINGLESTEP})
      in if step \<or> TIF_SYSCALL_TRACE \<in> cached
         then callx E (Report_syscall_exit step) s else s)"

definition syscall_return_slowpath :: "'s kenv \<Rightarrow> 's kst \<Rightarrow> 's kst res" where
  "syscall_return_slowpath E s =
     (let cached = ti_flags s;
          s = callx E Rseq_syscall s;
          s = (if cached \<inter> SYSCALL_EXIT_WORK_FLAGS \<noteq> {}
               then syscall_slow_exit_work E cached s else s);
          s = callx E Local_irq_disable s
      in prepare_exit_to_usermode E s)"

section \<open>System calls\<close>

text \<open>\<open>regs->ax = sys_call_table[nr](regs)\<close>\<close>

definition dispatch :: "'s kenv \<Rightarrow> u64 \<Rightarrow> 's kst \<Rightarrow> 's kst" where
  "dispatch E nr s = (let v = sys_call_ret E nr s in set_ax v (callx E (Dispatch nr) s))"

text \<open>\<open>do_syscall_64\<close> from \<open>enter_from_user_mode\<close> on: the kernel's own code.\<close>

definition do_syscall_64_body :: "'s kenv \<Rightarrow> u64 \<Rightarrow> 's kst \<Rightarrow> 's kst res" where
  "do_syscall_64_body E nr s =
     (let s = enter_from_user_mode E s;
          s = callx E Local_irq_enable s;
          (nr, s) = (if ti_flags s \<inter> TIF_WORK_SYSCALL_ENTRY E \<noteq> {}
                     then syscall_trace_enter E s else (nr, s));
          nr = and nr (SYSCALL_MASK E);
          s = (if nr < NR_syscalls E
               then dispatch E (array_index_nospec E nr (NR_syscalls E)) s else s)
      in syscall_return_slowpath E s)"

text \<open>
  The check project 2 put in front of it. The sandbox's function is the parameter \<open>check\<close>;
  project 2 builds with \<open>check = findder\<close>. The block taken for a refused call sets \<open>ax\<close> and
  prepares the exit, but does not return, so control goes on to the kernel's own code.
\<close>

definition sandbox_gate ::
  "(u32 \<Rightarrow> u64 \<Rightarrow> 's \<Rightarrow> (int \<times> 's) res) \<Rightarrow> 's kenv \<Rightarrow> u64 \<Rightarrow> 's kst \<Rightarrow> 's kst res" where
  "sandbox_gate check E nr s =
     andThen (check (cred_uid s) nr (filt s)) (\<lambda>(checker, f).
     let s = s\<lparr>filt := f\<rparr> in
     if checker = 1
     then prepare_exit_to_usermode E
            (callx E Local_irq_disable (set_ax (word_of_int (- EACCES)) s))
     else Inr s)"

definition do_syscall_64 ::
  "(u32 \<Rightarrow> u64 \<Rightarrow> 's \<Rightarrow> (int \<times> 's) res) \<Rightarrow> 's kenv \<Rightarrow> u64 \<Rightarrow> 's kst \<Rightarrow> 's kst res" where
  "do_syscall_64 check E nr s = andThen (sandbox_gate check E nr s) (do_syscall_64_body E nr)"

definition dispatch32 :: "'s kenv \<Rightarrow> u32 \<Rightarrow> 's kst \<Rightarrow> 's kst" where
  "dispatch32 E nr s = (let v = ia32_sys_call_ret E nr s in set_ax v (callx E (Dispatch32 nr) s))"

definition do_syscall_32_irqs_on :: "'s kenv \<Rightarrow> 's kst \<Rightarrow> 's kst res" where
  "do_syscall_32_irqs_on E s =
     (let nr = ucast (r_orig_ax (regs s)) :: u32;
          s = s\<lparr>ti_status := insert TS_COMPAT (ti_status s)\<rparr>;
          (nr, s) = (if ti_flags s \<inter> TIF_WORK_SYSCALL_ENTRY E \<noteq> {}
                     then (let (n, s) = syscall_trace_enter E s in (ucast n, s)) else (nr, s));
          s = (if nr < IA32_NR_syscalls E
               then dispatch32 E (ucast (array_index_nospec E (ucast nr)
                                           (ucast (IA32_NR_syscalls E)))) s
               else s)
      in syscall_return_slowpath E s)"

definition do_int80_syscall_32 :: "'s kenv \<Rightarrow> 's kst \<Rightarrow> 's kst res" where
  "do_int80_syscall_32 E s =
     do_syscall_32_irqs_on E (callx E Local_irq_enable (enter_from_user_mode E s))"

text \<open>\<open>do_fast_syscall_32\<close>: 0 to return with IRET, 1 to return with SYSRETL.\<close>

definition do_fast_syscall_32 :: "'s kenv \<Rightarrow> 's kst \<Rightarrow> (int \<times> 's kst) res" where
  "do_fast_syscall_32 E s =
     (let pad = landing_pad E s;
          s = s\<lparr>regs := (regs s)\<lparr>r_ip := pad\<rparr>\<rparr>;
          s = callx E Local_irq_enable (enter_from_user_mode E s);
          (failed, bp) = get_user_bp E s;
          s = s\<lparr>regs := (regs s)\<lparr>r_bp :=
                or (and (r_bp (regs s)) 0xFFFFFFFF00000000) (ucast bp)\<rparr>\<rparr>
      in if failed then
           andThen (prepare_exit_to_usermode E
                      (set_ax (word_of_int (- EFAULT)) (callx E Local_irq_disable s)))
             (\<lambda>s. Inr (0, s))
         else
           andThen (do_syscall_32_irqs_on E s)
             (\<lambda>s. let r = regs s in
               Inr (if r_cs r = USER32_CS E \<and> r_ss r = USER_DS E \<and> r_ip r = pad
                       \<and> \<not> r_trap_flags r then 1 else 0, s)))"

end
