(* ===== verification/Entry_Props.thy ===== *)
theory Entry_Props
  imports Entry Sandbox_Props
begin

text \<open>
  Properties of the entry and exit path of \<^verbatim>\<open>common.c\<close>: what the trace of kernel calls can
  contain, that the exit loop ends when the work for it does, what the tracing prologue answers, and what becomes of a
  system call the sandbox refuses.
\<close>

section \<open>Traces only grow\<close>

definition grows :: "(kfun \<Rightarrow> bool) \<Rightarrow> 's kst \<Rightarrow> 's kst \<Rightarrow> bool" where
  "grows P s s' \<longleftrightarrow> (\<exists>l. trace s' = trace s @ l \<and> (\<forall>f \<in> set l. P f))"

named_theorems grow_intros

lemma grows_refl [simp]: "grows P s s"
  by (simp add: grows_def)

lemma grows_trans: "grows P s s1 \<Longrightarrow> grows P s1 s2 \<Longrightarrow> grows P s s2"
  by (fastforce simp: grows_def)

lemma grows_callx [grow_intros]: "P f \<Longrightarrow> grows P s0 s \<Longrightarrow> grows P s0 (callx E f s)"
  by (auto simp: grows_def callx_def)

lemma grows_upd [grow_intros]:
  "grows P s0 s \<Longrightarrow> grows P s0 (s\<lparr>ti_flags := a\<rparr>)"
  "grows P s0 s \<Longrightarrow> grows P s0 (s\<lparr>ti_status := b\<rparr>)"
  "grows P s0 s \<Longrightarrow> grows P s0 (s\<lparr>regs := c\<rparr>)"
  "grows P s0 s \<Longrightarrow> grows P s0 (s\<lparr>filt := d\<rparr>)"
  "grows P s0 s \<Longrightarrow> grows P s0 (set_ax v s)"
  by (simp_all add: grows_def set_ax_def)

lemma grows_when [grow_intros]:
  "grows P s0 s \<Longrightarrow> grows P s (f s) \<Longrightarrow> grows P s0 (when_set t c f s)"
  by (auto simp: when_set_def intro: grows_trans)

lemma trace_callx [simp]: "trace (callx E f s) = trace s @ [f]"
  by (simp add: callx_def)

lemma trace_set_ax [simp]: "trace (set_ax v s) = trace s"
  by (simp add: set_ax_def)

text \<open>The calls of the exit path; a dispatch is not one of them.\<close>

fun is_dispatch :: "kfun \<Rightarrow> bool" where
  "is_dispatch (Dispatch n) = True"
| "is_dispatch (Dispatch32 n) = True"
| "is_dispatch _ = False"

lemma exit_pass_grows:
  "(\<And>f. \<not> is_dispatch f \<Longrightarrow> P f) \<Longrightarrow> grows P s (exit_pass E c s)"
  by (simp add: exit_pass_def Let_def grow_intros)

section \<open>The exit loop\<close>

fun passes :: "'s kenv \<Rightarrow> nat \<Rightarrow> tif set \<Rightarrow> 's kst \<Rightarrow> 's kst" where
  "passes E 0 c s = exit_pass E c s"
| "passes E (Suc n) c s = (let s' = exit_pass E c s in passes E n (ti_flags s') s')"

abbreviation quiet :: "'s kst \<Rightarrow> bool" where
  "quiet s \<equiv> ti_flags s \<inter> EXIT_TO_USERMODE_LOOP_FLAGS = {}"

lemma exit_loop_Some:
  assumes "exit_to_usermode_loop E c s = Some r"
  shows "\<exists>n. r = passes E n c s \<and> quiet r"
proof (rule exit_to_usermode_loop.raw_induct
    [where P = "\<lambda>E c s r. \<exists>n. r = passes E n c s \<and> quiet r", OF _ assms])
  fix loop E c s r
  assume IH: "\<And>E c s r. loop E c s = Some r \<Longrightarrow> \<exists>n. r = passes E n c s \<and> quiet r"
    and eq: "(let s' = exit_pass E c s; cached' = ti_flags s' in
      if cached' \<inter> EXIT_TO_USERMODE_LOOP_FLAGS = {} then Some s' else loop E cached' s') = Some r"
  show "\<exists>n. r = passes E n c s \<and> quiet r"
  proof (cases "quiet (exit_pass E c s)")
    case True
    then show ?thesis using eq by (intro exI[of _ 0]) (simp add: Let_def)
  next
    case False
    then have "loop E (ti_flags (exit_pass E c s)) (exit_pass E c s) = Some r"
      using eq by (simp add: Let_def)
    from IH[OF this] obtain n
      where "r = passes E n (ti_flags (exit_pass E c s)) (exit_pass E c s)" "quiet r" by blast
    then show ?thesis by (intro exI[of _ "Suc n"]) (simp add: Let_def)
  qed
qed

lemma exit_loop_returns:
  "quiet (passes E n c s) \<Longrightarrow> \<exists>r. exit_to_usermode_loop E c s = Some r"
proof (induction n arbitrary: c s)
  case 0
  then show ?case by (subst exit_to_usermode_loop.simps) (simp add: Let_def)
next
  case (Suc n)
  then show ?case by (subst exit_to_usermode_loop.simps) (simp add: Let_def)
qed

lemma passes_grows:
  "(\<And>f. \<not> is_dispatch f \<Longrightarrow> P f) \<Longrightarrow> grows P s (passes E n c s)"
proof (induction n arbitrary: c s)
  case 0
  then show ?case by (simp add: exit_pass_grows)
next
  case (Suc n)
  have "grows P s (exit_pass E c s)" by (rule exit_pass_grows) (rule Suc.prems)
  moreover have "grows P (exit_pass E c s) (passes E n (ti_flags (exit_pass E c s)) (exit_pass E c s))"
    by (rule Suc.IH) (rule Suc.prems)
  ultimately show ?case by (simp add: Let_def) (rule grows_trans)
qed

text \<open>
  The six kinds of work the loop is there for, each with the kernel function that does it, and the
  flag a function clears itself: for \<open>TIF_NOTIFY_RESUME\<close> the loop does that.
\<close>

definition work_handlers :: "(tif \<times> kfun) list" where
  "work_handlers =
     [(TIF_NEED_RESCHED, Schedule), (TIF_UPROBE, Uprobe_notify_resume),
      (TIF_PATCH_PENDING, Klp_update_patch_state), (TIF_SIGPENDING, Do_signal),
      (TIF_NOTIFY_RESUME, Tracehook_notify_resume),
      (TIF_USER_RETURN_NOTIFY, Fire_user_return_notifiers)]"

fun clears :: "kfun \<Rightarrow> tif set" where
  "clears Schedule = {TIF_NEED_RESCHED}"
| "clears Uprobe_notify_resume = {TIF_UPROBE}"
| "clears Klp_update_patch_state = {TIF_PATCH_PENDING}"
| "clears Do_signal = {TIF_SIGPENDING}"
| "clears Fire_user_return_notifiers = {TIF_USER_RETURN_NOTIFY}"
| "clears _ = {}"

definition work_of :: "'s kst \<Rightarrow> tif set" where
  "work_of s = ti_flags s \<inter> fst ` set work_handlers"

text \<open>
  Documented behaviour of the kernel functions: \<open>B\<close> bounds the work that can still arrive. A call
  lets some arrive, and may then set any flag, or it clears its own flag and sets none.
\<close>

definition work_bounded :: "'s kenv \<Rightarrow> ('s kst \<Rightarrow> nat) \<Rightarrow> bool" where
  "work_bounded E B \<longleftrightarrow>
     (\<forall>s l. B (s\<lparr>trace := l\<rparr>) = B s) \<and> (\<forall>s c. B (s\<lparr>ti_flags := c\<rparr>) = B s)
     \<and> (\<forall>f s. B (ext E f s) < B s \<or> B (ext E f s) = B s \<and> work_of (ext E f s) \<subseteq> work_of s - clears f)"

text \<open>Work may have arrived on the way from \<open>s\<close> to \<open>s'\<close>, or what there was is left less \<open>X\<close>.\<close>

definition lessens :: "('s kst \<Rightarrow> nat) \<Rightarrow> tif set \<Rightarrow> 's kst \<Rightarrow> 's kst \<Rightarrow> bool" where
  "lessens B X s s' \<longleftrightarrow> B s' < B s \<or> B s' = B s \<and> work_of s' \<subseteq> work_of s - X"

lemma lessens_refl: "lessens B {} s s"
  by (simp add: lessens_def)

lemma lessens_trans: "lessens B X s s1 \<Longrightarrow> lessens B Y s1 s2 \<Longrightarrow> lessens B (X \<union> Y) s s2"
  by (auto simp: lessens_def)

lemma lessens_call: "work_bounded E B \<Longrightarrow> lessens B (clears f) s (callx E f s)"
  unfolding work_bounded_def lessens_def callx_def work_of_def by simp

lemma lessens_flag: "work_bounded E B \<Longrightarrow> lessens B {t} s (s\<lparr>ti_flags := ti_flags s - {t}\<rparr>)"
  by (auto simp: work_bounded_def lessens_def work_of_def)

lemma lessens_when:
  "lessens B X s0 s \<Longrightarrow> lessens B Y s (f s) \<Longrightarrow> lessens B (X \<union> (if t \<in> c then Y else {})) s0 (when_set t c f s)"
  by (auto simp: when_set_def intro: lessens_trans)

lemma exit_pass_lessens:
  assumes "work_bounded E B"
  shows "lessens B (c \<inter> fst ` set work_handlers) s (exit_pass E c s)"
proof -
  note call = lessens_call[OF assms]
  have resume: "lessens B {TIF_NOTIFY_RESUME} s (callx E Rseq_handle_notify_resume
      (callx E Tracehook_notify_resume (s\<lparr>ti_flags := ti_flags s - {TIF_NOTIFY_RESUME}\<rparr>)))" for s
    using lessens_trans[OF lessens_trans[OF lessens_flag[OF assms, of TIF_NOTIFY_RESUME s]
        call[of Tracehook_notify_resume]] call[of Rseq_handle_notify_resume]] by simp
  have set: "lessens B Y s (f s) \<Longrightarrow> lessens B (X \<union> (if t \<in> c then Y else {})) s0 (when_set t c f s)"
    if "lessens B X s0 s" for X Y s0 s t f
    by (rule lessens_when[OF that])
  have "\<exists>X. lessens B X s (exit_pass E c s) \<and> c \<inter> fst ` set work_handlers \<subseteq> X"
    unfolding exit_pass_def Let_def
    by (intro exI conjI, rule lessens_trans[OF _ call], (rule set resume call)+)
      (auto simp: work_handlers_def)
  then show ?thesis by (auto simp: lessens_def)
qed

lemma exit_pass_calls:
  "\<exists>l. trace (exit_pass E c s) = trace s @ Local_irq_enable # l @ [Local_irq_disable]
    \<and> Local_irq_enable \<notin> set l \<and> (\<forall>(t, f) \<in> set work_handlers. t \<in> c \<longrightarrow> f \<in> set l)"
  by (simp add: exit_pass_def when_set_def Let_def work_handlers_def)

lemma exit_loop_ends:
  assumes "work_bounded E B"
  shows "\<exists>r l. exit_to_usermode_loop E (ti_flags s) s = Some r
    \<and> trace r = trace s @ l @ [Local_irq_disable] \<and> count_list l Local_irq_enable \<le> Suc (B s)
    \<and> work_of r = {} \<and> (\<forall>(t, f) \<in> set work_handlers. t \<in> ti_flags s \<longrightarrow> f \<in> set l)"
proof (induction "B s" arbitrary: s rule: less_induct)
  case less
  let ?s = "exit_pass E (ti_flags s) s"
  obtain l where l: "trace ?s = trace s @ Local_irq_enable # l @ [Local_irq_disable]"
    "Local_irq_enable \<notin> set l" "\<forall>(t, f) \<in> set work_handlers. t \<in> ti_flags s \<longrightarrow> f \<in> set l"
    using exit_pass_calls[of E "ti_flags s" s] by blast
  have quiet: "quiet ?s \<longleftrightarrow> work_of ?s = {}"
    by (simp add: work_of_def work_handlers_def EXIT_TO_USERMODE_LOOP_FLAGS_def insert_commute)
  show ?case
  proof (cases "work_of ?s = {}")
    case True
    then have "exit_to_usermode_loop E (ti_flags s) s = Some ?s"
      using quiet by (subst exit_to_usermode_loop.simps) (simp add: Let_def)
    then show ?thesis
      using l True by (intro exI[of _ ?s] exI[of _ "Local_irq_enable # l"]) auto
  next
    case False
    then have "B ?s < B s"
      using exit_pass_lessens[OF assms, of "ti_flags s" s] by (auto simp: lessens_def work_of_def)
    from less[OF this] obtain r m where r: "exit_to_usermode_loop E (ti_flags ?s) ?s = Some r"
      "trace r = trace ?s @ m @ [Local_irq_disable]" "count_list m Local_irq_enable \<le> Suc (B ?s)" "work_of r = {}"
      by blast
    have "exit_to_usermode_loop E (ti_flags s) s = Some r"
      using False quiet r(1) by (subst exit_to_usermode_loop.simps) (simp add: Let_def)
    then show ?thesis
      using l r \<open>B ?s < B s\<close>
      by (intro exI[of _ r] exI[of _ "Local_irq_enable # l @ Local_irq_disable # m"]) fastforce
  qed
qed

text \<open>
  C16: the exit loop ends, and does all the work there is. If at most \<open>B s\<close> times more work can
  arrive while the kernel functions run, and each handler otherwise clears its flag, then
  \<open>exit_to_usermode_loop\<close>, entered with the flags of the state, returns after at most
  \<open>B s + 1\<close> passes, interrupts being disabled by its last call; none of the six work flags is
  set then, and the handler of each that was set at the entry has been called.
\<close>

theorem exit_loop_finishes:
  assumes "work_bounded E B"
  shows "\<exists>r l. exit_to_usermode_loop E (ti_flags s) s = Some r
    \<and> trace r = trace s @ l @ [Local_irq_disable] \<and> count_list l Local_irq_enable \<le> Suc (B s)
    \<and> (\<forall>(t, f) \<in> set work_handlers. t \<notin> ti_flags r \<and> (t \<in> ti_flags s \<longrightarrow> f \<in> set l))"
proof -
  have "t \<notin> ti_flags r" if "work_of r = {}" "(t, f) \<in> set work_handlers" for r :: "'a kst" and t f
    using that by (force simp: work_of_def)
  then show ?thesis using exit_loop_ends[OF assms, of s] by fast
qed

section \<open>Return to user mode\<close>

abbreviation calm :: "kfun \<Rightarrow> bool" where
  "calm f \<equiv> \<not> is_dispatch f"

lemma exit_tail_grows:
  "grows calm s b \<Longrightarrow>
   grows calm s (when_set TIF_NEED_FPU_LOAD d (callx E Switch_fpu_return) b\<lparr>ti_status := st\<rparr>)"
  by (simp add: grow_intros)

lemma prepare_exit_cases:
  "prepare_exit_to_usermode E s = Inl NoReturn
   \<or> (\<exists>s2. prepare_exit_to_usermode E s
         = Inr (callx E Mds_user_clear_cpu_buffers (callx E User_enter_irqoff s2))
       \<and> grows calm s s2)"
proof -
  define a where "a = callx E Addr_limit_user_check s"
  have ga: "grows calm s a"
    by (simp add: a_def grow_intros)
  show ?thesis
  proof (cases "quiet a")
    case True
    then show ?thesis
      using exit_tail_grows[OF ga] unfolding prepare_exit_to_usermode_def a_def[symmetric] Let_def
      by fastforce
  next
    case False
    show ?thesis
    proof (cases "exit_to_usermode_loop E (ti_flags a) a")
      case None
      then show ?thesis
        using False by (simp add: prepare_exit_to_usermode_def a_def[symmetric] Let_def)
    next
      case (Some b)
      then obtain n where "b = passes E n (ti_flags a) a" using exit_loop_Some by blast
      then have "grows calm s b"
        using ga passes_grows[of calm a E n] by (auto intro: grows_trans)
      then show ?thesis
        using False Some exit_tail_grows[of s b]
        unfolding prepare_exit_to_usermode_def a_def[symmetric] Let_def
        by fastforce
    qed
  qed
qed

lemma slowpath_cases:
  "syscall_return_slowpath E s = Inl NoReturn
   \<or> (\<exists>s2. syscall_return_slowpath E s
         = Inr (callx E Mds_user_clear_cpu_buffers (callx E User_enter_irqoff s2))
       \<and> grows calm s s2)"
proof -
  obtain s1 where s1: "syscall_return_slowpath E s = prepare_exit_to_usermode E s1"
    and g: "grows calm s s1"
    by (simp add: syscall_return_slowpath_def syscall_slow_exit_work_def Let_def grow_intros)
  show ?thesis
    using prepare_exit_cases[of E s1] grows_trans[OF g] unfolding s1 by blast
qed

section \<open>The tracing prologue\<close>

lemma trace_tail_grows: "grows calm s0 s \<Longrightarrow> grows calm s0 (snd (trace_enter_tail E a ret s))"
  by (simp add: trace_enter_tail_def do_audit_syscall_entry_def Let_def grow_intros)

lemma trace_enter_grows: "grows calm s (snd (syscall_trace_enter E s))"
  by (auto simp: syscall_trace_enter_def Let_def grow_intros trace_tail_grows)

text \<open>Whether the prologue tells the caller to skip: a tracer or an emulator, or seccomp, says so.\<close>

definition tracer_skips :: "'s kenv \<Rightarrow> 's kst \<Rightarrow> bool" where
  "tracer_skips E s \<longleftrightarrow>
     (let work = ti_flags s \<inter> TIF_WORK_SYSCALL_ENTRY E in
      TIF_SYSCALL_EMU \<in> work
      \<or> TIF_SYSCALL_TRACE \<in> work \<and> ret_of E Report_syscall_entry s \<noteq> 0)"

text \<open>
  \<open>syscall_trace_enter\<close> under ptrace. When the task is emulated, or traced by a tracer
  whose report is not 0, the answer is -1 and seccomp, the tracepoint and the audit hook are not
  run: the only kernel call made is the report itself.
\<close>

theorem tracer_skip_stops_prologue:
  assumes "tracer_skips E s"
  shows "fst (syscall_trace_enter E s) = - 1
    \<and> trace (snd (syscall_trace_enter E s)) = trace s @ [Report_syscall_entry]"
  using assms by (auto simp: tracer_skips_def syscall_trace_enter_def Let_def)

text \<open>
  \<open>syscall_trace_enter\<close> with neither ptrace nor seccomp work: the answer is the call
  number the registers hold after the tracepoint and audit hooks, with the audit hook run last
  and given the arguments of the call's ABI.
\<close>

theorem untraced_prologue:
  assumes "ti_flags s \<inter> TIF_WORK_SYSCALL_ENTRY E \<inter> {TIF_SYSCALL_EMU, TIF_SYSCALL_TRACE, TIF_SECCOMP} = {}"
  shows "fst (syscall_trace_enter E s) = r_orig_ax (regs (snd (syscall_trace_enter E s)))
    \<and> (\<exists>n args. last (trace (snd (syscall_trace_enter E s))) = Audit_syscall_entry n args
         \<and> length args = 4)"
  using assms
  by (auto simp: syscall_trace_enter_def trace_enter_tail_def do_audit_syscall_entry_def Let_def)

section \<open>Dispatch\<close>

definition entry_nr :: "'s kenv \<Rightarrow> u64 \<Rightarrow> 's kst \<Rightarrow> u64" where
  "entry_nr E nr s =
     and (if ti_flags s \<inter> TIF_WORK_SYSCALL_ENTRY E \<noteq> {}
          then fst (syscall_trace_enter E s) else nr) (SYSCALL_MASK E)"

definition irqs_on :: "'s kenv \<Rightarrow> 's kst \<Rightarrow> 's kst" where
  "irqs_on E s = callx E Local_irq_enable (enter_from_user_mode E s)"

definition dispatched :: "'s kenv \<Rightarrow> u64 \<Rightarrow> kfun list" where
  "dispatched E m =
     (if m < NR_syscalls E then [Dispatch (array_index_nospec E m (NR_syscalls E))] else [])"

lemma body_shape:
  "do_syscall_64_body E nr s = Inl NoReturn
   \<or> (\<exists>s' l1 l2. do_syscall_64_body E nr s = Inr s'
        \<and> trace s' = trace s @ l1 @ dispatched E (entry_nr E nr (irqs_on E s)) @ l2
        \<and> (\<forall>f \<in> set (l1 @ l2). calm f))"
proof -
  let ?s1 = "irqs_on E s"
  have g1: "grows calm s ?s1"
    by (simp add: irqs_on_def enter_from_user_mode_def grow_intros)
  define p where "p = (if ti_flags ?s1 \<inter> TIF_WORK_SYSCALL_ENTRY E \<noteq> {}
    then syscall_trace_enter E ?s1 else (nr, ?s1))"
  have "grows calm ?s1 (snd p)"
    by (simp add: p_def trace_enter_grows)
  then obtain l1 where l1: "trace (snd p) = trace s @ l1" "\<forall>f \<in> set l1. calm f"
    using grows_trans[OF g1, of "snd p"] unfolding grows_def by blast
  define m where "m = and (fst p) (SYSCALL_MASK E)"
  have m: "m = entry_nr E nr ?s1" by (simp add: m_def p_def entry_nr_def)
  define s3 where "s3 = (if m < NR_syscalls E
    then dispatch E (array_index_nospec E m (NR_syscalls E)) (snd p) else snd p)"
  have t3: "trace s3 = trace (snd p) @ dispatched E m"
    by (simp add: s3_def dispatched_def dispatch_def Let_def)
  have body: "do_syscall_64_body E nr s = syscall_return_slowpath E s3"
    unfolding do_syscall_64_body_def Let_def irqs_on_def[symmetric] p_def[symmetric]
    by (simp add: case_prod_beta s3_def m_def)
  from slowpath_cases[of E s3] show ?thesis
  proof (elim disjE exE conjE)
    fix s2 assume r: "syscall_return_slowpath E s3 =
        Inr (callx E Mds_user_clear_cpu_buffers (callx E User_enter_irqoff s2))"
      and "grows calm s3 s2"
    then obtain l where "trace s2 = trace s3 @ l" "\<forall>f \<in> set l. calm f"
      by (auto simp: grows_def)
    then have "trace (callx E Mds_user_clear_cpu_buffers (callx E User_enter_irqoff s2))
        = trace s @ l1 @ dispatched E (entry_nr E nr (irqs_on E s))
          @ (l @ [User_enter_irqoff, Mds_user_clear_cpu_buffers])"
      using l1 by (simp add: t3 m)
    moreover have "\<forall>f \<in> set (l1 @ (l @ [User_enter_irqoff, Mds_user_clear_cpu_buffers])). calm f"
      using l1 \<open>\<forall>f \<in> set l. calm f\<close> by auto
    ultimately show ?thesis
      using r unfolding body by blast
  qed (simp add: body)
qed

lemma gate_grows:
  assumes "sandbox_gate check E nr s = Inr s1"
  shows "grows calm s s1"
proof -
  obtain c f where c: "check (cred_uid s) nr (filt s) = Inr (c, f)"
    using assms by (auto simp: sandbox_gate_def andThen_eq_Inr)
  let ?s = "callx E Local_irq_disable (set_ax (word_of_int (- EACCES)) (s\<lparr>filt := f\<rparr>))"
  have g: "grows calm s ?s" by (simp add: grow_intros)
  show ?thesis
  proof (cases "c = 1")
    case True
    then obtain s2 where "s1 = callx E Mds_user_clear_cpu_buffers (callx E User_enter_irqoff s2)"
      and "grows calm ?s s2"
      using assms c prepare_exit_cases[of E ?s] by (auto simp: sandbox_gate_def)
    then show ?thesis using grows_trans[OF g] by (simp add: grow_intros)
  next
    case False
    then show ?thesis using assms c by (auto simp: sandbox_gate_def grow_intros)
  qed
qed

text \<open>The number is in range for the table and the index mask leaves such a number alone.\<close>

definition nospec_ok :: "'s kenv \<Rightarrow> bool" where
  "nospec_ok E \<longleftrightarrow> (\<forall>i n. i < n \<longrightarrow> array_index_nospec E i n = i)"

text \<open>No tracer, seccomp filter or audit rule is attached to the task at any time.\<close>

definition untraced :: "'s kenv \<Rightarrow> bool" where
  "untraced E \<longleftrightarrow> (\<forall>f s. ti_flags (ext E f s) \<inter> TIF_WORK_SYSCALL_ENTRY E = {})"

lemma untraced_nr: "untraced E \<Longrightarrow> entry_nr E nr (irqs_on E s) = and nr (SYSCALL_MASK E)"
  by (simp add: entry_nr_def irqs_on_def callx_def untraced_def)

text \<open>
  C18: a system call is dispatched once, and inside the table. Whatever the check answers, the
  tracers do and the environment changes, let \<open>m\<close> be the number \<open>do_syscall_64\<close> goes on with
  after the check: the tracing prologue's answer if there is entry work, the caller's number
  otherwise, masked. If \<open>m\<close> is below \<open>NR_syscalls\<close>, a call that returns has made exactly one
  indirect call through \<open>sys_call_table\<close>, at index \<open>m\<close>, and otherwise none. When nothing traces
  the task, \<open>m\<close> is the caller's number, masked.
\<close>

theorem dispatch_once_in_range:
  assumes "nospec_ok E" "do_syscall_64 check E nr s = Inr s'"
  shows "\<exists>s1 l m. sandbox_gate check E nr s = Inr s1 \<and> m = entry_nr E nr (irqs_on E s1)
    \<and> trace s' = trace s @ l \<and> filter is_dispatch l = (if m < NR_syscalls E then [Dispatch m] else [])
    \<and> (untraced E \<longrightarrow> m = and nr (SYSCALL_MASK E))"
proof -
  obtain s1 where gate: "sandbox_gate check E nr s = Inr s1"
    and b: "do_syscall_64_body E nr s1 = Inr s'"
    using assms(2) by (auto simp: do_syscall_64_def andThen_eq_Inr)
  define m where "m = entry_nr E nr (irqs_on E s1)"
  from body_shape[of E nr s1] b obtain l1 l2 where
    t: "trace s' = trace s1 @ l1 @ dispatched E m @ l2" and c: "\<forall>f \<in> set (l1 @ l2). calm f"
    unfolding m_def by auto
  obtain l0 where l0: "trace s1 = trace s @ l0" "\<forall>f \<in> set l0. calm f"
    using gate_grows[OF gate] by (auto simp: grows_def)
  have "filter is_dispatch (l0 @ l1 @ dispatched E m @ l2) = (if m < NR_syscalls E then [Dispatch m] else [])"
    using l0(2) c assms(1) by (simp add: dispatched_def nospec_ok_def)
  then show ?thesis
    using gate m_def t l0(1) untraced_nr by fastforce
qed

section \<open>Refused calls\<close>

text \<open>Documented behaviour of the environment used below: the exit loop's work is finite.\<close>

definition settles :: "'s kenv \<Rightarrow> bool" where
  "settles E \<longleftrightarrow> (\<forall>c s. exit_to_usermode_loop E c s \<noteq> None)"

lemma prepare_exit_returns:
  assumes "settles E"
  shows "prepare_exit_to_usermode E s \<noteq> Inl NoReturn"
proof -
  obtain r where "exit_to_usermode_loop E (ti_flags (callx E Addr_limit_user_check s))
      (callx E Addr_limit_user_check s) = Some r"
    using assms unfolding settles_def by blast
  then show ?thesis
    by (simp add: prepare_exit_to_usermode_def Let_def)
qed

lemma body_runs:
  assumes "settles E" "untraced E" "nospec_ok E"
    and "and nr (SYSCALL_MASK E) = nr" "nr < NR_syscalls E"
  shows "\<exists>s'. do_syscall_64_body E nr s = Inr s' \<and> Dispatch nr \<in> set (trace s')"
proof -
  have "do_syscall_64_body E nr s \<noteq> Inl NoReturn"
    using prepare_exit_returns[OF assms(1)]
    by (simp add: do_syscall_64_body_def syscall_return_slowpath_def Let_def case_prod_beta)
  moreover have "entry_nr E nr (irqs_on E s) = nr"
    using untraced_nr[OF assms(2)] assms(4) by simp
  ultimately show ?thesis
    using body_shape[of E nr s] assms(3,5) by (auto simp: dispatched_def nospec_ok_def)
qed

context syscall_filter begin

lemma gate_never_stops:
  assumes "settles E" "inv (filt s)" "ok (cred_uid s) nr"
  shows "\<exists>s1. sandbox_gate check E nr s = Inr s1"
proof -
  obtain r f where "check (cred_uid s) nr (filt s) = Inr (r, f)"
    using decides[OF assms(2,3)] by blast
  then show ?thesis
    using prepare_exit_returns[OF assms(1)] prepare_exit_cases[of E]
    by (auto simp: sandbox_gate_def Let_def)
qed

lemma refusal_does_not_stop:
  assumes "settles E" "untraced E" "nospec_ok E"
    and "and nr (SYSCALL_MASK E) = nr" "nr < NR_syscalls E"
    and "inv (filt s)" "ok (cred_uid s) nr"
  shows "\<exists>s'. do_syscall_64 check E nr s = Inr s' \<and> Dispatch nr \<in> set (trace s')"
proof -
  obtain s1 where "sandbox_gate check E nr s = Inr s1"
    using gate_never_stops[OF assms(1,6,7)] ..
  then show ?thesis
    using body_runs[OF assms(1-5), of s1] by (simp add: do_syscall_64_def)
qed

end

text \<open>
  C3: the sandbox does not stop a call it refuses. In every well-formed table, for a call
  number of the table and an id it can hold, \<open>do_syscall_64\<close> with project 2's check runs the
  system call's handler whether \<open>findder\<close> answered 1 or 0: the block for a refused call sets
  \<open>-EACCES\<close> but does not return, and the handler's value replaces it.
\<close>

theorem refused_call_runs:
  assumes "settles E" "untraced E" "nospec_ok E"
    and "and nr (SYSCALL_MASK E) = nr" "nr < NR_syscalls E"
    and "wf_sbx (filt s)" "valid_id (cred_uid s)" "valid_nr nr" "refuses (filt s) (cred_uid s) nr"
  shows "\<exists>s'. do_syscall_64 findder E nr s = Inr s' \<and> Dispatch nr \<in> set (trace s')"
  using sbx_filter.refusal_does_not_stop[OF assms(1-6)] assms(7,8) by simp

text \<open>
  A call number with no row in the table, which any user can put in the register, makes
  the check read outside \<open>permList\<close> before the kernel's own range check is reached.
\<close>

theorem unknown_nr_reads_outside:
  assumes "wf_sbx (filt s)" "436 < unat nr"
  shows "do_syscall_64 findder E nr s = Inl OutOfBounds"
  using assms by (simp add: do_syscall_64_def sandbox_gate_def findder_def valid_nr_def)

section \<open>Exit work\<close>

text \<open>
  The exit report. With tracing off (\<open>TIF_SYSCALL_TRACE\<close> clear) the tracer is told of the
  exit exactly when the task is single-stepped and not emulated, and then as a step; with
  tracing on it is always told.
\<close>

theorem exit_report_table:
  "Report_syscall_exit b \<in> set (drop (length (trace s)) (trace (syscall_slow_exit_work E c s)))
   \<longleftrightarrow> b = (TIF_SINGLESTEP \<in> c \<and> TIF_SYSCALL_EMU \<notin> c) \<and> (b \<or> TIF_SYSCALL_TRACE \<in> c)"
proof -
  have "(c \<inter> {TIF_SINGLESTEP, TIF_SYSCALL_EMU} = {TIF_SINGLESTEP})
      = (TIF_SINGLESTEP \<in> c \<and> TIF_SYSCALL_EMU \<notin> c)"
    by auto
  then show ?thesis
    by (auto simp: syscall_slow_exit_work_def when_set_def Let_def)
qed

text \<open>
  The CPU buffers are cleared last. Whenever the slow path of a return completes, the
  last two kernel calls it made are the context-tracking switch to user mode and the clearing
  of the buffers, with no system-call handler run since the path was entered.
\<close>

theorem exit_clears_buffers_last:
  assumes "syscall_return_slowpath E s = Inr s'"
  shows "\<exists>l. trace s' = trace s @ l @ [User_enter_irqoff, Mds_user_clear_cpu_buffers]
    \<and> \<not> (\<exists>f \<in> set l. is_dispatch f)"
proof -
  obtain s2 where "s' = callx E Mds_user_clear_cpu_buffers (callx E User_enter_irqoff s2)"
    and "grows calm s s2"
    using slowpath_cases[of E s] assms by auto
  then show ?thesis by (auto simp: grows_def)
qed

text \<open>
  The vDSO's 32-bit entry with an unreadable stack: \<open>do_fast_syscall_32\<close> returns 0 (use
  IRET) and no handler of either ABI is run.
\<close>

theorem fast32_bad_stack:
  assumes "settles E" "\<And>s. fst (get_user_bp E s)"
  shows "\<exists>s' l. do_fast_syscall_32 E s = Inr (0, s') \<and> trace s' = trace s @ l
    \<and> \<not> (\<exists>f \<in> set l. is_dispatch f)"
proof -
  let ?s0 = "irqs_on E (s\<lparr>regs := (regs s)\<lparr>r_ip := landing_pad E s\<rparr>\<rparr>)"
  define s1 where "s1 = set_ax (word_of_int (- EFAULT)) (callx E Local_irq_disable
    (?s0\<lparr>regs := (regs ?s0)\<lparr>r_bp := or (and (r_bp (regs ?s0)) 0xFFFFFFFF00000000)
      (ucast (snd (get_user_bp E ?s0)))\<rparr>\<rparr>))"
  have r: "do_fast_syscall_32 E s = andThen (prepare_exit_to_usermode E s1) (\<lambda>s. Inr (0, s))"
    using assms(2)
    by (simp add: do_fast_syscall_32_def irqs_on_def[symmetric] Let_def case_prod_beta s1_def)
  have g: "grows calm s s1"
    by (simp add: s1_def irqs_on_def enter_from_user_mode_def grow_intros)
  from prepare_exit_cases[of E s1] prepare_exit_returns[OF assms(1), of s1] r
  obtain s2 where "do_fast_syscall_32 E s =
      Inr (0, callx E Mds_user_clear_cpu_buffers (callx E User_enter_irqoff s2))"
    and "grows calm s1 s2" by auto
  moreover have "grows calm s (callx E Mds_user_clear_cpu_buffers (callx E User_enter_irqoff s2))"
    using grows_trans[OF g \<open>grows calm s1 s2\<close>] by (simp add: grow_intros)
  ultimately show ?thesis by (auto simp: grows_def)
qed

section \<open>Concrete runs\<close>

text \<open>
  An environment in which every kernel function clears the task's work flags, the table has 437
  calls, each handler returns 7, and a traced task's tracer asks to skip.
\<close>

definition demo_env :: "sbx kenv" where
  "demo_env = \<lparr>ext = (\<lambda>f s. s\<lparr>ti_flags := {}\<rparr>), ret_of = (\<lambda>f s. 1),
     in_ia32_syscall = (\<lambda>s. False), get_user_bp = (\<lambda>s. (True, 0)), landing_pad = (\<lambda>s. 64),
     sys_call_ret = (\<lambda>n s. 7), ia32_sys_call_ret = (\<lambda>n s. 7), array_index_nospec = (\<lambda>i n. i),
     TIF_WORK_SYSCALL_ENTRY = {TIF_SYSCALL_TRACE, TIF_SYSCALL_EMU, TIF_SECCOMP},
     SYSCALL_MASK = - 1, NR_syscalls = 437, IA32_NR_syscalls = 437, USER32_CS = 35, USER_DS = 43\<rparr>"

definition demo_kst :: "tif set \<Rightarrow> sbx kst" where
  "demo_kst fl = \<lparr>regs = \<lparr>r_ax = 0, r_orig_ax = 1, r_bx = 0, r_cx = 0, r_dx = 0, r_si = 0, r_di = 0,
       r_bp = 0, r_8 = 0, r_9 = 0, r_10 = 0, r_ip = 0, r_sp = 0, r_cs = 0, r_ss = 0,
       r_trap_flags = False\<rparr>,
     ti_flags = fl, ti_status = {}, cred_uid = 1000, filt = demo, trace = []\<rparr>"

lemma demo_kst_simps [simp]:
  "ti_flags (demo_kst fl) = fl" "cred_uid (demo_kst fl) = 1000" "filt (demo_kst fl) = demo"
  "trace (demo_kst fl) = []"
  by (simp_all add: demo_kst_def)

lemma demo_env_simps [simp]:
  "NR_syscalls demo_env = 437" "SYSCALL_MASK demo_env = - 1"
  "TIF_WORK_SYSCALL_ENTRY demo_env = {TIF_SYSCALL_TRACE, TIF_SYSCALL_EMU, TIF_SECCOMP}"
  "ret_of demo_env f s = 1" "fst (get_user_bp demo_env s)"
  "ti_flags (callx demo_env f s) = {}"
  by (simp_all add: demo_env_def callx_def)

lemma demo_env_ok [simp]: "settles demo_env" "untraced demo_env" "nospec_ok demo_env"
proof -
  have "\<exists>r. exit_to_usermode_loop demo_env c s = Some r" for c s
    by (rule exit_loop_returns[of demo_env 0]) (simp add: exit_pass_def Let_def)
  then show "settles demo_env" unfolding settles_def by simp
  show "untraced demo_env" by (simp add: untraced_def demo_env_def)
  show "nospec_ok demo_env" by (simp add: nospec_ok_def demo_env_def)
qed

theorem tracer_skip_stops_prologue_witness:
  "fst (syscall_trace_enter demo_env (demo_kst {TIF_SYSCALL_TRACE})) = - 1
   \<and> trace (snd (syscall_trace_enter demo_env (demo_kst {TIF_SYSCALL_TRACE})))
       = [Report_syscall_entry]"
  using tracer_skip_stops_prologue[of demo_env "demo_kst {TIF_SYSCALL_TRACE}"]
  by (simp add: tracer_skips_def)

theorem untraced_prologue_witness:
  "fst (syscall_trace_enter demo_env (demo_kst {TIF_SIGPENDING}))
     = r_orig_ax (regs (snd (syscall_trace_enter demo_env (demo_kst {TIF_SIGPENDING}))))"
  using untraced_prologue[of "demo_kst {TIF_SIGPENDING}" demo_env] by simp

theorem refused_call_runs_witness:
  "refuses demo 1000 1
   \<and> (\<exists>s'. do_syscall_64 findder demo_env 1 (demo_kst {}) = Inr s' \<and> Dispatch 1 \<in> set (trace s'))"
  using refused_call_runs[of demo_env 1 "demo_kst {}"] by simp

theorem dispatch_once_in_range_witness:
  "\<exists>s'. do_syscall_64 findder demo_env 1 (demo_kst {}) = Inr s'
     \<and> filter is_dispatch (trace s') = [Dispatch 1]"
proof -
  obtain s' where s': "do_syscall_64 findder demo_env 1 (demo_kst {}) = Inr s'"
    using sbx_filter.refusal_does_not_stop[of demo_env 1 "demo_kst {}"] by auto
  then show ?thesis
    using dispatch_once_in_range[OF demo_env_ok(3) s'] by (auto simp: untraced_nr)
qed

text \<open>
  An environment in which each delivery of a signal takes one from the number of those pending
  (the sandbox's state is not used), and sets the flag to reschedule as long as there are some.
\<close>

definition signal_env :: "nat kenv" where
  "signal_env = \<lparr>ext = (\<lambda>f s. if f = Do_signal \<and> 0 < filt s
       then s\<lparr>filt := filt s - 1, ti_flags := insert TIF_NEED_RESCHED (ti_flags s)\<rparr>
       else s\<lparr>ti_flags := ti_flags s - clears f\<rparr>), ret_of = (\<lambda>f s. 0),
     in_ia32_syscall = (\<lambda>s. False), get_user_bp = (\<lambda>s. (False, 0)), landing_pad = (\<lambda>s. 64),
     sys_call_ret = (\<lambda>n s. 7), ia32_sys_call_ret = (\<lambda>n s. 7), array_index_nospec = (\<lambda>i n. i),
     TIF_WORK_SYSCALL_ENTRY = {}, SYSCALL_MASK = - 1, NR_syscalls = 437, IA32_NR_syscalls = 437,
     USER32_CS = 35, USER_DS = 43\<rparr>"

definition signalled :: "nat kst" where
  "signalled = \<lparr>regs = regs (demo_kst {}), ti_flags = {TIF_SIGPENDING}, ti_status = {}, cred_uid = 1000,
     filt = 2, trace = []\<rparr>"

theorem exit_loop_finishes_witness:
  "\<exists>r. exit_to_usermode_loop signal_env {TIF_SIGPENDING} signalled = Some r
     \<and> TIF_SIGPENDING \<notin> ti_flags r \<and> Do_signal \<in> set (trace r)"
proof -
  have "work_bounded signal_env filt"
    by (auto simp: work_bounded_def work_of_def signal_env_def)
  from exit_loop_finishes[OF this, of signalled] show ?thesis
    by (auto simp: signalled_def work_handlers_def)
qed

theorem unknown_nr_reads_outside_witness:
  "do_syscall_64 findder demo_env 0x40000001 (demo_kst {}) = Inl OutOfBounds"
  by (rule unknown_nr_reads_outside) simp_all

theorem exit_clears_buffers_last_witness:
  "\<exists>s'. syscall_return_slowpath demo_env (demo_kst {}) = Inr s'
     \<and> (\<exists>l. trace s' = l @ [User_enter_irqoff, Mds_user_clear_cpu_buffers])"
proof -
  have "syscall_return_slowpath demo_env (demo_kst {}) \<noteq> Inl NoReturn"
    using prepare_exit_returns[OF demo_env_ok(1)]
    by (simp add: syscall_return_slowpath_def Let_def)
  then obtain s' where s': "syscall_return_slowpath demo_env (demo_kst {}) = Inr s'"
    using slowpath_cases[of demo_env "demo_kst {}"] by auto
  then show ?thesis
    using exit_clears_buffers_last[OF s'] by auto
qed

theorem fast32_bad_stack_witness:
  "\<exists>s'. do_fast_syscall_32 demo_env (demo_kst {}) = Inr (0, s')
     \<and> \<not> (\<exists>f \<in> set (trace s'). is_dispatch f)"
  using fast32_bad_stack[of demo_env "demo_kst {}"] by auto

end
