(* ===== verification/Userland.thy ===== *)
theory Userland
  imports Sandbox_Props
begin

text \<open>
  The four user programs of \<^verbatim>\<open>project 2/proj2/userland\<close> that exercise the sandbox. A program is
  a function of its arguments, the uid it runs as and the sandbox's state; it gives its exit
  code, what it prints and the new state. \<open>syscall\<close> carries the numbers the programs define
  (434 block, 435 unblock, 436 count) to the handlers of \<^verbatim>\<open>proj2.c\<close> and, as the C library does,
  turns an error return into -1. A printed line is its text without the newline, and without the
  error description \<open>perror\<close> appends; the escape \<^verbatim>\<open>\m\<close> of \<^verbatim>\<open>test3.c\<close> prints an \<^verbatim>\<open>m\<close>. \<open>strtol\<close> in base 10 is the C library's.
  \<^verbatim>\<open>test2.c\<close> to \<^verbatim>\<open>test4_sbx421_run.c\<close> declare \<open>rv\<close> twice; the two are read as one.
\<close>

section \<open>The C library\<close>

definition is_space :: "char \<Rightarrow> bool" where
  "is_space c \<longleftrightarrow> c \<in> set [CHR '' '', CHR 0x09, CHR 0x0A, CHR 0x0B, CHR 0x0C, CHR 0x0D]"

definition digit_of :: "char \<Rightarrow> int option" where
  "digit_of c =
     (let n = int (of_char c) in if 48 \<le> n \<and> n \<le> 57 then Some (n - 48) else None)"

fun digits_val :: "int \<Rightarrow> string \<Rightarrow> int" where
  "digits_val acc [] = acc"
| "digits_val acc (c # cs) =
     (case digit_of c of None \<Rightarrow> acc | Some d \<Rightarrow> digits_val (10 * acc + d) cs)"

definition clamp_long :: "int \<Rightarrow> int" where
  "clamp_long v = max (- (2 ^ 63)) (min (2 ^ 63 - 1) v)"

definition strtol :: "string \<Rightarrow> int" where
  "strtol str =
     (case dropWhile is_space str of
        [] \<Rightarrow> 0
      | c # cs \<Rightarrow>
          if c = CHR ''-'' then clamp_long (- digits_val 0 cs)
          else if c = CHR ''+'' then clamp_long (digits_val 0 cs)
          else clamp_long (digits_val 0 (c # cs)))"

definition libc_ret :: "int \<Rightarrow> int" where
  "libc_ret r = (if - 4095 \<le> r \<and> r \<le> - 1 then - 1 else r)"

section \<open>The programs\<close>

definition NR_sbx421_block :: int where "NR_sbx421_block = 434"
definition NR_sbx421_unblock :: int where "NR_sbx421_unblock = 435"
definition NR_sbx421_count :: int where "NR_sbx421_count = 436"

definition sbx_syscall :: "u32 \<Rightarrow> int \<Rightarrow> u32 \<Rightarrow> u64 \<Rightarrow> sbx \<Rightarrow> (int \<times> sbx) res" where
  "sbx_syscall me n proc nr s =
     andThen
       (if n = NR_sbx421_block then sbx421_block me proc nr s
        else if n = NR_sbx421_unblock then sbx421_unblock me proc nr s
        else sbx421_count me proc nr s)
       (\<lambda>(r, s). Inr (libc_ret r, s))"

definition block_syscall :: "u32 \<Rightarrow> u32 \<Rightarrow> u64 \<Rightarrow> sbx \<Rightarrow> (int \<times> sbx) res" where
  "block_syscall me = sbx_syscall me NR_sbx421_block"

text \<open>The \<open>unblock_syscall\<close> of \<^verbatim>\<open>test2.c\<close> passes the number of block.\<close>

definition test2_unblock_syscall :: "u32 \<Rightarrow> u32 \<Rightarrow> u64 \<Rightarrow> sbx \<Rightarrow> (int \<times> sbx) res" where
  "test2_unblock_syscall me = sbx_syscall me NR_sbx421_block"

definition unblock_syscall :: "u32 \<Rightarrow> u32 \<Rightarrow> u64 \<Rightarrow> sbx \<Rightarrow> (int \<times> sbx) res" where
  "unblock_syscall me = sbx_syscall me NR_sbx421_unblock"

definition count_syscall :: "u32 \<Rightarrow> u32 \<Rightarrow> u64 \<Rightarrow> sbx \<Rightarrow> (int \<times> sbx) res" where
  "count_syscall me = sbx_syscall me NR_sbx421_count"

type_synonym outcome = "(int \<times> string list \<times> sbx) res"

text \<open>
  The arguments: \<open>test1\<close> is an \<open>int\<close>, \<open>test2\<close> a \<open>long\<close>, each from \<open>strtol\<close>. The programs do not
  include \<^verbatim>\<open>stdlib.h\<close>, so \<open>strtol\<close> is taken to return an \<open>int\<close>: the low 32 bits of its result,
  extended by their sign. \<open>argv\<close> does not count the program's name.
\<close>

definition with_args :: "string list \<Rightarrow> sbx \<Rightarrow> (u32 \<Rightarrow> u64 \<Rightarrow> outcome) \<Rightarrow> outcome" where
  "with_args argv s body =
     (if length argv < 2 then Inr (1, [''Error, please enter two values as arguments''], s)
      else
        (let test1 = word_of_int (strtol (argv ! 0)) :: u32;
             test2 = scast (word_of_int (strtol (argv ! 1)) :: u32) :: u64
         in if 0 < sint test1 \<or> 0 < sint test2
            then Inr (1, [''Negtive values are not supported''], s)
            else body test1 test2))"

definition test1_main :: "u32 \<Rightarrow> string list \<Rightarrow> sbx \<Rightarrow> outcome" where
  "test1_main me argv s = with_args argv s (\<lambda>test1 test2.
     andThen (block_syscall me test1 test2 s) (\<lambda>(rv, s).
     if rv < 0 then Inr (0, [''Blocking syscall failed''], s)
     else Inr (0, [''Block completed''], s)))"

definition test2_main :: "u32 \<Rightarrow> string list \<Rightarrow> sbx \<Rightarrow> outcome" where
  "test2_main me argv s = with_args argv s (\<lambda>test1 test2.
     andThen (block_syscall me test1 test2 s) (\<lambda>(rr, s).
     andThen (test2_unblock_syscall me test1 test2 s) (\<lambda>(rv, s).
     if rv < 0 \<and> rr < 0 then Inr (0, [''Blocking syscall failed''], s)
     else Inr (0, [''Unblock completed''], s))))"

definition test3_main :: "u32 \<Rightarrow> string list \<Rightarrow> sbx \<Rightarrow> outcome" where
  "test3_main me argv s = with_args argv s (\<lambda>test1 test2.
     andThen (block_syscall me test1 test2 s) (\<lambda>(rr, s).
     andThen (block_syscall me test1 test2 s) (\<lambda>(rr, s).
     andThen (block_syscall me test1 test2 s) (\<lambda>(rr, s).
     andThen (count_syscall me test1 test2 s) (\<lambda>(rr, s).
     andThen (unblock_syscall me test1 test2 s) (\<lambda>(rv, s).
     if rr = 2 then Inr (0, [''Count passedm''], s) else Inr (0, [''Count failed''], s)))))))"

definition test4_main :: "string list \<Rightarrow> sbx \<Rightarrow> outcome" where
  "test4_main argv s =
     (if length argv < 2
      then Inr (1, [''NOTE: not fully implmented yet'',
                    ''Error, please enter two values as arguments''], s)
      else Inr (0, [''NOTE: not fully implmented yet''], s))"

section \<open>What the programs can and cannot show\<close>

lemma count_rejects:
  assumes "sint proc \<le> 0" "sbx421_count me proc nr s = Inr (r, s')"
  shows "r = - EINVAL \<or> r = - EPERM"
  using assms by (auto simp: sbx421_count_def andThen_eq_Inr split: if_splits)

lemma count_syscall_rejects:
  assumes "sint proc \<le> 0" "count_syscall me proc nr s = Inr (r, s')"
  shows "r = - 1"
proof -
  obtain v where v: "sbx421_count me proc nr s = Inr (v, s')" "r = libc_ret v"
    using assms(2)
    by (auto simp: count_syscall_def sbx_syscall_def NR_sbx421_count_def NR_sbx421_block_def
        NR_sbx421_unblock_def andThen_eq_Inr)
  then show ?thesis
    using count_rejects[OF assms(1) v(1)] by (auto simp: libc_ret_def EINVAL_def EPERM_def)
qed

text \<open>
  \<^verbatim>\<open>test3.c\<close> cannot pass. It refuses positive ids, and the count system call refuses all
  others, so in any state, under any uid and with any arguments a run that ends never prints
  that the count passed.
\<close>

theorem test3_never_passes:
  assumes "test3_main me argv s = Inr (code, out, s')"
  shows "''Count passedm'' \<notin> set out"
proof -
  have "rr \<noteq> 2" if "sint test1 \<le> 0" "count_syscall me test1 test2 s1 = Inr (rr, s2)"
    for test1 test2 s1 rr s2
    using count_syscall_rejects[OF that] by simp
  then show ?thesis
    using assms
    by (auto simp: test3_main_def with_args_def Let_def andThen_eq_Inr not_less
        split: if_splits)
qed

lemma demo_rows_0 [simp]: "row (sbx_begun sbx_boot) 0
    = \<lparr>call = 999, count = 0, hash = replicate 32 0\<rparr>"
  by (simp add: row_begun sbx_boot_rows reset_row_def) (simp add: sbx_boot_def)

lemma strtol_0: "strtol ''0'' = 0"
  by (simp add: strtol_def is_space_def digit_of_def clamp_long_def)

theorem test3_never_passes_witness:
  "\<exists>s'. test3_main 1000 [''5'', ''5''] sbx_boot
     = Inr (1, [''Negtive values are not supported''], s')
     \<and> ''Count passedm'' \<notin> set [''Negtive values are not supported'']"
proof -
  have "strtol ''5'' = 5"
    by (simp add: strtol_def is_space_def digit_of_def clamp_long_def)
  then have "test3_main 1000 [''5'', ''5''] sbx_boot
      = Inr (1, [''Negtive values are not supported''], sbx_boot)"
    by (simp add: test3_main_def with_args_def Let_def)
  then show ?thesis
    using test3_never_passes by blast
qed

text \<open>
  The only system call \<^verbatim>\<open>test1.c\<close> can block is number 0. As root, in a well-formed state,
  a run that gets past the argument check and does not leave the table's memory had a second
  argument whose value as a call number is 0.
\<close>

theorem test1_blocks_only_read:
  assumes "wf_sbx s" "test1_main 0 argv s = Inr (0, out, s')"
  shows "(scast (word_of_int (strtol (argv ! 1)) :: u32) :: u64) = 0"
proof -
  let ?p = "word_of_int (strtol (argv ! 0)) :: u32" and ?n = "scast (word_of_int (strtol (argv ! 1)) :: u32) :: u64"
  have n: "\<not> 0 < sint ?n" and b: "sbx421_block 0 ?p ?n s \<noteq> Inl OutOfBounds"
    using assms(2)
    by (auto simp: test1_main_def with_args_def block_syscall_def sbx_syscall_def Let_def
        split: if_splits)
  have "valid_nr ?n" using block_outside[OF assms(1) _, of 0 ?p ?n] b by blast
  then have u: "uint ?n < 437" by (rule uint_unat_lt[OF valid_nr_def[THEN iffD1]])
  have "sint ?n = uint ?n"
    unfolding sint_uint
    by (rule signed_take_bit_int_eq_self) (use u in \<open>auto intro: order_trans[OF _ uint_ge_0]\<close>)
  then show ?thesis
    using n by (metis linorder_not_less uint_0_iff uint_ge_0 antisym)
qed

theorem test1_blocks_only_read_witness:
  "\<exists>s'. test1_main 0 [''0'', ''0''] sbx_boot = Inr (0, [''Block completed''], s')
     \<and> (scast (word_of_int (strtol ''0'') :: u32) :: u64) = 0"
proof -
  have "\<exists>s'. test1_main 0 [''0'', ''0''] sbx_boot = Inr (0, [''Block completed''], s')"
    by (simp add: test1_main_def with_args_def strtol_0 block_syscall_def sbx_syscall_def
        block_run row_block_def libc_ret_def)
  then show ?thesis
    using test1_blocks_only_read[OF wf_sbx_boot, of "[''0'', ''0'']"] by auto
qed

text \<open>
  \<^verbatim>\<open>test2.c\<close> reports an unblock it never asks for: its \<open>unblock_syscall\<close> is a second block.
  Run by root on a fresh table it prints that the unblock completed, and leaves call number 0's
  row with its number counted up to 1.
\<close>

theorem test2_blocks_twice:
  "\<exists>s'. test2_main 0 [''0'', ''0''] sbx_boot = Inr (0, [''Unblock completed''], s')
     \<and> call (row s' 0) = 1"
proof -
  define s1 where "s1 = after 0 \<lparr>call = 0, count = 0, hash = replicate 32 0\<rparr> [] (sbx_begun sbx_boot)"
  have s1: "wf_sbx s1" "sbx_begun s1 = s1" "row s1 0 = \<lparr>call = 0, count = 0, hash = replicate 32 0\<rparr>"
    using wf_after[of "sbx_begun sbx_boot"] started_begun[of sbx_boot] by (simp_all add: s1_def)
  have same: "(replicate 32 (0 :: u32))[0 := 0] = replicate 32 0"
    by (simp add: list_eq_iff_nth_eq nth_list_update_if)
  have 1: "sbx421_block 0 0 0 sbx_boot = Inr (0, s1)"
    using same by (simp add: block_run row_block_def block_log_def s1_def)
  have 2: "\<exists>s2. sbx421_block 0 0 0 s1 = Inr (- EEXIST, s2) \<and> call (row s2 0) = 1"
    using s1 by (simp add: block_run row_block_def)
  show ?thesis
    using 1 2
    by (auto simp: test2_main_def with_args_def strtol_0 block_syscall_def
        test2_unblock_syscall_def sbx_syscall_def libc_ret_def EEXIST_def)
qed

end
