(* ===== verification/Sandbox_System.thy ===== *)
theory Sandbox_System
  imports Entry_Props Userland
begin

text \<open>
  The sandbox in the running kernel: the three system calls of \<^verbatim>\<open>proj2.c\<close> made, like any other,
  through \<open>do_syscall_64\<close> of \<^verbatim>\<open>common.c\<close>, which asks \<open>findder\<close> first. The number and the arguments of a
  call are in the registers; the table of system calls carries 434, 435 and 436 to the handlers.

  The relations an exit or entry path keeps are a locale, so that one proof over the code serves
  each of them.
\<close>

section \<open>What the paths keep\<close>

locale exit_work =
  fixes E :: "'s kenv" and R :: "'s kst \<Rightarrow> 's kst \<Rightarrow> bool"
  assumes keep_refl: "R s s"
    and keep_trans: "R s t \<Longrightarrow> R t u \<Longrightarrow> R s u"
    and keep_call: "calm f \<Longrightarrow> R s (callx E f s)"
    and keep_flags: "R s (s\<lparr>ti_flags := a\<rparr>)"
    and keep_status: "R s (s\<lparr>ti_status := b\<rparr>)"
begin

lemma call: "R s0 s \<Longrightarrow> calm f \<Longrightarrow> R s0 (callx E f s)"
  using keep_trans keep_call by blast

lemma flags: "R s0 s \<Longrightarrow> R s0 (s\<lparr>ti_flags := a\<rparr>)"
  using keep_trans keep_flags by blast

lemma status: "R s0 s \<Longrightarrow> R s0 (s\<lparr>ti_status := b\<rparr>)"
  using keep_trans keep_status by blast

lemma guarded: "R s0 s \<Longrightarrow> R s (g s) \<Longrightarrow> R s0 (when_set t c g s)"
  using keep_trans by (auto simp: when_set_def)

lemmas keeps = keep_refl call flags status guarded

lemma pass: "R s (exit_pass E c s)"
  by (simp add: exit_pass_def Let_def keeps)

lemma some_passes: "R s (passes E n c s)"
  by (induction n arbitrary: c s) (auto simp: Let_def intro: pass keep_trans[OF pass])

lemma exit_tail:
  "R s0 s \<Longrightarrow> R s0 (callx E Mds_user_clear_cpu_buffers (callx E User_enter_irqoff
     ((when_set TIF_NEED_FPU_LOAD c (callx E Switch_fpu_return) s)\<lparr>ti_status := st\<rparr>)))"
  by (intro keeps) simp_all

lemma prepare:
  assumes "prepare_exit_to_usermode E s = Inr s'"
  shows "R s s'"
proof -
  define a where "a = callx E Addr_limit_user_check s"
  have a: "R s a" by (simp add: a_def keeps)
  obtain b where b: "R s b" "s' = callx E Mds_user_clear_cpu_buffers (callx E User_enter_irqoff
      ((when_set TIF_NEED_FPU_LOAD (ti_flags b) (callx E Switch_fpu_return) b)
        \<lparr>ti_status := ti_status (when_set TIF_NEED_FPU_LOAD (ti_flags b) (callx E Switch_fpu_return) b)
           - {TS_COMPAT, TS_I386_REGS_POKED}\<rparr>))"
  proof (cases "quiet a")
    case True
    then show ?thesis
      using that[OF a] assms by (simp add: prepare_exit_to_usermode_def a_def[symmetric] Let_def)
  next
    case False
    then obtain b where l: "exit_to_usermode_loop E (ti_flags a) a = Some b"
      using assms by (auto simp: prepare_exit_to_usermode_def a_def[symmetric] Let_def andThen_eq_Inr
          split: option.splits)
    then obtain n where "b = passes E n (ti_flags a) a" using exit_loop_Some by blast
    then have "R s b" using keep_trans[OF a some_passes] by simp
    then show ?thesis
      using that[of b] False l assms by (simp add: prepare_exit_to_usermode_def a_def[symmetric] Let_def)
  qed
  show ?thesis unfolding b(2) by (rule exit_tail[OF b(1)])
qed

lemma slowpath: "syscall_return_slowpath E s = Inr s' \<Longrightarrow> R s s'"
proof -
  assume s': "syscall_return_slowpath E s = Inr s'"
  obtain s1 where "syscall_return_slowpath E s = prepare_exit_to_usermode E s1" "R s s1"
    by (simp add: syscall_return_slowpath_def syscall_slow_exit_work_def Let_def keeps)
  then show "R s s'" using s' prepare keep_trans by metis
qed

text \<open>With no tracer the body makes one call through the table, between two such stretches.\<close>

lemma body:
  assumes "untraced E" "nospec_ok E" "and nr (SYSCALL_MASK E) = nr" "nr < NR_syscalls E"
    and "do_syscall_64_body E nr s = Inr s'"
  shows "\<exists>t. R s t \<and> R (dispatch E nr t) s'"
proof -
  define t where "t = callx E Local_irq_enable (enter_from_user_mode E s)"
  have "R s t" by (simp add: t_def enter_from_user_mode_def keeps)
  moreover have "ti_flags t \<inter> TIF_WORK_SYSCALL_ENTRY E = {}"
    using assms(1) by (simp add: t_def callx_def untraced_def)
  then have "syscall_return_slowpath E (dispatch E nr t) = Inr s'"
    using assms(2-5) by (simp add: do_syscall_64_body_def t_def[symmetric] Let_def nospec_ok_def)
  ultimately show ?thesis using slowpath by blast
qed

lemma gate:
  assumes "sandbox_gate check E nr s = Inr s1" "check (cred_uid s) nr (filt s) = Inr (c, f)"
  shows "R (s\<lparr>filt := f\<rparr>) s1 \<or> R (set_ax (word_of_int (- EACCES)) (s\<lparr>filt := f\<rparr>)) s1"
proof (cases "c = 1")
  case True
  then have "prepare_exit_to_usermode E (callx E Local_irq_disable
      (set_ax (word_of_int (- EACCES)) (s\<lparr>filt := f\<rparr>))) = Inr s1"
    using assms by (simp add: sandbox_gate_def)
  then show ?thesis using prepare keep_trans keep_call[of Local_irq_disable] by fastforce
next
  case False
  then show ?thesis using assms keep_refl by (simp add: sandbox_gate_def)
qed

end

text \<open>The trace grows by calls other than a dispatch.\<close>

interpretation traced: exit_work E "grows calm" for E :: "'s kenv"
  by unfold_locales (auto intro: grows_trans grow_intros)

section \<open>A system call from the registers to the handler\<close>

text \<open>The caller, the sandbox's table, and the registers with the arguments and the result.\<close>

definition same_call :: "sbx kst \<Rightarrow> sbx kst \<Rightarrow> bool" where
  "same_call s t \<longleftrightarrow> cred_uid t = cred_uid s \<and> filt t = filt s \<and> r_di (regs t) = r_di (regs s)
     \<and> r_si (regs t) = r_si (regs s) \<and> r_ax (regs t) = r_ax (regs s)"

text \<open>
  What the system needs of the kernel functions on the way: that a call for work before or after
  the handler, in a task without signals and tracers, touches none of these, and that the table
  of system calls holds the handlers, whose arguments are the first two registers.
\<close>

definition leaves_call :: "sbx kenv \<Rightarrow> bool" where
  "leaves_call E \<longleftrightarrow> (\<forall>f s. calm f \<longrightarrow> same_call s (ext E f s))"

definition sbx_handler :: "u64 \<Rightarrow> (u32 \<Rightarrow> u32 \<Rightarrow> u64 \<Rightarrow> sbx \<Rightarrow> (int \<times> sbx) res) option" where
  "sbx_handler n =
     (if n = 434 then Some sbx421_block else if n = 435 then Some sbx421_unblock
      else if n = 436 then Some sbx421_count else None)"

definition handler_runs :: "u64 \<Rightarrow> sbx kst \<Rightarrow> (int \<times> sbx) res option" where
  "handler_runs n s =
     (case sbx_handler n of None \<Rightarrow> None
      | Some h \<Rightarrow> Some (h (cred_uid s) (ucast (r_di (regs s))) (r_si (regs s)) (filt s)))"

definition has_handlers :: "sbx kenv \<Rightarrow> bool" where
  "has_handlers E \<longleftrightarrow> (\<forall>n s r f. handler_runs n s = Some (Inr (r, f)) \<longrightarrow>
     sys_call_ret E n s = word_of_int r \<and> filt (ext E (Dispatch n) s) = f)"

definition plain_kernel :: "sbx kenv \<Rightarrow> bool" where
  "plain_kernel E \<longleftrightarrow> settles E \<and> untraced E \<and> nospec_ok E \<and> leaves_call E
     \<and> SYSCALL_MASK E = - 1 \<and> NR_syscalls E = 437"

interpretation kept: exit_work E "\<lambda>s t. leaves_call E \<longrightarrow> same_call s t" for E :: "sbx kenv"
  by unfold_locales (auto simp: same_call_def leaves_call_def callx_def)

lemma valid_nr_lt: "valid_nr nr \<longleftrightarrow> nr < 437"
  by (simp add: valid_nr_def word_less_nat_alt)

text \<open>
  Every call with a number of the table, of a caller the table can hold, reaches its handler with
  the caller's registers after \<open>findder\<close> has answered, and its result is what the caller gets.
\<close>

lemma call_reaches_handler:
  assumes "plain_kernel E" "wf_sbx (filt s)" "valid_id (cred_uid s)" "valid_nr nr"
    and "findder (cred_uid s) nr (filt s) = Inr (c, f)"
  obtains t s' where "do_syscall_64 findder E nr s = Inr s'"
    "cred_uid t = cred_uid s" "filt t = f" "r_di (regs t) = r_di (regs s)" "r_si (regs t) = r_si (regs s)"
    "filt s' = filt (ext E (Dispatch nr) t)" "r_ax (regs s') = sys_call_ret E nr t"
proof -
  have k: "settles E" "untraced E" "nospec_ok E" "leaves_call E" "and nr (SYSCALL_MASK E) = nr" "nr < NR_syscalls E"
    using assms(1,4) by (simp_all add: plain_kernel_def valid_nr_lt)
  obtain s1 where g: "sandbox_gate findder E nr s = Inr s1"
    using sbx_filter.gate_never_stops[of E s nr] k(1) assms(2-4) by blast
  have s1: "cred_uid s1 = cred_uid s" "filt s1 = f" "r_di (regs s1) = r_di (regs s)" "r_si (regs s1) = r_si (regs s)"
    using kept.gate[OF g assms(5)] k(4) by (auto simp: same_call_def set_ax_def)
  obtain s' where b: "do_syscall_64_body E nr s1 = Inr s'"
    using body_runs[OF k(1-3,5,6)] by blast
  obtain t where t: "same_call s1 t" "same_call (dispatch E nr t) s'"
    using kept.body[OF k(2,3,5,6) b] k(4) by blast
  have "filt s' = filt (ext E (Dispatch nr) t)" "r_ax (regs s') = sys_call_ret E nr t"
    using t(2) by (simp_all add: same_call_def dispatch_def Let_def set_ax_def callx_def)
  moreover have "do_syscall_64 findder E nr s = Inr s'" using g b by (simp add: do_syscall_64_def)
  ultimately show thesis using that[of s' t] t(1) s1 by (simp add: same_call_def)
qed

section \<open>Properties\<close>

text \<open>
  A kernel with the three handlers in its table, in which every other function does nothing but
  clear the work flags.
\<close>

definition sys_env :: "sbx kenv" where
  "sys_env = demo_env\<lparr>
     ext := (\<lambda>f s. case f of
        Dispatch n \<Rightarrow> (case handler_runs n s of
            Some (Inr (r, g)) \<Rightarrow> s\<lparr>filt := g, ti_flags := {}\<rparr> | _ \<Rightarrow> s\<lparr>ti_flags := {}\<rparr>)
      | _ \<Rightarrow> s\<lparr>ti_flags := {}\<rparr>),
     sys_call_ret := (\<lambda>n s. case handler_runs n s of Some (Inr (r, g)) \<Rightarrow> word_of_int r | _ \<Rightarrow> 7)\<rparr>"

lemma sys_env_flags [simp]: "ti_flags (ext sys_env f s) = {}"
  by (simp add: sys_env_def split: kfun.split option.split sum.split prod.split)

lemma sys_env_ok: "plain_kernel sys_env" "has_handlers sys_env"
proof -
  have "\<exists>r. exit_to_usermode_loop sys_env c s = Some r" for c s
    by (rule exit_loop_returns[of sys_env 0]) (simp add: exit_pass_def callx_def Let_def)
  then have "settles sys_env" unfolding settles_def by simp
  moreover have "leaves_call sys_env"
    by (auto simp: leaves_call_def sys_env_def same_call_def split: kfun.split)
  ultimately show "plain_kernel sys_env"
    by (simp add: plain_kernel_def untraced_def nospec_ok_def) (simp add: sys_env_def demo_env_def)
  show "has_handlers sys_env" by (simp add: has_handlers_def sys_env_def)
qed

text \<open>User 1000, to whom call 1 is blocked, with its id and the number 1 as arguments.\<close>

definition caller :: "sbx kst" where
  "caller = (demo_kst {})\<lparr>regs := (regs (demo_kst {}))\<lparr>r_di := 1000, r_si := 1\<rparr>\<rparr>"

lemma caller_simps [simp]: "cred_uid caller = 1000" "filt caller = demo" "r_di (regs caller) = 1000" "r_si (regs caller) = 1"
  by (simp_all add: caller_def)

text \<open>
  C5: the caller of a refused system call does not even see an error: what \<open>do_syscall_64\<close> leaves in \<open>ax\<close> is
  the handler's own result, on the caller's arguments, and the \<open>-EACCES\<close> of the sandbox is gone.
\<close>

theorem refused_call_returns_result:
  assumes "plain_kernel E" "wf_sbx (filt s)" "valid_id (cred_uid s)" "valid_nr nr"
    and "refuses (filt s) (cred_uid s) nr"
  shows "\<exists>t s'. do_syscall_64 findder E nr s = Inr s' \<and> r_ax (regs s') = sys_call_ret E nr t
    \<and> cred_uid t = cred_uid s \<and> r_di (regs t) = r_di (regs s) \<and> r_si (regs t) = r_si (regs s)
    \<and> filt s' = filt (ext E (Dispatch nr) t)"
proof -
  obtain f where "findder (cred_uid s) nr (filt s) = Inr (1, f)"
    using sbx_filter.decides[of "filt s" "cred_uid s" nr] assms(2-5) by auto
  from call_reaches_handler[OF assms(1-4) this] show ?thesis by metis
qed

theorem refused_call_returns_result_witness:
  "\<exists>s'. do_syscall_64 findder sys_env 1 caller = Inr s' \<and> r_ax (regs s') = 7"
proof -
  have "sys_call_ret sys_env 1 t = 7" for t
    by (simp add: sys_env_def handler_runs_def sbx_handler_def)
  then show ?thesis using refused_call_returns_result[OF sys_env_ok(1), of caller 1] by auto
qed

text \<open>
  C4: a sandboxed user leaves the sandbox with one system call. Whoever has blocked \<open>nr\<close> for it, and
  even if the unblock call 435 is blocked for it as well, its call of 435 with its own id and
  \<open>nr\<close> returns 0 and from then on \<open>nr\<close> is open to it.
\<close>

theorem sandbox_escape:
  assumes "plain_kernel E" "has_handlers E" "wf_sbx (filt s)" "started (filt s) \<noteq> 0"
    and "valid_id (cred_uid s)" "valid_nr nr" "refuses (filt s) (cred_uid s) nr"
    and "ucast (r_di (regs s)) = cred_uid s" "r_si (regs s) = nr"
  shows "\<exists>s'. do_syscall_64 findder E 435 s = Inr s' \<and> r_ax (regs s') = 0
    \<and> \<not> refuses (filt s') (cred_uid s) nr"
proof -
  let ?u = "cred_uid s"
  have v: "valid_nr 435" by (simp add: valid_nr_def)
  obtain c f where f: "findder ?u 435 (filt s) = Inr (c, f)" "wf_sbx f" "refuses f ?u nr"
    using sbx_filter.decides[of "filt s" ?u 435] assms(3,5,6,7) v by auto
  have st: "started f \<noteq> 0" using findder_row(3)[OF assms(3) _ _ f(1)] assms(4,5) v by simp
  obtain g where g: "sbx421_unblock ?u ?u nr f = Inr (0, g)" "\<not> refuses g ?u nr"
    using blocked_user_unblocks_itself[OF f(2) st assms(5,6) f(3)] by blast
  obtain t s' where t: "do_syscall_64 findder E 435 s = Inr s'" "cred_uid t = ?u" "filt t = f"
    "r_di (regs t) = r_di (regs s)" "r_si (regs t) = r_si (regs s)"
    "filt s' = filt (ext E (Dispatch 435) t)" "r_ax (regs s') = sys_call_ret E 435 t"
    using call_reaches_handler[OF assms(1,3,5) v f(1)] by metis
  have "handler_runs 435 t = Some (Inr (0, g))"
    using t(2-5) assms(8,9) g(1) by (simp add: handler_runs_def sbx_handler_def)
  then have "filt s' = g" "r_ax (regs s') = 0"
    using assms(2) t(6,7) by (auto simp: has_handlers_def)
  then show ?thesis using t(1) g(2) by blast
qed

theorem sandbox_escape_witness:
  "refuses (filt caller) 1000 1 \<and> (\<exists>s'. do_syscall_64 findder sys_env 435 caller = Inr s'
    \<and> r_ax (regs s') = 0 \<and> \<not> refuses (filt s') 1000 1)"
  using sandbox_escape[OF sys_env_ok, of caller 1] by simp

section \<open>The calls of the user programs\<close>

lemma handler_result_small:
  assumes "handler_runs n s = Some (Inr (r, g))"
  shows "- (2 ^ 31) \<le> r \<and> r < 2 ^ 31"
proof -
  have "sbx421_block u p m x = Inr (r, g) \<Longrightarrow> r \<in> {0, - EPERM, - EEXIST}" for u p m x
    by (auto simp: sbx421_block_def block_entry_def andThen_eq_Inr Let_def split: if_splits)
  moreover have "sbx421_unblock u p m x = Inr (r, g) \<Longrightarrow> r \<in> {0, - EPERM, - EEXIST}" for u p m x
    by (auto simp: sbx421_unblock_def unblock_entry_def andThen_eq_Inr Let_def split: if_splits)
  moreover have "sbx421_count u p m x = Inr (r, g) \<Longrightarrow>
      r \<in> {- EINVAL, - EPERM, - EEXIST} \<or> (\<exists>w :: u32. r = sint w)" for u p m x
    by (auto simp: sbx421_count_def andThen_eq_Inr Let_def split: if_splits)
  ultimately have "r \<in> {0, - EPERM, - EEXIST, - EINVAL} \<or> (\<exists>w :: u32. r = sint w)"
    using assms by (auto simp: handler_runs_def sbx_handler_def split: if_splits)
  then show ?thesis
    using sint_range_size[where w = "w :: u32" for w] by (auto simp: errno_defs word_size)
qed

text \<open>
  What the C library gives a user program for a system call of the sandbox, made through the
  kernel, is what \<open>Userland\<close> takes it to be, on the table that the check before the call has left.
\<close>

theorem user_syscall_through_kernel:
  assumes "plain_kernel E" "has_handlers E" "wf_sbx (filt s)" "valid_id (cred_uid s)"
    and "n \<in> {NR_sbx421_block, NR_sbx421_unblock, NR_sbx421_count}"
    and "findder (cred_uid s) (word_of_int n) (filt s) = Inr (c, f)"
    and "sbx_syscall (cred_uid s) n (ucast (r_di (regs s))) (r_si (regs s)) f = Inr (rv, g)"
  shows "\<exists>s'. do_syscall_64 findder E (word_of_int n) s = Inr s' \<and> filt s' = g
    \<and> libc_ret (sint (r_ax (regs s'))) = rv"
proof -
  let ?n = "word_of_int n :: u64"
  have n: "valid_nr ?n" using assms(5)
    by (auto simp: valid_nr_def NR_sbx421_block_def NR_sbx421_unblock_def NR_sbx421_count_def)
  obtain t s' where t: "do_syscall_64 findder E ?n s = Inr s'" "cred_uid t = cred_uid s" "filt t = f"
    "r_di (regs t) = r_di (regs s)" "r_si (regs t) = r_si (regs s)"
    "filt s' = filt (ext E (Dispatch ?n) t)" "r_ax (regs s') = sys_call_ret E ?n t"
    using call_reaches_handler[OF assms(1,3,4) n assms(6)] by metis
  obtain r where r: "handler_runs ?n t = Some (Inr (r, g))" "rv = libc_ret r"
    using assms(5,7) t(2-5)
    by (auto simp: sbx_syscall_def handler_runs_def sbx_handler_def andThen_eq_Inr
        NR_sbx421_block_def NR_sbx421_unblock_def NR_sbx421_count_def)
  then have "filt s' = g" "r_ax (regs s') = word_of_int r"
    using assms(2) t(6,7) by (simp_all add: has_handlers_def)
  moreover have "sint (word_of_int r :: u64) = r"
    unfolding signed_of_int of_int_eq_id id_apply by (rule signed_take_bit_int_eq_self) (use handler_result_small[OF r(1)] in auto)
  ultimately show ?thesis using t(1) r(2) by auto
qed

theorem user_syscall_through_kernel_witness:
  "\<exists>s' g. do_syscall_64 findder sys_env 435 caller = Inr s' \<and> filt s' = g
    \<and> libc_ret (sint (r_ax (regs s'))) = 0"
proof -
  have v: "valid_nr 435" "valid_id 1000" by (simp_all add: valid_nr_def)
  obtain c f where f: "findder 1000 435 demo = Inr (c, f)" "wf_sbx f" "refuses f 1000 1"
    using sbx_filter.decides[of demo 1000 435] v by auto
  have "started f \<noteq> 0" using findder_row(3)[OF _ v f(1)] by simp
  then obtain g where "sbx421_unblock 1000 1000 1 f = Inr (0, g)"
    using blocked_user_unblocks_itself[OF f(2) _ v(2) _ f(3)] by (auto simp: valid_nr_def)
  then have "sbx_syscall 1000 435 1000 1 f = Inr (0, g)"
    by (simp add: sbx_syscall_def NR_sbx421_block_def NR_sbx421_unblock_def libc_ret_def)
  then show ?thesis
    using user_syscall_through_kernel[OF sys_env_ok, of caller 435 c f 0 g] f(1)
    by (auto simp: NR_sbx421_unblock_def)
qed

end
