(* ===== verification/HashTable.thy ===== *)
theory HashTable
  imports Prelude
begin

text \<open>
  The prototype hash table of \<^verbatim>\<open>project 2/proj2/misc/hash.h\<close>: an array of 30 pointers probed
  linearly. The heap \<open>cells\<close> holds the structures the pointers point to, so that a write
  through a slot is seen by everyone who holds the pointer.

  Reading of the source where it does not build: \<open>table[index]\<close> in \<open>insert\<close> and \<open>remove\<close> names
  the array \<open>hashTable\<close> (\<open>table\<close> is only a structure tag), and \<open>struct Table\<close> is
  \<open>struct table\<close>. \<open>kmalloc\<close> is a parameter: the address it returns, or \<open>None\<close>. The file's
  globals \<open>temp\<close> and \<open>item\<close> are part of the state; \<open>insert\<close> declares a \<open>temp\<close> of its own and
  \<open>remove\<close> an \<open>item\<close> of its own.
\<close>

section \<open>State\<close>

definition HSIZE :: int where "HSIZE = 30"

record table =
  data :: int
  key :: int

record htab =
  hashTable :: "nat option list"
  cells :: "nat \<rightharpoonup> table"
  temp :: "nat option"
  item :: "nat option"
  hlog :: "kmsg list"

definition htab_empty :: htab where
  "htab_empty = \<lparr>hashTable = replicate 30 None, cells = Map.empty, temp = None, item = None,
     hlog = []\<rparr>"

definition hprint :: "string \<Rightarrow> int list \<Rightarrow> htab \<Rightarrow> htab" where
  "hprint f xs h = h\<lparr>hlog := hlog h @ [(f, xs)]\<rparr>"

definition getHash :: "int \<Rightarrow> int" where
  "getHash k = k smod HSIZE"

definition next_index :: "int \<Rightarrow> int" where
  "next_index index = (index + 1) smod HSIZE"

section \<open>Operations\<close>

text \<open>The probing loop of \<open>find\<close>; it may go round for ever.\<close>

partial_function (option) find_from :: "htab \<Rightarrow> int \<Rightarrow> int \<Rightarrow> nat option res option" where
  "find_from h k index =
     (case aget (hashTable h) index of
        Inl e \<Rightarrow> Some (Inl e)
      | Inr None \<Rightarrow> Some (Inr None)
      | Inr (Some a) \<Rightarrow>
          (case cells h a of
             None \<Rightarrow> Some (Inl BadPointer)
           | Some t \<Rightarrow> if key t = k then Some (Inr (Some a)) else find_from h k (next_index index)))"

declare find_from.simps [code]

definition find_item :: "int \<Rightarrow> htab \<Rightarrow> (nat option \<times> htab) res option" where
  "find_item k h =
     (case find_from h k (getHash k) of
        None \<Rightarrow> None
      | Some (Inl e) \<Rightarrow> Some (Inl e)
      | Some (Inr None) \<Rightarrow> Some (Inr (None, hprint ''Unable to find key of %d'' [k] h))
      | Some (Inr (Some a)) \<Rightarrow> Some (Inr (Some a, h)))"

text \<open>The loop of \<open>insert\<close> that looks for an empty slot.\<close>

partial_function (option) free_from :: "htab \<Rightarrow> int \<Rightarrow> int res option" where
  "free_from h index =
     (case aget (hashTable h) index of
        Inl e \<Rightarrow> Some (Inl e)
      | Inr None \<Rightarrow> Some (Inr index)
      | Inr (Some a) \<Rightarrow> free_from h (next_index index))"

declare free_from.simps [code]

text \<open>\<open>table[index] = item\<close> stores the file's global, not the cell just filled in.\<close>

definition insert_key :: "nat option \<Rightarrow> int \<Rightarrow> int \<Rightarrow> htab \<Rightarrow> (int \<times> htab) res option" where
  "insert_key kmalloc k d h =
     (case kmalloc of
        None \<Rightarrow> Some (Inr (1, hprint ''Error: Unable to allocate memory'' [] h))
      | Some a \<Rightarrow>
          (let h = h\<lparr>cells := (cells h)(a \<mapsto> \<lparr>data = d, key = k\<rparr>)\<rparr> in
           case free_from h (getHash k) of
             None \<Rightarrow> None
           | Some m \<Rightarrow> Some (andThen m (\<lambda>index.
               andThen (aset (hashTable h) index (item h)) (\<lambda>t.
               Inr (0, h\<lparr>hashTable := t\<rparr>))))))"

text \<open>
  \<open>if (table[index]->key = key)\<close> assigns, so an occupied slot takes the key and the test asks
  whether the key is not 0.
\<close>

partial_function (option) remove_from ::
  "int \<Rightarrow> int \<Rightarrow> htab \<Rightarrow> (nat option \<times> htab) res option" where
  "remove_from k index h =
     (case aget (hashTable h) index of
        Inl e \<Rightarrow> Some (Inl e)
      | Inr None \<Rightarrow> Some (Inr (None, h))
      | Inr (Some a) \<Rightarrow>
          (case cells h a of
             None \<Rightarrow> Some (Inl BadPointer)
           | Some t \<Rightarrow>
               (let h = h\<lparr>cells := (cells h)(a \<mapsto> t\<lparr>key := k\<rparr>)\<rparr> in
                if k \<noteq> 0
                then Some (andThen (aset (hashTable h) index (temp h)) (\<lambda>s.
                       Inr (Some a, h\<lparr>hashTable := s\<rparr>)))
                else remove_from k (next_index index) h)))"

declare remove_from.simps [code]

definition remove_item :: "nat \<Rightarrow> htab \<Rightarrow> (nat option \<times> htab) res option" where
  "remove_item it h =
     (case cells h it of
        None \<Rightarrow> Some (Inl BadPointer)
      | Some t \<Rightarrow> remove_from (key t) (getHash (key t)) h)"

section \<open>Well-formed tables and probe sequences\<close>

definition wf_htab :: "htab \<Rightarrow> bool" where
  "wf_htab h \<longleftrightarrow> length (hashTable h) = 30
     \<and> (\<forall>i < 30. \<forall>a. hashTable h ! i = Some a \<longrightarrow> a \<in> dom (cells h))"

text \<open>A slot ends the search for \<open>k\<close>: it is empty or holds \<open>k\<close>.\<close>

definition ends :: "htab \<Rightarrow> int \<Rightarrow> nat \<Rightarrow> bool" where
  "ends h k i \<longleftrightarrow>
     (case hashTable h ! i of
        None \<Rightarrow> True
      | Some a \<Rightarrow> (case cells h a of None \<Rightarrow> False | Some t \<Rightarrow> key t = k))"

definition probe :: "int \<Rightarrow> nat \<Rightarrow> nat" where
  "probe k n = (nat k + n) mod 30"

lemma next_index_mod: "0 \<le> i \<Longrightarrow> next_index i = (i + 1) mod 30"
  by (simp add: next_index_def HSIZE_def signed_modulo_int_def signed_divide_int_def
      minus_mult_div_eq_mod)

lemma getHash_mod: "0 \<le> k \<Longrightarrow> getHash k = k mod 30"
  by (cases "k = 0") (simp_all add: getHash_def HSIZE_def signed_modulo_int_def
      signed_divide_int_def minus_mult_div_eq_mod)

lemma probe_lt [simp]: "probe k n < 30"
  by (simp add: probe_def)

lemma next_probe: "next_index (int (probe k n)) = int (probe k (Suc n))"
  by (simp add: next_index_mod probe_def zmod_int mod_simps algebra_simps)

lemma getHash_probe: "0 \<le> k \<Longrightarrow> getHash k = int (probe k 0)"
  by (simp add: getHash_mod probe_def zmod_int)

lemma probe_onto:
  assumes "i < 30"
  shows "\<exists>n. probe k n = i"
proof -
  define q r where "q = nat k div 30" and "r = nat k mod 30"
  have "nat k = 30 * q + r" "r < 30"
    by (simp_all add: q_def r_def)
  then have "nat k + (30 - r + i) = i + 30 * (q + 1)"
    by simp
  then have "probe k (30 - r + i) = i"
    unfolding probe_def using assms by (metis mod_less mod_mult_self2)
  then show ?thesis ..
qed

lemma slot_get: "wf_htab h \<Longrightarrow> aget (hashTable h) (int (probe k n)) = Inr (hashTable h ! probe k n)"
  by (simp add: wf_htab_def)

lemma slot_cell:
  "wf_htab h \<Longrightarrow> hashTable h ! probe k n = Some a \<Longrightarrow> \<exists>t. cells h a = Some t"
  using probe_lt[of k n] unfolding wf_htab_def by blast

section \<open>The search\<close>

lemma find_from_probe:
  assumes "wf_htab h"
  shows "find_from h k (int (probe j n)) =
     (if ends h k (probe j n) then Some (Inr (hashTable h ! probe j n))
      else find_from h k (int (probe j (Suc n))))"
proof (cases "hashTable h ! probe j n")
  case None
  then show ?thesis
    by (subst find_from.simps) (simp add: slot_get[OF assms] ends_def)
next
  case (Some a)
  then obtain t where "cells h a = Some t"
    using slot_cell[OF assms] by blast
  then show ?thesis
    using Some by (subst find_from.simps) (simp add: slot_get[OF assms] ends_def next_probe)
qed

lemma find_from_reaches:
  assumes "wf_htab h" "ends h k (probe j (n + d))" "\<And>m. m < d \<Longrightarrow> \<not> ends h k (probe j (n + m))"
  shows "find_from h k (int (probe j n)) = Some (Inr (hashTable h ! probe j (n + d)))"
  using assms(2,3)
proof (induction d arbitrary: n)
  case 0
  then show ?case by (simp add: find_from_probe[OF assms(1)])
next
  case (Suc d)
  have "\<not> ends h k (probe j n)"
    using Suc.prems(2)[of 0] by simp
  moreover have "find_from h k (int (probe j (Suc n))) = Some (Inr (hashTable h ! probe j (Suc n + d)))"
  proof (rule Suc.IH)
    show "ends h k (probe j (Suc n + d))" using Suc.prems(1) by simp
  next
    fix m assume "m < d"
    then show "\<not> ends h k (probe j (Suc n + m))" using Suc.prems(2)[of "Suc m"] by simp
  qed
  ultimately show ?case by (simp add: find_from_probe[OF assms(1)])
qed

lemma find_from_some_ends:
  assumes "find_from h k i = Some r"
  shows "wf_htab h \<longrightarrow> (\<forall>n. i = int (probe j n) \<longrightarrow> (\<exists>m. ends h k (probe j m)))"
proof (rule find_from.raw_induct[OF _ assms], intro impI allI)
  fix f h' k' i' r' n
  assume IH: "\<And>h k i r. f h k i = Some r \<Longrightarrow>
      wf_htab h \<longrightarrow> (\<forall>n. i = int (probe j n) \<longrightarrow> (\<exists>m. ends h k (probe j m)))"
    and run: "(case aget (hashTable h') i' of
        Inl e \<Rightarrow> Some (Inl e)
      | Inr None \<Rightarrow> Some (Inr None)
      | Inr (Some a) \<Rightarrow>
          (case cells h' a of
             None \<Rightarrow> Some (Inl BadPointer)
           | Some t \<Rightarrow> if key t = k' then Some (Inr (Some a)) else f h' k' (next_index i'))) = Some r'"
    and wf: "wf_htab h'" and i': "i' = int (probe j n)"
  show "\<exists>m. ends h' k' (probe j m)"
  proof (cases "ends h' k' (probe j n)")
    case False
    then obtain a t where a: "hashTable h' ! probe j n = Some a" "cells h' a = Some t" "key t \<noteq> k'"
      using slot_cell[OF wf] by (fastforce simp: ends_def split: option.splits)
    then have "f h' k' (int (probe j (Suc n))) = Some r'"
      using run by (simp add: i' slot_get[OF wf] next_probe)
    then show ?thesis using IH wf by blast
  qed blast
qed

text \<open>The first slot on the probe sequence that ends the search.\<close>

lemma find_from_least:
  assumes "wf_htab h" "0 \<le> k" "\<exists>m. ends h k (probe k m)"
  shows "find_from h k (getHash k) =
     Some (Inr (hashTable h ! probe k (LEAST m. ends h k (probe k m))))"
proof -
  let ?d = "LEAST m. ends h k (probe k m)"
  have "find_from h k (int (probe k 0)) = Some (Inr (hashTable h ! probe k (0 + ?d)))"
    using assms(1,3) not_less_Least
    by (intro find_from_reaches) (auto intro: LeastI_ex)
  then show ?thesis by (simp add: getHash_probe[OF assms(2)])
qed

lemma find_item_ends:
  assumes "wf_htab h" "0 \<le> k" "\<exists>m. ends h k (probe k m)"
  shows "\<exists>p h'. find_item k h = Some (Inr (p, h'))"
  using find_from_least[OF assms] by (auto simp: find_item_def split: option.splits)

lemma find_item_none:
  assumes "wf_htab h" "0 \<le> k"
  shows "find_item k h = None \<longleftrightarrow> (\<forall>m. \<not> ends h k (probe k m))"
proof
  assume none: "find_item k h = None"
  show "\<forall>m. \<not> ends h k (probe k m)"
    using find_item_ends[OF assms] none by (metis option.distinct(1))
next
  assume "\<forall>m. \<not> ends h k (probe k m)"
  then have "find_from h k (getHash k) = None"
    using find_from_some_ends assms(1) getHash_probe[OF assms(2)] by (metis option.exhaust)
  then show "find_item k h = None" by (simp add: find_item_def)
qed

section \<open>Insertion\<close>

lemma free_from_slot:
  assumes "free_from h i = Some (Inr j)"
  shows "aget (hashTable h) j = Inr None"
proof (rule free_from.raw_induct[OF _ assms, where P = "\<lambda>h i r. \<forall>j. r = Inr j \<longrightarrow> aget (hashTable h) j = Inr None",
        rule_format])
  fix f h' i' r j
  assume IH: "\<And>h i r j. f h i = Some r \<Longrightarrow> r = Inr j \<Longrightarrow> aget (hashTable h) j = Inr None"
    and run: "(case aget (hashTable h') i' of
        Inl e \<Rightarrow> Some (Inl e)
      | Inr None \<Rightarrow> Some (Inr i')
      | Inr (Some a) \<Rightarrow> f h' (next_index i')) = Some r" and r: "r = Inr j"
  show "aget (hashTable h') j = Inr None"
    using run r IH[OF _ r] by (auto split: sum.splits option.splits)
qed simp

text \<open>With the global \<open>item\<close> null, a call of \<open>insert\<close> that returns has changed no slot.\<close>

lemma insert_key_slots:
  assumes "insert_key al k d h = Some (Inr (r, h'))" "item h = None"
  shows "hashTable h' = hashTable h \<and> item h' = None"
proof (cases al)
  case (Some a)
  let ?h = "h\<lparr>cells := (cells h)(a \<mapsto> \<lparr>data = d, key = k\<rparr>)\<rparr>"
  obtain j where j: "free_from ?h (getHash k) = Some (Inr j)"
    using assms(1) Some
    by (auto simp: insert_key_def Let_def andThen_eq_Inr split: option.splits)
  have "aget (hashTable h) j = Inr None"
    using free_from_slot[OF j] by simp
  then have "aset (hashTable h) j None = Inr (hashTable h)"
    by (auto simp: aget_def aset_def split: if_splits) (metis list_update_id)
  then show ?thesis
    using assms j Some by (auto simp: insert_key_def Let_def)
qed (use assms in \<open>auto simp: insert_key_def hprint_def\<close>)

text \<open>A sequence of calls of \<open>insert\<close>: what \<open>kmalloc\<close> gives, the key and the data of each.\<close>

fun insert_all :: "(nat option \<times> int \<times> int) list \<Rightarrow> htab \<Rightarrow> htab res option" where
  "insert_all [] h = Some (Inr h)"
| "insert_all ((al, k, d) # xs) h =
     (case insert_key al k d h of
        None \<Rightarrow> None
      | Some (Inl e) \<Rightarrow> Some (Inl e)
      | Some (Inr (r, h')) \<Rightarrow> insert_all xs h')"

lemma insert_all_slots:
  "insert_all xs h = Some (Inr h') \<Longrightarrow> item h = None \<Longrightarrow> hashTable h' = hashTable h"
proof (induction xs h rule: insert_all.induct)
  case (2 al k d xs h)
  then obtain r h1 where h1: "insert_key al k d h = Some (Inr (r, h1))" "insert_all xs h1 = Some (Inr h')"
    by (auto split: option.splits sum.splits prod.splits)
  show ?case
    using 2(1)[OF h1(1) _ _ h1(2)] insert_key_slots[OF h1(1) 2(3)] by simp
qed simp

section \<open>Properties\<close>

text \<open>
  A table whose first three slots hold the keys 0, 1 and 2, and one with every slot taken.
\<close>

definition demo_htab :: htab where
  "demo_htab = htab_empty\<lparr>
     hashTable := [Some 0, Some 1, Some 2] @ replicate 27 None,
     cells := [0 \<mapsto> \<lparr>data = 10, key = 0\<rparr>, 1 \<mapsto> \<lparr>data = 11, key = 1\<rparr>, 2 \<mapsto> \<lparr>data = 12, key = 2\<rparr>]\<rparr>"

lemma demo_htab_wf: "wf_htab demo_htab"
  unfolding wf_htab_def demo_htab_def htab_empty_def
  by (auto simp: nth_Cons nth_append split: nat.splits if_splits)

lemma demo_htab_slot: "n < 3 \<Longrightarrow> hashTable demo_htab ! n = Some n"
  by (auto simp: demo_htab_def less_Suc_eq numeral_3_eq_3)

text \<open>C40: for a non-negative key, \<open>find\<close> loops for ever exactly when all 30 slots are occupied
  by other keys: the loop's only exits are an empty slot and the key itself.\<close>

theorem find_loops_iff_full:
  assumes "wf_htab h" "0 \<le> k"
  shows "find_item k h = None \<longleftrightarrow> (\<forall>i < 30. \<not> ends h k i)"
  unfolding find_item_none[OF assms] using probe_onto probe_lt by metis

theorem find_loops_iff_full_witness:
  "find_item 7 demo_htab \<noteq> None"
proof -
  have "ends demo_htab 7 3"
    by (simp add: ends_def demo_htab_def)
  then have "\<not> (\<forall>i < 30. \<not> ends demo_htab 7 i)"
    by (metis numeral_less_iff semiring_norm(68) semiring_norm(77) semiring_norm(78) semiring_norm(79) semiring_norm(80) semiring_norm(81))
  then show ?thesis
    using find_loops_iff_full[OF demo_htab_wf, of 7] by simp
qed

text \<open>When some slot is empty or holds the key, \<open>find\<close> returns what the first such slot on
  the probe sequence from \<open>key % 30\<close> holds - the pointer to the entry, or null with a line in
  the log - and changes nothing else.\<close>

theorem find_first_match:
  assumes "wf_htab h" "0 \<le> k" "ends h k (probe k n)" "\<forall>m < n. \<not> ends h k (probe k m)"
  shows "find_item k h = Some (Inr (case hashTable h ! probe k n of
      None \<Rightarrow> (None, hprint ''Unable to find key of %d'' [k] h)
    | Some a \<Rightarrow> (Some a, h)))"
proof -
  have "(LEAST m. ends h k (probe k m)) = n"
    using assms(3,4) by (metis Least_equality not_less)
  then have "find_from h k (getHash k) = Some (Inr (hashTable h ! probe k n))"
    using find_from_least[OF assms(1,2)] assms(3) by auto
  then show ?thesis
    by (simp add: find_item_def split: option.split)
qed

theorem find_first_match_witness:
  "find_item 2 demo_htab = Some (Inr (Some 2, demo_htab))"
  using find_first_match[OF demo_htab_wf, of 2 0] demo_htab_slot[of 2]
  by (simp add: probe_def ends_def) (simp add: demo_htab_def)

text \<open>\<open>find\<close> with a negative key that is not a multiple of 30 reads outside the array: C's
  \<open>%\<close> keeps the sign.\<close>

theorem find_negative_key:
  assumes "k < 0" "k mod 30 \<noteq> 0"
  shows "find_item k h = Some (Inl OutOfBounds)"
proof -
  have "getHash k < 0"
    using assms unfolding getHash_def HSIZE_def signed_modulo_int_def signed_divide_int_def
    by (simp add: minus_mult_div_eq_mod) presburger
  then show ?thesis
    by (simp add: find_item_def) (subst find_from.simps, simp)
qed

theorem find_negative_key_witness: "find_item (- 7) htab_empty = Some (Inl OutOfBounds)"
  by (rule find_negative_key) simp_all

text \<open>\<open>insert\<close> stores the file's global \<open>item\<close>, which nothing ever sets, so after any
  sequence of insertions into a fresh table every slot is still empty.\<close>

theorem inserts_store_nothing:
  assumes "insert_all xs htab_empty = Some (Inr h)"
  shows "hashTable h = replicate 30 None"
  using insert_all_slots[OF assms] by (simp add: htab_empty_def)

theorem inserts_store_nothing_witness:
  "\<exists>h. insert_all [(Some 5, 3, 40), (None, 4, 1)] htab_empty = Some (Inr h)
     \<and> hashTable h = replicate 30 None"
proof -
  have run: "\<exists>h. insert_all [(Some 5, 3, 40), (None, 4, 1)] htab_empty = Some (Inr h)"
    by (simp add: insert_key_def htab_empty_def getHash_mod free_from.simps)
  show ?thesis using inserts_store_nothing run by blast
qed

text \<open>\<open>remove\<close> assigns where it means to compare: for a positive key it takes whatever entry
  sits in the slot the key hashes to, overwrites that entry's key and puts the file's global
  \<open>temp\<close> in the slot.\<close>

theorem remove_takes_any_entry:
  assumes "wf_htab h" "cells h it = Some t" "0 < key t"
    "hashTable h ! probe (key t) 0 = Some a" "cells h a = Some u"
  shows "remove_item it h = Some (Inr (Some a, h\<lparr>
      hashTable := (hashTable h)[probe (key t) 0 := temp h],
      cells := (cells h)(a \<mapsto> u\<lparr>key := key t\<rparr>)\<rparr>))"
proof -
  have g: "getHash (key t) = int (probe (key t) 0)"
    using assms(3) by (simp add: getHash_probe)
  have "length (hashTable h) = 30"
    using assms(1) by (simp add: wf_htab_def)
  then show ?thesis
    unfolding remove_item_def g using assms(2-)
    by (subst remove_from.simps) (simp add: slot_get[OF assms(1)] g)
qed

definition demo_other :: htab where
  "demo_other = demo_htab\<lparr>cells := (cells demo_htab)(9 \<mapsto> \<lparr>data = 1, key = 31\<rparr>)\<rparr>"

theorem remove_takes_any_entry_witness:
  "\<exists>h'. remove_item 9 demo_other = Some (Inr (Some 1, h')) \<and> hashTable h' ! 1 = None"
proof -
  have "wf_htab demo_other"
    using demo_htab_wf unfolding wf_htab_def demo_other_def by auto
  moreover have "hashTable demo_other ! 1 = Some 1" "cells demo_other 1 = Some \<lparr>data = 11, key = 1\<rparr>"
    "cells demo_other 9 = Some \<lparr>data = 1, key = 31\<rparr>" "temp demo_other = None"
    "length (hashTable demo_other) = 30"
    using demo_htab_slot[of 1]
    by (simp_all add: demo_other_def) (simp_all add: demo_htab_def htab_empty_def)
  ultimately show ?thesis
    using remove_takes_any_entry[of demo_other 9 "\<lparr>data = 1, key = 31\<rparr>" 1 "\<lparr>data = 11, key = 1\<rparr>"]
    by (simp add: probe_def)
qed

end
