(* ===== verification/KernelList.thy ===== *)
theory KernelList
  imports Prelude
begin

text \<open>
  The kernel's intrusive lists (\<^verbatim>\<open>linux/list.h\<close>), which the mailbox module calls and which are not
  part of this repository. The module is modelled over an interface \<open>list_api\<close>; what it may rely
  on is the locale \<open>kernel_list\<close>, whose laws are the documented behaviour of the operations:
  a ring can be walked from its head, an element is appended before the head, a deleted element
  is left with a poisoned \<open>next\<close>, and other rings are not touched. The pointer implementation
  below satisfies the laws; it is the instance on which the module's properties are shown to
  apply.

  A place in memory that holds a \<open>struct list_head\<close> is named by the object it is a field of.
\<close>

section \<open>Interface\<close>

datatype loc =
    Mail                    \<comment> \<open>the head of the list of mailboxes\<close>
  | BoxNode nat             \<comment> \<open>the \<open>list_node\<close> of the mailbox at an address\<close>
  | BoxMsgs nat             \<comment> \<open>its \<open>messages\<close>\<close>
  | BoxAcl nat              \<comment> \<open>its \<open>acl\<close>\<close>
  | MsgNode nat
  | AclNode nat
  | Poison1
  | Poison2

record 'l list_api =
  init_head :: "loc \<Rightarrow> 'l \<Rightarrow> 'l res"          \<comment> \<open>\<open>INIT_LIST_HEAD\<close>\<close>
  add_tail :: "loc \<Rightarrow> loc \<Rightarrow> 'l \<Rightarrow> 'l res"    \<comment> \<open>\<open>list_add_tail(new, head)\<close>\<close>
  del :: "loc \<Rightarrow> 'l \<Rightarrow> 'l res"                \<comment> \<open>\<open>list_del\<close>\<close>
  next_loc :: "loc \<Rightarrow> 'l \<Rightarrow> loc res"          \<comment> \<open>\<open>->next\<close>\<close>

text \<open>\<open>ring l h xs\<close>: the list with head \<open>h\<close> has the elements \<open>xs\<close>.\<close>

locale kernel_list =
  fixes A :: "'l list_api" and ring :: "'l \<Rightarrow> loc \<Rightarrow> loc list \<Rightarrow> bool"
  assumes next_head: "ring l h xs \<Longrightarrow> next_loc A h l = Inr (hd (xs @ [h]))"
    and next_elem: "ring l h (xs @ x # ys) \<Longrightarrow> next_loc A x l = Inr (hd (ys @ [h]))"
    and ring_distinct: "ring l h xs \<Longrightarrow> distinct (h # xs)"
    and init_ring: "\<exists>l'. init_head A h l = Inr l' \<and> ring l' h []
      \<and> (\<forall>g zs. ring l g zs \<longrightarrow> h \<notin> set (g # zs) \<longrightarrow> ring l' g zs)"
    and add_ring: "ring l h xs \<Longrightarrow> x \<notin> set (h # xs) \<Longrightarrow>
      \<exists>l'. add_tail A x h l = Inr l' \<and> ring l' h (xs @ [x])
      \<and> (\<forall>g zs. ring l g zs \<longrightarrow> set (g # zs) \<inter> set (h # xs @ [x]) = {} \<longrightarrow> ring l' g zs)"
    and del_ring: "ring l h (xs @ x # ys) \<Longrightarrow>
      \<exists>l'. del A x l = Inr l' \<and> ring l' h (xs @ ys) \<and> next_loc A x l' = Inr Poison1
      \<and> (\<forall>g zs. ring l g zs \<longrightarrow> set (g # zs) \<inter> set (h # xs @ x # ys) = {} \<longrightarrow> ring l' g zs)"
    and del_head: "ring l h xs \<Longrightarrow>
      \<exists>l'. del A h l = Inr l' \<and> next_loc A h l' = Inr Poison1
      \<and> (\<forall>g zs. ring l g zs \<longrightarrow> set (g # zs) \<inter> set (h # xs) = {} \<longrightarrow> ring l' g zs)"

section \<open>Rings of pointers\<close>

record heads =
  nxt :: "loc \<rightharpoonup> loc"
  prv :: "loc \<rightharpoonup> loc"

definition read_ptr :: "(loc \<rightharpoonup> loc) \<Rightarrow> loc \<Rightarrow> loc res" where
  "read_ptr m x = (case m x of None \<Rightarrow> Inl BadPointer | Some y \<Rightarrow> Inr y)"

definition write_nxt :: "loc \<Rightarrow> loc \<Rightarrow> heads \<Rightarrow> heads res" where
  "write_nxt x y l = (if x \<in> dom (nxt l) then Inr (l\<lparr>nxt := (nxt l)(x \<mapsto> y)\<rparr>) else Inl BadPointer)"

definition write_prv :: "loc \<Rightarrow> loc \<Rightarrow> heads \<Rightarrow> heads res" where
  "write_prv x y l = (if x \<in> dom (prv l) then Inr (l\<lparr>prv := (prv l)(x \<mapsto> y)\<rparr>) else Inl BadPointer)"

definition ptr_init :: "loc \<Rightarrow> heads \<Rightarrow> heads res" where
  "ptr_init x l = Inr (l\<lparr>nxt := (nxt l)(x \<mapsto> x), prv := (prv l)(x \<mapsto> x)\<rparr>)"

definition ptr_add_tail :: "loc \<Rightarrow> loc \<Rightarrow> heads \<Rightarrow> heads res" where
  "ptr_add_tail x h l =
     andThen (read_ptr (prv l) h) (\<lambda>p.
     andThen (write_prv h x l) (\<lambda>l.
     write_nxt p x (l\<lparr>nxt := (nxt l)(x \<mapsto> h), prv := (prv l)(x \<mapsto> p)\<rparr>)))"

definition ptr_del :: "loc \<Rightarrow> heads \<Rightarrow> heads res" where
  "ptr_del x l =
     andThen (read_ptr (prv l) x) (\<lambda>p.
     andThen (read_ptr (nxt l) x) (\<lambda>n.
     andThen (write_prv n p l) (\<lambda>l.
     andThen (write_nxt p n l) (\<lambda>l.
     Inr (l\<lparr>nxt := (nxt l)(x \<mapsto> Poison1), prv := (prv l)(x \<mapsto> Poison2)\<rparr>)))))"

definition ptr_list :: "heads list_api" where
  "ptr_list = \<lparr>init_head = ptr_init, add_tail = ptr_add_tail, del = ptr_del,
     next_loc = \<lambda>x l. read_ptr (nxt l) x\<rparr>"

lemma ptr_list_simps [simp]:
  "init_head ptr_list = ptr_init"
  "add_tail ptr_list = ptr_add_tail"
  "del ptr_list = ptr_del"
  "next_loc ptr_list x l = read_ptr (nxt l) x"
  by (simp_all add: ptr_list_def)

lemma read_ptr_Some [simp]: "m x = Some y \<Longrightarrow> read_ptr m x = Inr y"
  by (simp add: read_ptr_def)

text \<open>Consecutive places are linked both ways.\<close>

fun links :: "heads \<Rightarrow> loc list \<Rightarrow> bool" where
  "links l (a # b # r) \<longleftrightarrow> nxt l a = Some b \<and> prv l b = Some a \<and> links l (b # r)"
| "links l _ \<longleftrightarrow> True"

definition ptr_ring :: "heads \<Rightarrow> loc \<Rightarrow> loc list \<Rightarrow> bool" where
  "ptr_ring l h xs \<longleftrightarrow> distinct (h # xs) \<and> links l (h # xs @ [h])"

lemma links_append: "links l (xs @ a # ys) \<longleftrightarrow> links l (xs @ [a]) \<and> links l (a # ys)"
  by (induction l xs rule: links.induct) (auto simp: neq_Nil_conv split: list.splits)

lemma links_frame:
  assumes "\<And>a. a \<in> set (butlast ys) \<Longrightarrow> nxt l' a = nxt l a"
    "\<And>b. b \<in> set (tl ys) \<Longrightarrow> prv l' b = prv l b"
  shows "links l' ys = links l ys"
  using assms by (induction l ys rule: links.induct) auto

lemma ring_frame:
  assumes "ptr_ring l g zs" "\<And>a. a \<in> set (g # zs) \<Longrightarrow> nxt l' a = nxt l a \<and> prv l' a = prv l a"
  shows "ptr_ring l' g zs"
proof -
  have "links l' (g # zs @ [g]) = links l (g # zs @ [g])"
    by (rule links_frame) (use assms(2) in \<open>auto dest: in_set_butlastD\<close>)
  then show ?thesis using assms(1) by (simp add: ptr_ring_def)
qed

lemma ring_next_head: "ptr_ring l h xs \<Longrightarrow> nxt l h = Some (hd (xs @ [h]))"
  by (cases xs) (simp_all add: ptr_ring_def)

lemma ring_next_elem:
  assumes "ptr_ring l h (xs @ x # ys)"
  shows "nxt l x = Some (hd (ys @ [h]))"
proof -
  have "links l ((h # xs) @ x # (ys @ [h]))" using assms by (simp add: ptr_ring_def)
  then have "links l (x # ys @ [h])" using links_append by blast
  then show ?thesis by (cases ys) simp_all
qed

lemma links_last: "links l (xs @ [a, b]) \<Longrightarrow> nxt l a = Some b \<and> prv l b = Some a"
  using links_append[of l xs a "[b]"] by simp

text \<open>The last place of a ring before its head is reached again.\<close>

definition ring_last :: "loc \<Rightarrow> loc list \<Rightarrow> loc" where
  "ring_last h xs = last (h # xs)"

lemma ring_split: "h # xs = butlast (h # xs) @ [ring_last h xs]"
  unfolding ring_last_def by (metis append_butlast_last_id list.distinct(1))

lemma ring_prev_head: "ptr_ring l h xs \<Longrightarrow> prv l h = Some (ring_last h xs) \<and> nxt l (ring_last h xs) = Some h"
proof -
  assume "ptr_ring l h xs"
  then have "links l ((h # xs) @ [h])" by (simp add: ptr_ring_def)
  then have "links l (butlast (h # xs) @ [ring_last h xs, h])"
    by (subst (asm) ring_split) simp
  then show ?thesis using links_last by blast
qed

text \<open>Two linked stretches are joined by linking the end of one to the start of the other.\<close>

lemma links_join:
  assumes "links l (ks @ [p])" "links l' (n # ns)" "nxt l' p = Some n" "prv l' n = Some p"
    and "\<And>a. a \<in> set ks \<Longrightarrow> nxt l' a = nxt l a"
    and "\<And>b. b \<in> set (tl (ks @ [p])) \<Longrightarrow> prv l' b = prv l b"
  shows "links l' (ks @ p # n # ns)"
proof -
  have "links l' (ks @ [p]) = links l (ks @ [p])"
    by (rule links_frame) (use assms(5,6) in auto)
  then show ?thesis
    using links_append[of l' ks p "n # ns"] assms(1-4) by simp
qed

text \<open>A ring cut before its head comes round again.\<close>

lemma ring_prefix:
  assumes "ptr_ring l h (xs @ zs)"
  shows "links l (butlast (h # xs) @ [ring_last h xs])" "distinct (butlast (h # xs) @ [ring_last h xs])"
    "set (tl (butlast (h # xs) @ [ring_last h xs])) = set xs" "ring_last h xs \<in> set (h # xs)"
    "set (butlast (h # xs)) \<subseteq> set (h # xs)"
proof -
  note split = ring_split[of h xs, symmetric]
  have "links l ((h # xs) @ zs @ [h])" using assms by (simp add: ptr_ring_def)
  then have "links l (butlast (h # xs) @ ring_last h xs # zs @ [h])"
    by (subst (asm) ring_split) simp
  then show "links l (butlast (h # xs) @ [ring_last h xs])" using links_append by blast
  show "distinct (butlast (h # xs) @ [ring_last h xs])"
    using assms unfolding split by (simp add: ptr_ring_def)
  show "set (tl (butlast (h # xs) @ [ring_last h xs])) = set xs" unfolding split by simp
  show "ring_last h xs \<in> set (h # xs)" unfolding ring_last_def by simp
  show "set (butlast (h # xs)) \<subseteq> set (h # xs)" by (auto dest: in_set_butlastD)
qed

lemma ptr_add_ring:
  assumes r: "ptr_ring l h xs" and x: "x \<notin> set (h # xs)"
  shows "\<exists>l'. ptr_add_tail x h l = Inr l' \<and> ptr_ring l' h (xs @ [x])
    \<and> (\<forall>g zs. ptr_ring l g zs \<longrightarrow> set (g # zs) \<inter> set (h # xs @ [x]) = {} \<longrightarrow> ptr_ring l' g zs)"
proof -
  define p where "p = ring_last h xs"
  define l' where "l' = l\<lparr>nxt := (nxt l)(x \<mapsto> h, p \<mapsto> x), prv := (prv l)(h \<mapsto> x, x \<mapsto> p)\<rparr>"
  have p: "prv l h = Some p" "nxt l p = Some h"
    using ring_prev_head[OF r] unfolding p_def by auto
  note pre = ring_prefix[of l h xs "[]", unfolded append_Nil2, OF r, folded p_def]
  have run: "ptr_add_tail x h l = Inr l'"
    using p pre(4) x by (auto simp: ptr_add_tail_def write_prv_def write_nxt_def l'_def dom_def)
  have "links l' (butlast (h # xs) @ p # x # [h])"
  proof (rule links_join[OF pre(1)])
    show "links l' [x, h]" "nxt l' p = Some x" "prv l' x = Some p"
      using x pre(4) by (auto simp: l'_def)
    show "nxt l' a = nxt l a" if "a \<in> set (butlast (h # xs))" for a
      using that pre(2,5) x by (auto simp: l'_def)
    show "prv l' b = prv l b" if "b \<in> set (tl (butlast (h # xs) @ [p]))" for b
      using that x r unfolding pre(3) by (auto simp: l'_def ptr_ring_def)
  qed
  moreover have "butlast (h # xs) @ p # x # [h] = h # (xs @ [x]) @ [h]"
    using ring_split[of h xs] unfolding p_def by (metis append.assoc append_Cons append_Nil)
  ultimately have "links l' (h # (xs @ [x]) @ [h])" by (simp only:)
  then have "ptr_ring l' h (xs @ [x])"
    using r x unfolding ptr_ring_def by auto
  moreover have "ptr_ring l' g zs"
    if "ptr_ring l g zs" "set (g # zs) \<inter> set (h # xs @ [x]) = {}" for g zs
    by (rule ring_frame[OF that(1)]) (use that(2) pre(4) in \<open>auto simp: l'_def\<close>)
  ultimately show ?thesis using run by blast
qed

text \<open>The neighbours of an element.\<close>

lemma ring_around:
  assumes r: "ptr_ring l h (xs @ x # ys)" and n: "ys @ [h] = n # ns"
  shows "nxt l (ring_last h xs) = Some x" "prv l x = Some (ring_last h xs)" "nxt l x = Some n"
    "prv l n = Some x" "links l (n # ns)" "distinct (n # ns)" "x \<notin> set (n # ns)"
    "set (n # ns) \<inter> set xs = {}"
proof -
  have "links l ((h # xs) @ x # ys @ [h])" using r by (simp add: ptr_ring_def)
  then have "links l (butlast (h # xs) @ ring_last h xs # x # n # ns)"
    by (subst (asm) ring_split) (simp only: n append.assoc append_Cons append_Nil)
  then have "links l (ring_last h xs # x # n # ns)" using links_append by blast
  then show "nxt l (ring_last h xs) = Some x" "prv l x = Some (ring_last h xs)" "nxt l x = Some n"
    "prv l n = Some x" "links l (n # ns)"
    by simp_all
  show "distinct (n # ns)" "x \<notin> set (n # ns)" "set (n # ns) \<inter> set xs = {}"
    using r unfolding n[symmetric] ptr_ring_def by auto
qed

lemma ptr_del_ring:
  assumes r: "ptr_ring l h (xs @ x # ys)"
  shows "\<exists>l'. ptr_del x l = Inr l' \<and> ptr_ring l' h (xs @ ys) \<and> nxt l' x = Some Poison1
    \<and> (\<forall>g zs. ptr_ring l g zs \<longrightarrow> set (g # zs) \<inter> set (h # xs @ x # ys) = {} \<longrightarrow> ptr_ring l' g zs)"
proof -
  define p where "p = ring_last h xs"
  obtain n ns where n: "ys @ [h] = n # ns" by (cases ys) simp_all
  define l' where "l' = l\<lparr>nxt := (nxt l)(p \<mapsto> n, x \<mapsto> Poison1), prv := (prv l)(n \<mapsto> p, x \<mapsto> Poison2)\<rparr>"
  have d: "distinct (h # xs @ x # ys)" using r by (simp add: ptr_ring_def)
  note pre = ring_prefix[OF r, folded p_def] and at = ring_around[OF r n, folded p_def]
  have ne: "p \<noteq> x" "n \<noteq> x" using d pre(4) at(7) by auto
  have run: "ptr_del x l = Inr l'"
    using at ne by (auto simp: ptr_del_def write_prv_def write_nxt_def l'_def dom_def fun_upd_twist)
  have rest: "links l' (n # ns)"
  proof (subst links_frame)
    show "nxt l' a = nxt l a" if "a \<in> set (butlast (n # ns))" for a
      using that d pre(4) unfolding n[symmetric] by (auto simp: l'_def)
    show "prv l' b = prv l b" if "b \<in> set (tl (n # ns))" for b
      using that at(6,7) by (auto simp: l'_def)
  qed (rule at(5))
  have "links l' (butlast (h # xs) @ p # n # ns)"
  proof (rule links_join[OF pre(1) rest])
    show "nxt l' p = Some n" "prv l' n = Some p" using ne by (auto simp: l'_def)
    show "nxt l' a = nxt l a" if "a \<in> set (butlast (h # xs))" for a
      using that pre(2,5) d by (auto simp: l'_def)
    show "prv l' b = prv l b" if "b \<in> set (tl (butlast (h # xs) @ [p]))" for b
      using that at(8) d unfolding pre(3) by (auto simp: l'_def)
  qed
  moreover have "butlast (h # xs) @ p # n # ns = h # (xs @ ys) @ [h]"
    using ring_split[of h xs] n unfolding p_def by (metis append.assoc append_Cons append_Nil)
  ultimately have "links l' (h # (xs @ ys) @ [h])" by (simp only:)
  then have "ptr_ring l' h (xs @ ys)" using d unfolding ptr_ring_def by auto
  moreover have "ptr_ring l' g zs"
    if "ptr_ring l g zs" "set (g # zs) \<inter> set (h # xs @ x # ys) = {}" for g zs
  proof (rule ring_frame[OF that(1)])
    have "n \<in> set (h # ys)" using n by (metis in_set_conv_decomp list.set_intros(1) rotate1.simps(2) set_rotate1)
    then show "nxt l' a = nxt l a \<and> prv l' a = prv l a" if "a \<in> set (g # zs)" for a
      using that \<open>set (g # zs) \<inter> set (h # xs @ x # ys) = {}\<close> pre(4) by (auto simp: l'_def)
  qed
  moreover have "nxt l' x = Some Poison1" by (simp add: l'_def)
  ultimately show ?thesis using run by blast
qed

lemma ptr_del_head:
  assumes r: "ptr_ring l h xs"
  shows "\<exists>l'. ptr_del h l = Inr l' \<and> nxt l' h = Some Poison1
    \<and> (\<forall>g zs. ptr_ring l g zs \<longrightarrow> set (g # zs) \<inter> set (h # xs) = {} \<longrightarrow> ptr_ring l' g zs)"
proof -
  define p where "p = ring_last h xs"
  define n where "n = hd (xs @ [h])"
  define l' where "l' = l\<lparr>nxt := (nxt l)(p \<mapsto> n, h \<mapsto> Poison1), prv := (prv l)(n \<mapsto> p, h \<mapsto> Poison2)\<rparr>"
  have p: "prv l h = Some p" "nxt l p = Some h" "p \<in> set (h # xs)"
    using ring_prev_head[OF r] unfolding p_def ring_last_def by auto
  have n: "nxt l h = Some n" "n \<in> set (h # xs)" "\<exists>y. prv l n = Some y"
    using ring_next_head[OF r] r unfolding n_def ptr_ring_def by (cases xs; auto)+
  have "ptr_del h l = Inr l'"
    using p n by (auto simp: ptr_del_def write_prv_def write_nxt_def l'_def dom_def fun_upd_twist)
  moreover have "ptr_ring l' g zs" if "ptr_ring l g zs" "set (g # zs) \<inter> set (h # xs) = {}" for g zs
    by (rule ring_frame[OF that(1)]) (use that(2) p(3) n(2) in \<open>auto simp: l'_def\<close>)
  ultimately show ?thesis by (auto simp: l'_def)
qed

lemma ptr_init_ring:
  "\<exists>l'. ptr_init h l = Inr l' \<and> ptr_ring l' h []
    \<and> (\<forall>g zs. ptr_ring l g zs \<longrightarrow> h \<notin> set (g # zs) \<longrightarrow> ptr_ring l' g zs)"
proof -
  define l' where "l' = l\<lparr>nxt := (nxt l)(h \<mapsto> h), prv := (prv l)(h \<mapsto> h)\<rparr>"
  have "ptr_ring l' g zs" if "ptr_ring l g zs" "h \<notin> set (g # zs)" for g zs
    by (rule ring_frame[OF that(1)]) (use that(2) in \<open>auto simp: l'_def\<close>)
  moreover have "ptr_ring l' h []" by (simp add: ptr_ring_def l'_def)
  ultimately show ?thesis by (auto simp: ptr_init_def l'_def)
qed

interpretation ptr: kernel_list ptr_list ptr_ring
proof unfold_locales
  fix l h xs assume "ptr_ring l h xs"
  then show "next_loc ptr_list h l = Inr (hd (xs @ [h]))" "distinct (h # xs)"
    by (simp_all add: ring_next_head) (simp add: ptr_ring_def)
next
  fix l h xs x ys assume "ptr_ring l h (xs @ x # ys)"
  then show "next_loc ptr_list x l = Inr (hd (ys @ [h]))"
    by (simp add: ring_next_elem)
  show "\<exists>l'. del ptr_list x l = Inr l' \<and> ptr_ring l' h (xs @ ys) \<and> next_loc ptr_list x l' = Inr Poison1
      \<and> (\<forall>g zs. ptr_ring l g zs \<longrightarrow> set (g # zs) \<inter> set (h # xs @ x # ys) = {} \<longrightarrow> ptr_ring l' g zs)"
    using ptr_del_ring[OF \<open>ptr_ring l h (xs @ x # ys)\<close>] by auto
next
  fix h l
  show "\<exists>l'. init_head ptr_list h l = Inr l' \<and> ptr_ring l' h []
      \<and> (\<forall>g zs. ptr_ring l g zs \<longrightarrow> h \<notin> set (g # zs) \<longrightarrow> ptr_ring l' g zs)"
    using ptr_init_ring by simp
next
  fix l h xs x assume "ptr_ring l h xs" "x \<notin> set (h # xs)"
  then show "\<exists>l'. add_tail ptr_list x h l = Inr l' \<and> ptr_ring l' h (xs @ [x])
      \<and> (\<forall>g zs. ptr_ring l g zs \<longrightarrow> set (g # zs) \<inter> set (h # xs @ [x]) = {} \<longrightarrow> ptr_ring l' g zs)"
    using ptr_add_ring by simp
next
  fix l h xs assume "ptr_ring l h xs"
  then show "\<exists>l'. del ptr_list h l = Inr l' \<and> next_loc ptr_list h l' = Inr Poison1
      \<and> (\<forall>g zs. ptr_ring l g zs \<longrightarrow> set (g # zs) \<inter> set (h # xs) = {} \<longrightarrow> ptr_ring l' g zs)"
    using ptr_del_head[of l h xs] by auto
qed

end
