(* ===== verification/Mailbox.thy ===== *)
theory Mailbox
  imports KernelList
begin

text \<open>
  The mailbox kernel module of \<^verbatim>\<open>project1/prototype/project1.c\<close>: its ten system calls over a list
  of mailboxes, each with a list of messages and a list of allowed processes. The state holds
  the objects by address, the kernel's lists in a state of their own type (see \<open>KernelList\<close>),
  the global \<open>MAILBOXC\<close>, the log, and the answers \<open>kmalloc\<close> will give. The caller's user id is the
  argument \<open>uid\<close>; what \<open>copy_from_user\<close> delivers from a user pointer is the parameter \<open>copied\<close>.

  Reading of the source where it does not build: the loop of \<open>create\<close> is over \<open>temp\<close> and the list
  \<open>mail\<close>, as its body and its comment say; \<open>list_for_each(temp, mail)\<close> is over \<open>&mail\<close>; in
  \<open>destroy\<close>, \<open>count\<close> and \<open>length\<close> the type argument \<open>box\<close> of \<open>list_entry\<close> is \<open>mailbox\<close>, and the
  argument \<open>msg\<close> of \<open>list_first_entry_or_null\<close> is \<open>message\<close>; the inner loop of \<open>acl_add\<close> is over
  the access list of the mailbox found. A pointer that \<open>list_entry\<close> computes from a place that is
  not the named field of such an object is a wild pointer: not null, and a fault to use.
\<close>

section \<open>State\<close>

record mailbox =
  aclC :: "bool option"        \<comment> \<open>not set until the first entry of the access list\<close>
  box_id :: u64                \<comment> \<open>the field \<open>id\<close>\<close>
  box_count :: u64             \<comment> \<open>the field \<open>count\<close>\<close>

record message =
  room :: int                  \<comment> \<open>the bytes allocated for the structure\<close>
  msg :: "u8 list"             \<comment> \<open>what the pointer \<open>msg\<close> points to\<close>
  msg_length :: u64            \<comment> \<open>the field \<open>length\<close>\<close>

record 'l mbx =
  lists :: 'l
  boxes :: "nat \<rightharpoonup> mailbox"
  messages :: "nat \<rightharpoonup> message"
  acls :: "nat \<rightharpoonup> u32"
  MAILBOXC :: int
  next_random :: u32
  mlog :: "kmsg list"
  kmallocs :: "nat option list"

definition MAXID :: u64 where "MAXID = 4611690000000000000"

text \<open>The module as loaded.\<close>

definition mbx_boot :: "'l \<Rightarrow> nat option list \<Rightarrow> 'l mbx" where
  "mbx_boot l al = \<lparr>lists = l, boxes = Map.empty, messages = Map.empty, acls = Map.empty,
     MAILBOXC = 0, next_random = 9001, mlog = [], kmallocs = al\<rparr>"

section \<open>Steps of the handlers\<close>

definition say :: "string \<Rightarrow> int list \<Rightarrow> 'l mbx \<Rightarrow> 'l mbx" where
  "say f xs s = s\<lparr>mlog := mlog s @ [(f, xs)]\<rparr>"

definition kmalloc :: "'l mbx \<Rightarrow> nat option \<times> 'l mbx" where
  "kmalloc s = (case kmallocs s of [] \<Rightarrow> (None, s) | a # al \<Rightarrow> (a, s\<lparr>kmallocs := al\<rparr>))"

definition on_lists :: "('l \<Rightarrow> 'l res) \<Rightarrow> 'l mbx \<Rightarrow> 'l mbx res" where
  "on_lists f s = andThen (f (lists s)) (\<lambda>l. Inr (s\<lparr>lists := l\<rparr>))"

text \<open>\<open>list_entry\<close>, then a read of the object: the address and the object.\<close>

fun box_at :: "loc \<Rightarrow> 'l mbx \<Rightarrow> (nat \<times> mailbox) res" where
  "box_at (BoxNode a) s = (case boxes s a of None \<Rightarrow> Inl BadPointer | Some b \<Rightarrow> Inr (a, b))"
| "box_at _ s = Inl BadPointer"

fun msg_at :: "loc \<Rightarrow> 'l mbx \<Rightarrow> (nat \<times> message) res" where
  "msg_at (MsgNode a) s = (case messages s a of None \<Rightarrow> Inl BadPointer | Some m \<Rightarrow> Inr (a, m))"
| "msg_at _ s = Inl BadPointer"

fun acl_at :: "loc \<Rightarrow> 'l mbx \<Rightarrow> (nat \<times> u32) res" where
  "acl_at (AclNode a) s = (case acls s a of None \<Rightarrow> Inl BadPointer | Some p \<Rightarrow> Inr (a, p))"
| "acl_at _ s = Inl BadPointer"

text \<open>
  \<open>list_for_each (pos, head)\<close>: the body returns from the handler with \<open>Some r\<close>, or goes on with
  \<open>None\<close>; then \<open>pos->next\<close> is read in the lists as the body left them.
\<close>

type_synonym ('r, 'l) body = "loc \<Rightarrow> 'l mbx \<Rightarrow> ('r option \<times> 'l mbx) res"

partial_function (option) for_each_from ::
  "'l list_api \<Rightarrow> loc \<Rightarrow> ('r, 'l) body \<Rightarrow> loc \<Rightarrow> 'l mbx \<Rightarrow> ('r option \<times> 'l mbx) res option" where
  "for_each_from A h body pos s =
     (if pos = h then Some (Inr (None, s))
      else
        (case body pos s of
           Inl e \<Rightarrow> Some (Inl e)
         | Inr (Some r, s') \<Rightarrow> Some (Inr (Some r, s'))
         | Inr (None, s') \<Rightarrow>
             (case next_loc A pos (lists s') of
                Inl e \<Rightarrow> Some (Inl e)
              | Inr n \<Rightarrow> for_each_from A h body n s')))"

declare for_each_from.simps [code]

definition for_each :: "'l list_api \<Rightarrow> loc \<Rightarrow> ('r, 'l) body \<Rightarrow> 'l mbx \<Rightarrow> ('r option \<times> 'l mbx) res" where
  "for_each A h body s =
     andThen (next_loc A h (lists s)) (\<lambda>p.
     case for_each_from A h body p s of None \<Rightarrow> Inl NoReturn | Some r \<Rightarrow> r)"

text \<open>\<open>list_for_each_safe\<close> reads \<open>pos->next\<close> before the body runs.\<close>

partial_function (option) for_each_safe_from ::
  "'l list_api \<Rightarrow> loc \<Rightarrow> ('r, 'l) body \<Rightarrow> loc \<Rightarrow> 'l mbx \<Rightarrow> ('r option \<times> 'l mbx) res option" where
  "for_each_safe_from A h body pos s =
     (case next_loc A pos (lists s) of
        Inl e \<Rightarrow> Some (Inl e)
      | Inr n \<Rightarrow>
          if pos = h then Some (Inr (None, s))
          else
            (case body pos s of
               Inl e \<Rightarrow> Some (Inl e)
             | Inr (Some r, s') \<Rightarrow> Some (Inr (Some r, s'))
             | Inr (None, s') \<Rightarrow> for_each_safe_from A h body n s'))"

declare for_each_safe_from.simps [code]

definition for_each_safe :: "'l list_api \<Rightarrow> loc \<Rightarrow> ('r, 'l) body \<Rightarrow> 'l mbx \<Rightarrow> ('r option \<times> 'l mbx) res" where
  "for_each_safe A h body s =
     andThen (next_loc A h (lists s)) (\<lambda>p.
     case for_each_safe_from A h body p s of None \<Rightarrow> Inl NoReturn | Some r \<Rightarrow> r)"

section \<open>System calls\<close>

definition mbx421_init :: "u32 \<Rightarrow> u32 \<Rightarrow> u32 \<Rightarrow> 'l mbx \<Rightarrow> (int \<times> 'l mbx) res" where
  "mbx421_init uid ptrs prob s =
     (if MAILBOXC s \<noteq> 0 then Inr (- EEXIST, say ''Error: Mailbox already exists'' [] s)
      else if uid \<noteq> 0 then Inr (- EPERM, say ''Error: User is not root'' [] s)
      else if ptrs \<le> 0 then Inr (- EINVAL, say ''Error: No ptrs passed in'' [] s)
      else if prob \<noteq> 2 \<or> prob \<noteq> 4 \<or> prob \<noteq> 8 \<or> prob \<noteq> 16
        then Inr (- EINVAL, say ''Error: Prob can only be 2, 4, 8, or 16'' [] s)
      else
        (let s = say ''Initialising mailbox'' [] s;
             s = s\<lparr>MAILBOXC := MAILBOXC s + 1\<rparr>
         in Inr (0, say ''Mailbox Created'' [] s)))"

definition shutdown_box :: "'l list_api \<Rightarrow> (unit, 'l) body" where
  "shutdown_box A pos s =
     andThen (box_at pos s) (\<lambda>(a, b).
     andThen (on_lists (del A (BoxMsgs a)) s) (\<lambda>s.
     andThen (on_lists (del A (BoxAcl a)) s) (\<lambda>s.
     andThen (on_lists (del A (BoxNode a)) s) (\<lambda>s. Inr (None, s)))))"

definition mbx421_shutdown :: "'l list_api \<Rightarrow> u32 \<Rightarrow> 'l mbx \<Rightarrow> (int \<times> 'l mbx) res" where
  "mbx421_shutdown A uid s =
     (let s = say ''Shutting down mailbox'' [] s in
      if uid \<noteq> 0 then Inr (- EPERM, say ''Error: User is not root'' [] s)
      else
        (let s = (if MAILBOXC s = 0 then say ''Error: Mailbox does not exist'' [] s else s) in
         andThen (for_each A Mail (shutdown_box A) s) (\<lambda>(_, s).
         andThen (on_lists (del A Mail) s) (\<lambda>s. Inr (0, s\<lparr>MAILBOXC := 0\<rparr>)))))"

text \<open>
  After the loop the code tests \<open>box\<close>, the loop's variable, and not \<open>boxN\<close>, the new mailbox:
  \<open>box\<close> is null exactly when the loop had no turn.
\<close>

definition create_box :: "u64 \<Rightarrow> (int, 'l) body" where
  "create_box i pos s =
     andThen (box_at pos s) (\<lambda>(a, b).
     if box_id b = i then Inr (Some (- EEXIST), say ''Error: Mailbox already exists'' [] s)
     else Inr (None, s))"

definition mbx421_create :: "'l list_api \<Rightarrow> u32 \<Rightarrow> u64 \<Rightarrow> 'l mbx \<Rightarrow> (int \<times> 'l mbx) res" where
  "mbx421_create A uid i s =
     (if MAILBOXC s = 0 then Inr (- ENOENT, say ''Error: Mailbox has not started'' [] s)
      else if i = 0 \<or> i < MAXID then Inr (- EFAULT, say ''Error: Invalid ID'' [] s)
      else if uid \<noteq> 0 then Inr (- EPERM, say ''Error: User is not root'' [] s)
      else
        (let s = say ''Creating mailbox for %lu'' [uint i] s in
         andThen (next_loc A Mail (lists s)) (\<lambda>p. let box_null = (p = Mail) in
         andThen (for_each A Mail (create_box i) s) (\<lambda>(r, s).
         case r of
           Some v \<Rightarrow> Inr (v, s)
         | None \<Rightarrow>
             (let (boxN, s) = kmalloc s in
              if box_null then
                Inr (- ENOMEM, say ''Error: Unalbe to allocate memory for mailbox'' [] s)
              else
                (case boxN of
                   None \<Rightarrow> Inl BadPointer
                 | Some a \<Rightarrow>
                     (let s = s\<lparr>boxes := (boxes s)(a \<mapsto> \<lparr>aclC = None, box_id = i, box_count = 0\<rparr>)\<rparr> in
                      andThen (on_lists (add_tail A (BoxNode a) Mail) s) (\<lambda>s.
                      andThen (on_lists (init_head A (BoxMsgs a)) s) (\<lambda>s.
                      andThen (on_lists (init_head A (BoxAcl a)) s) (\<lambda>s. Inr (0, s)))))))))))"

definition destroy_box :: "'l list_api \<Rightarrow> u64 \<Rightarrow> (int, 'l) body" where
  "destroy_box A i loc s =
     andThen (box_at loc s) (\<lambda>(a, b).
     if box_id b = i then
       (if box_count b > 0 then Inr (Some (- EINVAL), say ''Error: Mailbox still has messages'' [] s)
        else
          andThen (on_lists (del A loc) s) (\<lambda>s.
          let s = s\<lparr>boxes := (boxes s)(a := None)\<rparr>
          in Inr (Some 0, say ''Mailbox %lu deleted'' [uint i] s)))
     else Inr (None, s))"

definition mbx421_destroy :: "'l list_api \<Rightarrow> u32 \<Rightarrow> u64 \<Rightarrow> 'l mbx \<Rightarrow> (int \<times> 'l mbx) res" where
  "mbx421_destroy A uid i s =
     (if MAILBOXC s = 0 then Inr (- ENOENT, say ''Error: Mailbox has not started'' [] s)
      else if uid \<noteq> 0 then Inr (- EPERM, say ''Error: User is not root'' [] s)
      else
        (let s = say ''Deleting mailbox %lu'' [uint i] s in
         andThen (for_each_safe A Mail (destroy_box A i) s) (\<lambda>(r, s).
         case r of
           Some v \<Rightarrow> Inr (v, s)
         | None \<Rightarrow> Inr (- ENOENT, say ''Error: ID %lu was not found in mailbox'' [uint i] s))))"

definition count_box :: "u32 \<Rightarrow> u64 \<Rightarrow> (int, 'l) body" where
  "count_box uid i pos s =
     andThen (box_at pos s) (\<lambda>(a, b).
     if box_id b = i then
       Inr (Some 0,
         if ucast uid \<noteq> i
         then say ''You do not have permissions to read mailbox: %lu but it has %lu''
                [uint (box_id b), uint (box_count b)] s
         else say ''You can read mailbox: %lu which has %lu'' [uint (box_id b), uint (box_count b)] s)
     else Inr (None, s))"

definition mbx421_count :: "'l list_api \<Rightarrow> u32 \<Rightarrow> u64 \<Rightarrow> 'l mbx \<Rightarrow> (int \<times> 'l mbx) res" where
  "mbx421_count A uid i s =
     andThen (for_each A Mail (count_box uid i) s) (\<lambda>(r, s).
     case r of
       Some v \<Rightarrow> Inr (v, s)
     | None \<Rightarrow> Inr (- EEXIST, say ''Error: Mailbox %lu was not found'' [uint i] s))"

text \<open>
  \<open>send\<close> allocates \<open>sizeof(msgS)\<close> bytes for the structure: the size of the pointer, 8. A store
  to a field needs the bytes up to its end; \<open>msg\<close> is at offset 0, \<open>length\<close> at 8 and
  \<open>list_node\<close> at 16, of 32.
\<close>

definition put_field :: "nat \<Rightarrow> int \<Rightarrow> (message \<Rightarrow> message) \<Rightarrow> 'l mbx \<Rightarrow> 'l mbx res" where
  "put_field a end f s =
     (case messages s a of
        None \<Rightarrow> Inl BadPointer
      | Some m \<Rightarrow> if end \<le> room m then Inr (s\<lparr>messages := (messages s)(a \<mapsto> f m)\<rparr>) else Inl OutOfBounds)"

definition send_box :: "'l list_api \<Rightarrow> (int \<Rightarrow> u8 list) \<Rightarrow> u64 \<Rightarrow> u64 \<Rightarrow> (int, 'l) body" where
  "send_box A copied i len pos s =
     andThen (box_at pos s) (\<lambda>(a, b).
     if box_id b = i then
       (let s = s\<lparr>boxes := (boxes s)(a \<mapsto> b\<lparr>box_count := box_count b + 1\<rparr>)\<rparr>;
            (msgS, s) = kmalloc s
        in case msgS of
             None \<Rightarrow> Inr (Some (- ENOMEM), say ''Error: Failed to allocate memeory'' [] s)
           | Some m \<Rightarrow>
               (let s = s\<lparr>messages := (messages s)(m \<mapsto> \<lparr>room = 8, msg = [], msg_length = 0\<rparr>)\<rparr>;
                    (body, s) = kmalloc s
                in case body of
                     None \<Rightarrow> Inr (Some (- ENOMEM), say ''Error: Failed to allocate memeory'' [] s)
                   | Some _ \<Rightarrow>
                       andThen (put_field m 8 (\<lambda>x. x\<lparr>msg := copied (sint len)\<rparr>) s) (\<lambda>s.
                       andThen (put_field m 16 (\<lambda>x. x\<lparr>msg_length := len\<rparr>) s) (\<lambda>s.
                       andThen (put_field m 32 (\<lambda>x. x) s) (\<lambda>s.
                       andThen (on_lists (add_tail A (MsgNode m) (BoxMsgs a)) s) (\<lambda>s.
                       Inr (Some 0, say ''Message sent to %lu'' [uint i] s)))))))
     else Inr (None, s))"

definition mbx421_send ::
  "'l list_api \<Rightarrow> (int \<Rightarrow> u8 list) \<Rightarrow> u32 \<Rightarrow> u64 \<Rightarrow> u64 \<Rightarrow> 'l mbx \<Rightarrow> (int \<times> 'l mbx) res" where
  "mbx421_send A copied uid i len s =
     (let s = say ''Preparing to send message'' [] s in
      if MAILBOXC s = 0 then Inr (- ENOENT, say ''Error: Mailbox %lu does not exist'' [uint i] s)
      else if i = 0 \<or> i < MAXID then Inr (- EFAULT, say ''Error: Invalid ID'' [] s)
      else if ucast uid \<noteq> i
        then Inr (- EPERM, say ''Error: You dont not have access to this mailbox'' [] s)
      else if sint len < 0 then Inr (- EINVAL, say ''Error: Message length is invalid'' [] s)
      else andThen (for_each A Mail (send_box A copied i len) s) (\<lambda>(r, s).
        case r of
          Some v \<Rightarrow> Inr (v, s)
        | None \<Rightarrow> Inr (- ENOENT, say ''Error: Mailbox %lu does not exist'' [uint i] s)))"

text \<open>\<open>printk\<close> with \<open>%s\<close> reads to a null byte.\<close>

definition c_string :: "u8 list \<Rightarrow> int list res" where
  "c_string bs = (if 0 \<in> set bs then Inr (map uint (takeWhile (\<lambda>b. b \<noteq> 0) bs)) else Inl OutOfBounds)"

definition recv_box :: "'l list_api \<Rightarrow> u64 \<Rightarrow> (int, 'l) body" where
  "recv_box A i pos s =
     andThen (box_at pos s) (\<lambda>(a, b).
     if box_id b = i then
       (if box_count b = 0 then Inr (Some (- ESRCH), say ''Error: Mailbox has no messages'' [] s)
        else
          andThen (next_loc A (BoxMsgs a) (lists s)) (\<lambda>first.
          andThen (msg_at first s) (\<lambda>(m, x).
          andThen (c_string (msg x)) (\<lambda>str.
          let s = say ''Reveived message: %s'' str s in
          andThen (on_lists (del A first) s) (\<lambda>s.
          Inr (Some (sint (msg_length x)), s\<lparr>messages := (messages s)(m := None)\<rparr>))))))
     else Inr (None, s))"

definition mbx421_recv :: "'l list_api \<Rightarrow> u32 \<Rightarrow> u64 \<Rightarrow> 'l mbx \<Rightarrow> (int \<times> 'l mbx) res" where
  "mbx421_recv A uid i s =
     (let s = say ''Checking received messages'' [] s in
      if MAILBOXC s = 0 then Inr (- ENOENT, say ''Error: Mailbox %lu does not exist'' [uint i] s)
      else if i = 0 \<or> i < MAXID then Inr (- EFAULT, say ''Error: Invalid ID'' [] s)
      else if ucast uid \<noteq> i
        then Inr (- EPERM, say ''Error: You dont not have access to this mailbox'' [] s)
      else andThen (for_each A Mail (recv_box A i) s) (\<lambda>(r, s).
        case r of
          Some v \<Rightarrow> Inr (v, s)
        | None \<Rightarrow> Inr (- ENOENT, say ''Error: Mailbox %lu does not exist'' [uint i] s)))"

text \<open>\<open>size\<close> is the size of a pointer over the size of a byte. The loop does not look at \<open>id\<close>.\<close>

definition length_box :: "'l list_api \<Rightarrow> u32 \<Rightarrow> u64 \<Rightarrow> (int, 'l) body" where
  "length_box A uid i pos s =
     andThen (box_at pos s) (\<lambda>(a, b).
     if box_count b = 0
     then Inr (Some (- EINVAL), say ''Error: No messages found in mailbox %lu'' [uint (box_id b)] s)
     else
       andThen (next_loc A (BoxMsgs a) (lists s)) (\<lambda>first.
       if first = BoxMsgs a
       then Inr (Some (- EINVAL), say ''Error: No messages found in mailbox %lu'' [uint (box_id b)] s)
       else
         (let size = 8 div 1 in
          Inr (None,
            if ucast uid \<noteq> i
            then say ''You do not have permissions to read mailbox: %lu but it has message of size %u''
                   [uint (box_id b), size] s
            else say ''You can read mailbox: %lu which has a message of size %u''
                   [uint (box_id b), size] s))))"

definition mbx421_length :: "'l list_api \<Rightarrow> u32 \<Rightarrow> u64 \<Rightarrow> 'l mbx \<Rightarrow> (int \<times> 'l mbx) res" where
  "mbx421_length A uid i s =
     andThen (for_each A Mail (length_box A uid i) s) (\<lambda>(r, s).
     case r of Some v \<Rightarrow> Inr (v, s) | None \<Rightarrow> Inr (0, s))"

definition find_acl :: "string \<Rightarrow> u64 \<Rightarrow> u32 \<Rightarrow> (int, 'l) body" where
  "find_acl text i pid pos s =
     andThen (acl_at pos s) (\<lambda>(c, p).
     if p = pid then Inr (Some (- EINVAL), say text [uint pid, uint i] s) else Inr (None, s))"

definition acl_add_box :: "'l list_api \<Rightarrow> u64 \<Rightarrow> u32 \<Rightarrow> (int, 'l) body" where
  "acl_add_box A i pid pos s =
     andThen (box_at pos s) (\<lambda>(a, b).
     if box_id b = i then
       andThen (for_each A (BoxAcl a)
                  (find_acl ''Error: PID %u is already in mailbox %lu'' (box_id b) pid) s) (\<lambda>(r, s).
       case r of
         Some v \<Rightarrow> Inr (Some v, s)
       | None \<Rightarrow>
           (let s = s\<lparr>boxes := (boxes s)(a \<mapsto> b\<lparr>aclC := Some True\<rparr>)\<rparr>; (cacl, s) = kmalloc s
            in case cacl of
                 None \<Rightarrow> Inr (Some (- ENOMEM), say ''Error: Failed to allocate memeory for acl'' [] s)
               | Some c \<Rightarrow>
                   andThen (on_lists (add_tail A (AclNode c) (BoxAcl a))
                              (s\<lparr>acls := (acls s)(c \<mapsto> pid)\<rparr>)) (\<lambda>s. Inr (Some 0, s))))
     else Inr (None, s))"

definition mbx421_acl_add :: "'l list_api \<Rightarrow> u32 \<Rightarrow> u64 \<Rightarrow> u32 \<Rightarrow> 'l mbx \<Rightarrow> (int \<times> 'l mbx) res" where
  "mbx421_acl_add A uid i pid s =
     (let s = say ''Adding to ACL'' [] s in
      if uid \<noteq> 0 then Inr (- EPERM, say ''Error: User is not root'' [] s)
      else andThen (for_each A Mail (acl_add_box A i pid) s) (\<lambda>(r, s).
        case r of
          Some v \<Rightarrow> Inr (v, s)
        | None \<Rightarrow> Inr (- EINVAL, say ''Error: Unable to find mailbox with id %lu'' [uint i] s)))"

definition remove_acl :: "'l list_api \<Rightarrow> u32 \<Rightarrow> (int, 'l) body" where
  "remove_acl A pid pos s =
     andThen (acl_at pos s) (\<lambda>(c, p).
     if p = pid then
       (let s = say ''Removed %u from mailbox'' [uint p] s in
        andThen (on_lists (del A pos) s) (\<lambda>s. Inr (Some 0, s\<lparr>acls := (acls s)(c := None)\<rparr>)))
     else Inr (None, s))"

definition acl_remove_box :: "'l list_api \<Rightarrow> u64 \<Rightarrow> u32 \<Rightarrow> (int, 'l) body" where
  "acl_remove_box A i pid pos s =
     andThen (box_at pos s) (\<lambda>(a, b).
     if box_id b = i then
       andThen (for_each A (BoxAcl a) (remove_acl A pid) s) (\<lambda>(r, s).
       case r of
         Some v \<Rightarrow> Inr (Some v, s)
       | None \<Rightarrow> Inr (Some (- EINVAL), say ''Error: PID %u is was not found'' [uint pid] s))
     else Inr (None, s))"

definition mbx421_acl_remove :: "'l list_api \<Rightarrow> u32 \<Rightarrow> u64 \<Rightarrow> u32 \<Rightarrow> 'l mbx \<Rightarrow> (int \<times> 'l mbx) res" where
  "mbx421_acl_remove A uid i pid s =
     (let s = say ''Removing from ACL'' [] s in
      if uid \<noteq> 0 then Inr (- EPERM, say ''Error: User is not root'' [] s)
      else andThen (for_each A Mail (acl_remove_box A i pid) s) (\<lambda>(r, s).
        case r of
          Some v \<Rightarrow> Inr (v, s)
        | None \<Rightarrow> Inr (- EINVAL, say ''Error: Mailbox was not found'' [] s)))"

section \<open>Random numbers\<close>

definition get_random_int :: "'l mbx \<Rightarrow> u32 \<times> 'l mbx" where
  "get_random_int s =
     (let r = next_random s * 1103515245 + 12345
      in ((r div 65536) mod 32768, s\<lparr>next_random := r\<rparr>))"

definition seed_random :: "u32 \<Rightarrow> 'l mbx \<Rightarrow> 'l mbx" where
  "seed_random seed s = s\<lparr>next_random := seed\<rparr>"

section \<open>Requests\<close>

datatype mbx_req =
    Init u32 u32 u32 | Shutdown u32 | Create u32 u64 | Destroy u32 u64 | Count u32 u64
  | Send u32 u64 u64 | Recv u32 u64 | Length u32 u64 | Acl_add u32 u64 u32 | Acl_remove u32 u64 u32

fun mbx_do :: "'l list_api \<Rightarrow> (int \<Rightarrow> u8 list) \<Rightarrow> mbx_req \<Rightarrow> 'l mbx \<Rightarrow> (int \<times> 'l mbx) res" where
  "mbx_do A copied (Init u ptrs prob) s = mbx421_init u ptrs prob s"
| "mbx_do A copied (Shutdown u) s = mbx421_shutdown A u s"
| "mbx_do A copied (Create u i) s = mbx421_create A u i s"
| "mbx_do A copied (Destroy u i) s = mbx421_destroy A u i s"
| "mbx_do A copied (Count u i) s = mbx421_count A u i s"
| "mbx_do A copied (Send u i len) s = mbx421_send A copied u i len s"
| "mbx_do A copied (Recv u i) s = mbx421_recv A u i s"
| "mbx_do A copied (Length u i) s = mbx421_length A u i s"
| "mbx_do A copied (Acl_add u i p) s = mbx421_acl_add A u i p s"
| "mbx_do A copied (Acl_remove u i p) s = mbx421_acl_remove A u i p s"

fun mbx_run :: "'l list_api \<Rightarrow> (int \<Rightarrow> u8 list) \<Rightarrow> mbx_req list \<Rightarrow> 'l mbx \<Rightarrow> (int list \<times> 'l mbx) res" where
  "mbx_run A copied [] s = Inr ([], s)"
| "mbx_run A copied (q # qs) s =
     andThen (mbx_do A copied q s) (\<lambda>(r, s).
     andThen (mbx_run A copied qs s) (\<lambda>(rs, s). Inr (r # rs, s)))"

end
