(* ===== verification/Mailbox_Props.thy ===== *)
theory Mailbox_Props
  imports Mailbox
begin

text \<open>
  What the mailbox module does. The first half needs nothing of the kernel's lists: the module
  never starts, so no mailbox ever exists, and no user can send or receive. The second half
  follows the handlers through a list whose laws are those of \<open>kernel_list\<close>: what creation,
  destruction, shutdown and the access list do once mailboxes are there.
\<close>

section \<open>Walks over the list of mailboxes\<close>

text \<open>A walk whose body faults wherever it runs has no turn or faults.\<close>

lemma for_each_faults:
  assumes "\<forall>pos. body pos s = Inl e" "for_each A h body s = Inr (r, s')"
  shows "r = None \<and> s' = s"
proof -
  obtain p where "next_loc A h (lists s) = Inr p"
    "(case for_each_from A h body p s of None \<Rightarrow> Inl NoReturn | Some r \<Rightarrow> r) = Inr (r, s')"
    using assms(2) unfolding for_each_def andThen_eq_Inr by blast
  then show ?thesis
    using assms(1) by (subst (asm) for_each_from.simps) (auto split: if_splits)
qed

lemma for_each_safe_faults:
  assumes "\<forall>pos. body pos s = Inl e" "for_each_safe A h body s = Inr (r, s')"
  shows "r = None \<and> s' = s"
proof -
  obtain p where "next_loc A h (lists s) = Inr p"
    "(case for_each_safe_from A h body p s of None \<Rightarrow> Inl NoReturn | Some r \<Rightarrow> r) = Inr (r, s')"
    using assms(2) unfolding for_each_safe_def andThen_eq_Inr by blast
  then show ?thesis
    using assms(1) by (subst (asm) for_each_safe_from.simps) (auto split: if_splits sum.splits)
qed

lemma walk_then:
  assumes "andThen (for_each A h body s) (\<lambda>(x, s1). case x of Some v \<Rightarrow> Inr (v, s1) | None \<Rightarrow> fin s1)
      = Inr y"
    and "\<forall>pos. body pos s = Inl e"
  shows "fin s = Inr y"
proof (cases "for_each A h body s")
  case (Inr xs)
  then obtain x s1 where "for_each A h body s = Inr (x, s1)" by (cases xs) simp
  then show ?thesis using for_each_faults[of body s e A h x s1] assms by simp
qed (use assms(1) in simp)

lemma box_at_empty: "boxes s = Map.empty \<Longrightarrow> box_at pos s = Inl BadPointer"
  by (cases pos) simp_all

context kernel_list begin

text \<open>Elements the body leaves alone are passed over.\<close>

lemma walk_from:
  assumes "ring (lists s) h (ws @ xs @ zs)" "\<And>z. z \<in> set xs \<Longrightarrow> body z s = Inr (None, s)"
  shows "for_each_from A h body (hd (xs @ zs @ [h])) s = for_each_from A h body (hd (zs @ [h])) s"
  using assms
proof (induction xs arbitrary: ws)
  case (Cons x xs)
  have "x \<noteq> h" using ring_distinct[OF Cons.prems(1)] by auto
  moreover have "next_loc A x (lists s) = Inr (hd (xs @ zs @ [h]))"
    using next_elem[of "lists s" h ws x "xs @ zs"] Cons.prems(1) by simp
  moreover have "body x s = Inr (None, s)" using Cons.prems(2) by simp
  ultimately have "for_each_from A h body x s = for_each_from A h body (hd (xs @ zs @ [h])) s"
    by (subst for_each_from.simps) simp
  also have "\<dots> = for_each_from A h body (hd (zs @ [h])) s"
    using Cons.IH[of "ws @ [x]"] Cons.prems by simp
  finally show ?case by simp
qed simp

lemma walk_all:
  assumes "ring (lists s) h xs" "\<And>z. z \<in> set xs \<Longrightarrow> body z s = Inr (None, s)"
  shows "for_each A h body s = Inr (None, s)"
proof -
  have "for_each_from A h body (hd (xs @ [h])) s = Some (Inr (None, s))"
    using walk_from[of s h "[]" xs "[]" body] assms by (simp add: for_each_from.simps)
  then show ?thesis using next_head[OF assms(1)] by (simp add: for_each_def)
qed

lemma walk_to:
  assumes "ring (lists s) h (xs @ x # ys)" "\<And>z. z \<in> set xs \<Longrightarrow> body z s = Inr (None, s)"
  shows "for_each A h body s =
    (case body x s of
       Inl e \<Rightarrow> Inl e
     | Inr (Some r, s') \<Rightarrow> Inr (Some r, s')
     | Inr (None, s') \<Rightarrow> andThen (next_loc A x (lists s')) (\<lambda>p.
         case for_each_from A h body p s' of None \<Rightarrow> Inl NoReturn | Some r \<Rightarrow> r))"
proof -
  have "x \<noteq> h" using ring_distinct[OF assms(1)] by auto
  moreover have "for_each_from A h body (hd ((xs @ x # ys) @ [h])) s = for_each_from A h body x s"
    using walk_from[of s h "[]" xs "x # ys" body] assms by simp
  ultimately show ?thesis
    using next_head[OF assms(1)]
    by (subst (asm) (2) for_each_from.simps)
      (auto simp: for_each_def split: sum.splits prod.splits option.splits)
qed

lemma walk_safe_from:
  assumes "ring (lists s) h (ws @ xs @ x # ys)" "\<And>z. z \<in> set xs \<Longrightarrow> body z s = Inr (None, s)"
  shows "for_each_safe_from A h body (hd (xs @ [x])) s = for_each_safe_from A h body x s"
  using assms
proof (induction xs arbitrary: ws)
  case (Cons z xs)
  have "z \<noteq> h" using ring_distinct[OF Cons.prems(1)] by auto
  moreover have "next_loc A z (lists s) = Inr (hd (xs @ [x]))"
    using next_elem[of "lists s" h ws z "xs @ x # ys"] Cons.prems(1) by (cases xs) simp_all
  moreover have "body z s = Inr (None, s)" using Cons.prems(2) by simp
  ultimately have "for_each_safe_from A h body z s = for_each_safe_from A h body (hd (xs @ [x])) s"
    by (subst for_each_safe_from.simps) simp
  also have "\<dots> = for_each_safe_from A h body x s"
    using Cons.IH[of "ws @ [z]"] Cons.prems by simp
  finally show ?case by simp
qed simp

lemma walk_safe_to:
  assumes "ring (lists s) h (xs @ x # ys)" "\<And>z. z \<in> set xs \<Longrightarrow> body z s = Inr (None, s)"
    and "body x s = Inr (Some r, s')"
  shows "for_each_safe A h body s = Inr (Some r, s')"
proof -
  have "x \<noteq> h" using ring_distinct[OF assms(1)] by auto
  moreover have "next_loc A x (lists s) = Inr (hd (ys @ [h]))" by (rule next_elem[OF assms(1)])
  ultimately have "for_each_safe_from A h body x s = Some (Inr (Some r, s'))"
    using assms(3) by (subst for_each_safe_from.simps) simp
  moreover have "next_loc A h (lists s) = Inr (hd (xs @ [x]))"
    using next_head[OF assms(1)] by (cases xs) simp_all
  ultimately show ?thesis
    using walk_safe_from[of s h "[]" xs x ys body] assms(1,2) by (simp add: for_each_safe_def)
qed

end

section \<open>A module that never starts\<close>

definition untouched :: "'l mbx \<Rightarrow> bool" where
  [wf_defs]: "untouched s \<longleftrightarrow> MAILBOXC s = 0 \<and> boxes s = Map.empty \<and> messages s = Map.empty
     \<and> acls s = Map.empty"

text \<open>The requests a module without mailboxes can answer with success.\<close>

fun idle :: "mbx_req \<Rightarrow> bool" where
  "idle (Shutdown u) \<longleftrightarrow> True"
| "idle (Length u i) \<longleftrightarrow> True"
| "idle _ \<longleftrightarrow> False"

lemma say_simps [simp]:
  "lists (say f xs s) = lists s" "boxes (say f xs s) = boxes s" "messages (say f xs s) = messages s"
  "acls (say f xs s) = acls s" "MAILBOXC (say f xs s) = MAILBOXC s" "kmallocs (say f xs s) = kmallocs s"
  "mlog (say f xs s) = mlog s @ [(f, xs)]"
  by (simp_all add: say_def)

lemma on_lists_keeps:
  assumes "on_lists f s = Inr s'"
  shows "boxes s' = boxes s \<and> messages s' = messages s \<and> acls s' = acls s \<and> MAILBOXC s' = MAILBOXC s"
  using assms by (auto simp: on_lists_def andThen_eq_Inr)

lemma untouched_say [simp]: "untouched (say f xs s) = untouched s"
  by (simp add: untouched_def)

lemmas body_defs = shutdown_box_def create_box_def count_box_def send_box_def recv_box_def
  length_box_def acl_add_box_def acl_remove_box_def destroy_box_def

lemma untouched_bodies:
  assumes "untouched s"
  shows "\<forall>pos. shutdown_box A pos s = Inl BadPointer"
    "\<forall>pos. count_box u i pos s = Inl BadPointer"
    "\<forall>pos. length_box A u i pos s = Inl BadPointer"
    "\<forall>pos. acl_add_box A i p pos s = Inl BadPointer"
    "\<forall>pos. acl_remove_box A i p pos s = Inl BadPointer"
  using assms by (simp_all add: body_defs box_at_empty untouched_def)

lemma init_fails:
  "\<exists>f. mbx421_init uid ptrs prob s = Inr (if MAILBOXC s \<noteq> 0 then - EEXIST
     else if uid \<noteq> 0 then - EPERM else - EINVAL, say f [] s)"
  by (auto simp: mbx421_init_def)

lemma untouched_shutdown:
  assumes "untouched s" "mbx421_shutdown A u s = Inr (r, s')"
  shows "untouched s'"
proof (cases "u = 0")
  case False
  then show ?thesis using assms by (auto simp: mbx421_shutdown_def Let_def)
next
  case True
  define s0 where "s0 = say ''Error: Mailbox does not exist'' [] (say ''Shutting down mailbox'' [] s)"
  have u0: "untouched s0" using assms(1) by (simp add: s0_def)
  obtain x s1 s2 where x: "for_each A Mail (shutdown_box A) s0 = Inr (x, s1)"
    "on_lists (del A Mail) s1 = Inr s2" "r = 0" "s' = s2\<lparr>MAILBOXC := 0\<rparr>"
    using True assms by (auto simp: mbx421_shutdown_def Let_def andThen_eq_Inr s0_def untouched_def)
  have "s1 = s0"
    using for_each_faults[of "shutdown_box A" s0 BadPointer A Mail x s1] untouched_bodies(1)[OF u0] x(1)
    by simp
  then show ?thesis using x on_lists_keeps[OF x(2)] u0 by (simp add: untouched_def)
qed

lemma untouched_acl:
  assumes "untouched s"
  shows "mbx421_acl_add A u i p s = Inr (r, s') \<Longrightarrow> untouched s' \<and> r < 0"
    "mbx421_acl_remove A u i p s = Inr (r, s') \<Longrightarrow> untouched s' \<and> r < 0"
proof -
  have us: "untouched (say f xs s)" for f xs using assms by simp
  show "untouched s' \<and> r < 0" if run: "mbx421_acl_add A u i p s = Inr (r, s')"
  proof (cases "u = 0")
    case True
    from walk_then[where body = "acl_add_box A i p", OF run[unfolded mbx421_acl_add_def Let_def,
          simplified True not_True_eq_False if_False simp_thms] untouched_bodies(4)[OF us]]
    show ?thesis using assms by (auto simp: errno_defs)
  qed (use assms run in \<open>auto simp: mbx421_acl_add_def errno_defs\<close>)
  show "untouched s' \<and> r < 0" if run: "mbx421_acl_remove A u i p s = Inr (r, s')"
  proof (cases "u = 0")
    case True
    from walk_then[where body = "acl_remove_box A i p", OF run[unfolded mbx421_acl_remove_def Let_def,
          simplified True not_True_eq_False if_False simp_thms] untouched_bodies(5)[OF us]]
    show ?thesis using assms by (auto simp: errno_defs)
  qed (use assms run in \<open>auto simp: mbx421_acl_remove_def errno_defs\<close>)
qed

lemma untouched_do:
  assumes "untouched s" "mbx_do A cp q s = Inr (r, s')"
  shows "untouched s' \<and> (0 \<le> r \<longrightarrow> idle q)"
proof (cases q)
  case (Init u ptrs prob)
  then show ?thesis
    using init_fails[of u ptrs prob s] assms by (auto simp: errno_defs split: if_splits)
next
  case (Shutdown u)
  then show ?thesis using untouched_shutdown[OF assms(1)] assms(2) by simp
next
  case (Count u i)
  then have "mbx421_count A u i s = Inr (r, s')" using assms(2) by simp
  from walk_then[where body = "count_box u i", OF this[unfolded mbx421_count_def]
      untouched_bodies(2)[OF assms(1)]]
  show ?thesis using assms(1) by (auto simp: errno_defs)
next
  case (Length u i)
  then have "mbx421_length A u i s = Inr (r, s')" using assms(2) by simp
  from walk_then[where body = "length_box A u i", OF this[unfolded mbx421_length_def]
      untouched_bodies(3)[OF assms(1)]]
  show ?thesis using assms(1) Length by auto
next
  case (Acl_add u i p)
  then show ?thesis using untouched_acl(1)[OF assms(1)] assms(2) by fastforce
next
  case (Acl_remove u i p)
  then show ?thesis using untouched_acl(2)[OF assms(1)] assms(2) by fastforce
qed (use assms in \<open>auto simp: mbx421_create_def mbx421_destroy_def mbx421_send_def mbx421_recv_def
      untouched_def errno_defs Let_def\<close>)

lemma untouched_run:
  "mbx_run A cp qs s = Inr (rs, s') \<Longrightarrow> untouched s \<Longrightarrow>
   untouched s' \<and> list_all2 (\<lambda>q r. 0 \<le> r \<longrightarrow> idle q) qs rs"
proof (induction qs arbitrary: s rs)
  case (Cons q qs)
  then obtain r s1 rs' where "mbx_do A cp q s = Inr (r, s1)" "mbx_run A cp qs s1 = Inr (rs', s')" "rs = r # rs'"
    by (auto simp: andThen_eq_Inr)
  then show ?case using Cons.IH untouched_do[OF Cons.prems(2)] by auto
qed simp

section \<open>The module with mailboxes\<close>

text \<open>The list of mailboxes holds the addresses \<open>as\<close>, and each is a mailbox.\<close>

definition box_list :: "('l \<Rightarrow> loc \<Rightarrow> loc list \<Rightarrow> bool) \<Rightarrow> 'l mbx \<Rightarrow> nat list \<Rightarrow> bool" where
  [wf_defs]: "box_list ring s as \<longleftrightarrow> ring (lists s) Mail (map BoxNode as) \<and> set as \<subseteq> dom (boxes s)"

definition id_of :: "'l mbx \<Rightarrow> nat \<Rightarrow> u64" where
  "id_of s a = box_id (the (boxes s a))"

lemma box_list_say [simp]: "box_list ring (say f xs s) = box_list ring s"
  "id_of (say f xs s) = id_of s"
  by (simp_all add: box_list_def id_of_def fun_eq_iff)

lemma box_list_at:
  "box_list ring s as \<Longrightarrow> a \<in> set as \<Longrightarrow> box_at (BoxNode a) s = Inr (a, the (boxes s a))"
  by (auto simp: box_list_def dom_def)

text \<open>What a handler leaves alone: all but the places \<open>X\<close> of the lists, and the other fields.\<close>

definition leaves :: "('l \<Rightarrow> loc \<Rightarrow> loc list \<Rightarrow> bool) \<Rightarrow> loc set \<Rightarrow> 'l mbx \<Rightarrow> 'l mbx \<Rightarrow> bool" where
  "leaves ring X s s' \<longleftrightarrow> acls s' = acls s \<and> MAILBOXC s' = MAILBOXC s
     \<and> (\<forall>g zs. ring (lists s) g zs \<longrightarrow> set (g # zs) \<inter> X = {} \<longrightarrow> ring (lists s') g zs)"

context kernel_list begin

lemma create_empty:
  assumes "box_list ring s []" "MAILBOXC s \<noteq> 0" "MAXID \<le> i"
  shows "mbx421_create A 0 i s = Inr (- ENOMEM, s\<lparr>kmallocs := tl (kmallocs s), mlog := mlog s @
    [(''Creating mailbox for %lu'', [uint i]),
     (''Error: Unalbe to allocate memory for mailbox'', [])]\<rparr>)"
proof -
  let ?s = "say ''Creating mailbox for %lu'' [uint i] s"
  have r: "ring (lists ?s) Mail []" using assms(1) by (simp add: box_list_def)
  have "i \<noteq> 0" using assms(3) by (auto simp: MAXID_def)
  moreover have "for_each A Mail (create_box i) ?s = Inr (None, ?s)"
    using walk_all[OF r] by simp
  moreover have "next_loc A Mail (lists s) = Inr Mail" using next_head[OF r] by simp
  ultimately show ?thesis
    using assms(2,3)
    by (cases s) (auto simp: mbx421_create_def Let_def not_less kmalloc_def say_def split: list.splits)
qed

text \<open>The three steps that link a new mailbox.\<close>

lemma new_box_rings:
  assumes "ring l Mail (map BoxNode as)" "a \<notin> set as"
  obtains l1 l2 l3 where "add_tail A (BoxNode a) Mail l = Inr l1" "init_head A (BoxMsgs a) l1 = Inr l2"
    "init_head A (BoxAcl a) l2 = Inr l3" "ring l3 Mail (map BoxNode (as @ [a]))"
    "ring l3 (BoxMsgs a) []" "ring l3 (BoxAcl a) []"
    "\<And>g zs. ring l g zs \<Longrightarrow> set (g # zs) \<inter> ({Mail, BoxMsgs a, BoxAcl a} \<union> BoxNode ` set (a # as)) = {}
      \<Longrightarrow> ring l3 g zs"
proof -
  have fresh: "BoxNode a \<notin> set (Mail # map BoxNode as)" using assms(2) by auto
  obtain l1 where l1: "add_tail A (BoxNode a) Mail l = Inr l1" "ring l1 Mail (map BoxNode (as @ [a]))"
    and f1: "\<And>g zs. ring l g zs \<Longrightarrow>
      set (g # zs) \<inter> set (Mail # map BoxNode as @ [BoxNode a]) = {} \<Longrightarrow> ring l1 g zs"
    using add_ring[OF assms(1) fresh] by auto
  obtain l2 where l2: "init_head A (BoxMsgs a) l1 = Inr l2" "ring l2 (BoxMsgs a) []"
    "ring l2 Mail (map BoxNode (as @ [a]))"
    and f2: "\<And>g zs. ring l1 g zs \<Longrightarrow> BoxMsgs a \<notin> set (g # zs) \<Longrightarrow> ring l2 g zs"
    using init_ring[of "BoxMsgs a" l1] l1(2) by fastforce
  obtain l3 where l3: "init_head A (BoxAcl a) l2 = Inr l3" "ring l3 (BoxAcl a) []"
    "ring l3 (BoxMsgs a) []" "ring l3 Mail (map BoxNode (as @ [a]))"
    and f3: "\<And>g zs. ring l2 g zs \<Longrightarrow> BoxAcl a \<notin> set (g # zs) \<Longrightarrow> ring l3 g zs"
    using init_ring[of "BoxAcl a" l2] l2(2,3) by fastforce
  show thesis
  proof (rule that[OF l1(1) l2(1) l3(1,4,3,2)])
    fix g zs assume "ring l g zs" "set (g # zs) \<inter> ({Mail, BoxMsgs a, BoxAcl a} \<union> BoxNode ` set (a # as)) = {}"
    then show "ring l3 g zs" by (intro f3[OF f2[OF f1]]) auto
  qed
qed

lemma create_appends:
  assumes "box_list ring s as" "as \<noteq> []" "MAILBOXC s \<noteq> 0" "MAXID \<le> i"
    and "i \<notin> id_of s ` set as" "kmallocs s = Some a # al" "a \<notin> set as"
  shows "\<exists>s'. mbx421_create A 0 i s = Inr (0, s') \<and> box_list ring s' (as @ [a])
    \<and> boxes s' = (boxes s)(a \<mapsto> \<lparr>aclC = None, box_id = i, box_count = 0\<rparr>)
    \<and> ring (lists s') (BoxMsgs a) [] \<and> ring (lists s') (BoxAcl a) [] \<and> kmallocs s' = al
    \<and> leaves ring ({Mail, BoxMsgs a, BoxAcl a} \<union> BoxNode ` set (a # as)) s s'"
proof -
  let ?s = "say ''Creating mailbox for %lu'' [uint i] s"
  define s1 where "s1 = ?s\<lparr>kmallocs := al,
      boxes := (boxes s)(a \<mapsto> \<lparr>aclC = None, box_id = i, box_count = 0\<rparr>)\<rparr>"
  have r: "ring (lists s) Mail (map BoxNode as)" using assms(1) by (simp add: box_list_def)
  have "create_box i (BoxNode b) ?s = Inr (None, ?s)" if "b \<in> set as" for b
  proof -
    have "box_at (BoxNode b) ?s = Inr (b, the (boxes s b))"
      using box_list_at[of ring ?s as b] assms(1) that by simp
    moreover have "box_id (the (boxes s b)) \<noteq> i" using assms(5) that by (auto simp: id_of_def)
    ultimately show ?thesis by (simp add: create_box_def)
  qed
  then have walk: "for_each A Mail (create_box i) ?s = Inr (None, ?s)"
    using walk_all[of ?s Mail "map BoxNode as" "create_box i"] r by auto
  obtain b bs where b: "as = b # bs" using assms(2) by (cases as) simp_all
  have first: "next_loc A Mail (lists s) = Inr (BoxNode b)" using next_head[OF r] b by simp
  obtain l1 l2 l3 where l: "add_tail A (BoxNode a) Mail (lists s) = Inr l1" "init_head A (BoxMsgs a) l1 = Inr l2"
    "init_head A (BoxAcl a) l2 = Inr l3" "ring l3 Mail (map BoxNode (as @ [a]))"
    "ring l3 (BoxMsgs a) []" "ring l3 (BoxAcl a) []"
    "\<And>g zs. ring (lists s) g zs \<Longrightarrow>
      set (g # zs) \<inter> ({Mail, BoxMsgs a, BoxAcl a} \<union> BoxNode ` set (a # as)) = {} \<Longrightarrow> ring l3 g zs"
    using new_box_rings[OF r assms(7)] by metis
  define s2 where "s2 = s1\<lparr>lists := l3\<rparr>"
  have "i \<noteq> 0" using assms(4) by (auto simp: MAXID_def)
  moreover have "kmalloc ?s = (Some a, ?s\<lparr>kmallocs := al\<rparr>)" using assms(6) by (simp add: kmalloc_def)
  ultimately have "mbx421_create A 0 i s = Inr (0, s2)"
    using assms(3) walk first l(1-3)
    by (simp add: mbx421_create_def Let_def leD[OF assms(4)] on_lists_def s2_def s1_def)
  moreover have "box_list ring s2 (as @ [a])"
    using l(4) assms(1) by (auto simp: box_list_def s2_def s1_def)
  ultimately show ?thesis
    using l(5-7) by (intro exI[of _ s2]) (simp add: leaves_def s2_def s1_def)
qed

lemma destroy_removes:
  assumes "box_list ring s (pre @ a # post)" "MAILBOXC s \<noteq> 0"
    and "id_of s a = i" "i \<notin> id_of s ` set pre"
  shows "\<exists>s'. mbx421_destroy A 0 i s = Inr (if box_count (the (boxes s a)) = 0 then 0 else - EINVAL, s')
    \<and> (if box_count (the (boxes s a)) = 0
       then box_list ring s' (pre @ post) \<and> boxes s' = (boxes s)(a := None)
       else box_list ring s' (pre @ a # post) \<and> boxes s' = boxes s)
    \<and> kmallocs s' = kmallocs s \<and> leaves ring (insert Mail (BoxNode ` set (pre @ a # post))) s s'"
proof -
  let ?s = "say ''Deleting mailbox %lu'' [uint i] s"
  have r: "ring (lists ?s) Mail (map BoxNode pre @ BoxNode a # map BoxNode post)"
    using assms(1) by (simp add: box_list_def)
  have at: "box_at (BoxNode b) ?s = Inr (b, the (boxes s b))" if "b \<in> set (pre @ a # post)" for b
    using box_list_at[of ring ?s "pre @ a # post" b] assms(1) that by simp
  have skip: "destroy_box A i z ?s = Inr (None, ?s)" if "z \<in> set (map BoxNode pre)" for z
    using that assms(4) at by (auto simp: destroy_box_def id_of_def)
  show ?thesis
  proof (cases "box_count (the (boxes s a)) = 0")
    case False
    then have "destroy_box A i (BoxNode a) ?s =
        Inr (Some (- EINVAL), say ''Error: Mailbox still has messages'' [] ?s)"
      using at[of a] assms(3) by (simp add: destroy_box_def id_of_def word_gt_0)
    from walk_safe_to[where body = "destroy_box A i", OF r skip this] show ?thesis
      using assms(1,2) False by (auto simp: mbx421_destroy_def leaves_def)
  next
    case True
    obtain l' where l': "del A (BoxNode a) (lists s) = Inr l'" "ring l' Mail (map BoxNode (pre @ post))"
      and frame: "\<And>g zs. ring (lists s) g zs \<Longrightarrow>
        set (g # zs) \<inter> set (Mail # map BoxNode pre @ BoxNode a # map BoxNode post) = {} \<Longrightarrow> ring l' g zs"
      using del_ring[OF r] by auto
    define s' where "s' = say ''Mailbox %lu deleted'' [uint i] (?s\<lparr>lists := l', boxes := (boxes s)(a := None)\<rparr>)"
    have "destroy_box A i (BoxNode a) ?s = Inr (Some 0, s')"
      using at[of a] assms(3) True l' by (simp add: destroy_box_def id_of_def on_lists_def Let_def s'_def)
    from walk_safe_to[where body = "destroy_box A i", OF r skip this] have "mbx421_destroy A 0 i s = Inr (0, s')"
      using assms(2) by (simp add: mbx421_destroy_def)
    moreover have "a \<notin> set (pre @ post)"
      using ring_distinct[OF r] by (auto simp: distinct_map)
    then have "box_list ring s' (pre @ post)"
      using l' assms(1) by (auto simp: box_list_def s'_def)
    moreover have "leaves ring (insert Mail (BoxNode ` set (pre @ a # post))) s s'"
      using frame unfolding leaves_def s'_def by (simp add: insert_commute image_Un)
    ultimately show ?thesis using True by (auto simp: s'_def)
  qed
qed

text \<open>Shutdown deletes the node its loop stands on.\<close>

lemma shutdown_stops:
  assumes "box_list ring s (a # as)" "ring (lists s) (BoxMsgs a) ms" "ring (lists s) (BoxAcl a) ps"
    and "set (BoxMsgs a # ms) \<inter> set (BoxAcl a # ps) = {}"
    and "set (Mail # map BoxNode (a # as)) \<inter> set (BoxMsgs a # ms @ BoxAcl a # ps) = {}"
  shows "mbx421_shutdown A 0 s = Inl BadPointer"
proof -
  define s0 where "s0 = (let s = say ''Shutting down mailbox'' [] s in
    if MAILBOXC s = 0 then say ''Error: Mailbox does not exist'' [] s else s)"
  have same: "lists s0 = lists s" "boxes s0 = boxes s" by (simp_all add: s0_def Let_def)
  have m: "ring (lists s) Mail (map BoxNode (a # as))"
    using assms(1) by (simp add: box_list_def)
  have apart: "set (BoxAcl a # ps) \<inter> set (BoxMsgs a # ms) = {}"
    "set (Mail # map BoxNode (a # as)) \<inter> set (BoxMsgs a # ms) = {}"
    "set (Mail # map BoxNode (a # as)) \<inter> set (BoxAcl a # ps) = {}"
    using assms(4,5) unfolding set_append list.set by blast+
  obtain l1 where l1: "del A (BoxMsgs a) (lists s) = Inr l1" "ring l1 (BoxAcl a) ps"
    "ring l1 Mail (map BoxNode (a # as))"
    using del_head[OF assms(2)] m assms(3) apart(1,2) by blast
  obtain l2 where l2: "del A (BoxAcl a) l1 = Inr l2" "ring l2 Mail (map BoxNode (a # as))"
    using del_head[OF l1(2)] l1(3) apart(3) by blast
  obtain l3 where l3: "del A (BoxNode a) l2 = Inr l3" "next_loc A (BoxNode a) l3 = Inr Poison1"
    using del_ring[of l2 Mail "[]" "BoxNode a" "map BoxNode as"] l2(2) by auto
  have "box_at (BoxNode a) s0 = Inr (a, the (boxes s a))"
    using box_list_at[OF assms(1), of a] same by simp
  then have body: "shutdown_box A (BoxNode a) s0 = Inr (None, s0\<lparr>lists := l3\<rparr>)"
    using l1 l2 l3 same by (simp add: shutdown_box_def on_lists_def)
  have stop: "for_each_from A Mail (shutdown_box A) Poison1 t = Some (Inl BadPointer)" for t
    by (simp add: for_each_from.simps shutdown_box_def)
  have "for_each A Mail (shutdown_box A) s0 = Inl BadPointer"
    using walk_to[of s0 Mail "[]" "BoxNode a" "map BoxNode as" "shutdown_box A"] assms(1) same body l3 stop
    by (simp add: box_list_def)
  then show ?thesis by (simp add: mbx421_shutdown_def s0_def Let_def)
qed

text \<open>Shutdown of an empty list leaves its head poisoned.\<close>

lemma shutdown_empty:
  assumes "box_list ring s []"
  shows "\<exists>s'. mbx421_shutdown A 0 s = Inr (0, s') \<and> next_loc A Mail (lists s') = Inr Poison1
    \<and> MAILBOXC s' = 0 \<and> kmallocs s' = kmallocs s"
proof -
  define s0 where "s0 = (let s = say ''Shutting down mailbox'' [] s in
    if MAILBOXC s = 0 then say ''Error: Mailbox does not exist'' [] s else s)"
  have r: "ring (lists s0) Mail []" using assms by (simp add: s0_def Let_def box_list_def)
  obtain l' where "del A Mail (lists s0) = Inr l'" "next_loc A Mail l' = Inr Poison1"
    using del_head[OF r] by auto
  then show ?thesis
    using walk_all[OF r, of "shutdown_box A"]
    by (simp add: mbx421_shutdown_def s0_def Let_def on_lists_def)
qed

end

lemma poisoned_walk:
  assumes "next_loc A Mail (lists s) = Inr Poison1" "body Poison1 s = Inl e"
  shows "for_each A Mail body s = Inl e"
  using assms by (simp add: for_each_def) (subst for_each_from.simps, simp)

text \<open>A user id has 32 bits and is never a mailbox id.\<close>

lemma user_id_no_mailbox_id:
  fixes uid :: u32 and i :: u64
  assumes "\<not> i < MAXID"
  shows "ucast uid \<noteq> i"
proof
  assume "ucast uid = i"
  then have "uint i = uint uid" using uint_lt2p[of uid] by (auto simp: unsigned_ucast_eq take_bit_int_eq_self_iff)
  then have "uint i < 2 ^ 32" using uint_lt2p[of uid] by simp
  moreover have "(4611690000000000000 :: int) \<le> uint i"
    using assms by (simp add: MAXID_def word_less_def not_less)
  ultimately show False by simp
qed

section \<open>Properties\<close>

text \<open>
  \<open>mbx421_init\<close> never succeeds. Its test of the probability holds of every number, so every
  call returns an error, changes nothing but the log, and leaves the module stopped.
\<close>

theorem init_never_succeeds:
  "\<exists>f. mbx421_init uid ptrs prob s = Inr
     (if MAILBOXC s \<noteq> 0 then - EEXIST else if uid \<noteq> 0 then - EPERM else - EINVAL,
      s\<lparr>mlog := mlog s @ [(f, [])]\<rparr>)"
  using init_fails[of uid ptrs prob s] by (auto simp: say_def)

text \<open>
  C14: no mailbox ever exists. After any sequence of requests to the freshly loaded module, by
  any users and over any implementation of the lists, there is no mailbox, message or access
  entry, the module has not started, and only shutdown and the length query can have reported
  success.
\<close>

theorem no_mailbox_ever:
  assumes "mbx_run A copied qs (mbx_boot l al) = Inr (rs, s)"
  shows "MAILBOXC s = 0 \<and> boxes s = Map.empty \<and> messages s = Map.empty \<and> acls s = Map.empty
    \<and> list_all2 (\<lambda>q r. 0 \<le> r \<longrightarrow> idle q) qs rs"
  using untouched_run[OF assms] by (simp add: untouched_def mbx_boot_def)

definition demo_heads :: heads where
  "demo_heads = \<lparr>nxt = [Mail \<mapsto> Mail], prv = [Mail \<mapsto> Mail]\<rparr>"

lemma demo_heads_ring: "ptr_ring demo_heads Mail []"
  by (simp add: demo_heads_def ptr_ring_def)

theorem no_mailbox_ever_witness:
  "\<exists>rs s. mbx_run ptr_list (\<lambda>_. []) [Init 0 3 2, Create 0 MAXID, Length 0 5] (mbx_boot demo_heads [])
     = Inr (rs, s) \<and> boxes s = Map.empty \<and> rs = [- EINVAL, - ENOENT, 0]"
proof -
  have walk: "lists s = demo_heads \<Longrightarrow> for_each ptr_list Mail body s = Inr (None, s)"
    for body :: "(int, heads) body" and s
    using ptr.walk_all[of s Mail "[]" body] demo_heads_ring by simp
  define s0 :: "heads mbx" where "s0 = mbx_boot demo_heads []"
  have s0: "MAILBOXC s0 = 0" "lists s0 = demo_heads" by (simp_all add: s0_def mbx_boot_def)
  obtain f where 1: "mbx421_init 0 3 2 s0 = Inr (- EINVAL, say f [] s0)"
    using init_fails[of 0 3 2 s0] s0(1) by auto
  have 2: "mbx421_create ptr_list 0 MAXID s = Inr (- ENOENT, say ''Error: Mailbox has not started'' [] s)"
    if "MAILBOXC s = 0" for s :: "heads mbx"
    using that by (simp add: mbx421_create_def)
  have 3: "mbx421_length ptr_list 0 5 s = Inr (0, s)" if "lists s = demo_heads" for s
    using walk[OF that] by (simp add: mbx421_length_def)
  have "\<exists>s. mbx_run ptr_list (\<lambda>_. []) [Init 0 3 2, Create 0 MAXID, Length 0 5] s0
     = Inr ([- EINVAL, - ENOENT, 0], s)"
    using s0 by (simp add: 1 2 3)
  then obtain s where "mbx_run ptr_list (\<lambda>_. []) [Init 0 3 2, Create 0 MAXID, Length 0 5] s0
     = Inr ([- EINVAL, - ENOENT, 0], s)" ..
  note run = this[unfolded s0_def]
  have "boxes s = Map.empty" using no_mailbox_ever[OF run] by blast
  then show ?thesis using run by blast
qed

text \<open>
  Nobody can send or receive. Both calls require the caller's 32-bit user id to equal the
  mailbox id and the mailbox id to be at least 4611690000000000000, so in any state, started or
  not, each call is refused and changes nothing but the log.
\<close>

theorem send_recv_refused:
  assumes "op = mbx421_send A copied uid i len \<or> op = mbx421_recv A uid i"
  shows "\<exists>r ms. op s = Inr (r, s\<lparr>mlog := mlog s @ ms\<rparr>) \<and> r \<in> {- ENOENT, - EFAULT, - EPERM}"
proof -
  have "ucast uid \<noteq> i" if "\<not> i < MAXID" by (rule user_id_no_mailbox_id[OF that])
  then show ?thesis
    using assms by (auto simp: mbx421_send_def mbx421_recv_def say_def Let_def)
qed

theorem send_recv_refused_witness:
  "\<exists>r ms. mbx421_send ptr_list (\<lambda>_. []) 7 MAXID 3 (mbx_boot demo_heads [])
     = Inr (r, (mbx_boot demo_heads [])\<lparr>mlog := ms\<rparr>) \<and> r \<in> {- ENOENT, - EFAULT, - EPERM}"
  using send_recv_refused[of "mbx421_send ptr_list (\<lambda>_. []) 7 MAXID 3" ptr_list "\<lambda>_. []" 7 MAXID 3
      "mbx_boot demo_heads []"] by (auto simp: mbx_boot_def)

text \<open>A started module with one mailbox, at address 5.\<close>

definition one_heads :: heads where
  "one_heads = \<lparr>nxt = [Mail \<mapsto> BoxNode 5, BoxNode 5 \<mapsto> Mail, BoxMsgs 5 \<mapsto> BoxMsgs 5, BoxAcl 5 \<mapsto> BoxAcl 5],
     prv = [Mail \<mapsto> BoxNode 5, BoxNode 5 \<mapsto> Mail, BoxMsgs 5 \<mapsto> BoxMsgs 5, BoxAcl 5 \<mapsto> BoxAcl 5]\<rparr>"

definition demo_one :: "heads mbx" where
  "demo_one = (mbx_boot one_heads [Some 6])\<lparr>MAILBOXC := 1,
     boxes := [5 \<mapsto> \<lparr>aclC = None, box_id = MAXID, box_count = 0\<rparr>]\<rparr>"

lemma demo_one_facts [simp]:
  "box_list ptr_ring demo_one [5]" "MAILBOXC demo_one = 1" "kmallocs demo_one = [Some 6]"
  "ptr_ring (lists demo_one) (BoxMsgs 5) []" "ptr_ring (lists demo_one) (BoxAcl 5) []"
  "id_of demo_one 5 = MAXID" "boxes demo_one 5 = Some \<lparr>aclC = None, box_id = MAXID, box_count = 0\<rparr>"
  by (simp_all add: demo_one_def box_list_def mbx_boot_def one_heads_def ptr_ring_def id_of_def)

text \<open>
  The first mailbox cannot be created. On a started module with no mailboxes, root's request
  with a valid id fails with \<open>-ENOMEM\<close> whatever \<open>kmalloc\<close> gave: the handler tests its loop
  variable, which is null, and the block just allocated is lost.
\<close>

theorem create_on_empty_fails:
  assumes "kernel_list A ring" "box_list ring s []" "MAILBOXC s \<noteq> 0" "MAXID \<le> i"
  shows "mbx421_create A 0 i s = Inr (- ENOMEM, s\<lparr>kmallocs := tl (kmallocs s), mlog := mlog s @
    [(''Creating mailbox for %lu'', [uint i]),
     (''Error: Unalbe to allocate memory for mailbox'', [])]\<rparr>)"
  by (rule kernel_list.create_empty[OF assms])

theorem create_on_empty_fails_witness:
  "\<exists>s'. mbx421_create ptr_list 0 MAXID ((mbx_boot demo_heads [Some 6])\<lparr>MAILBOXC := 1\<rparr>) = Inr (- ENOMEM, s')"
proof -
  have "box_list ptr_ring ((mbx_boot demo_heads [Some 6])\<lparr>MAILBOXC := 1\<rparr>) []"
    using demo_heads_ring by (simp add: box_list_def mbx_boot_def)
  from create_on_empty_fails[OF ptr.kernel_list_axioms this] show ?thesis
    by auto
qed

text \<open>
  Where there is a mailbox already, root's creation with a valid new id and memory succeeds:
  the mailbox is appended to the list with the id and no messages, its two lists are empty, and
  the other mailboxes are as they were.
\<close>

theorem create_appends_mailbox:
  assumes "kernel_list A ring" "box_list ring s as" "as \<noteq> []" "MAILBOXC s \<noteq> 0" "MAXID \<le> i"
    and "i \<notin> id_of s ` set as" "kmallocs s = Some a # al" "a \<notin> set as"
  shows "\<exists>s'. mbx421_create A 0 i s = Inr (0, s') \<and> box_list ring s' (as @ [a])
    \<and> boxes s' = (boxes s)(a \<mapsto> \<lparr>aclC = None, box_id = i, box_count = 0\<rparr>)
    \<and> ring (lists s') (BoxMsgs a) [] \<and> ring (lists s') (BoxAcl a) []"
  using kernel_list.create_appends[OF assms] by blast

theorem create_appends_mailbox_witness:
  "\<exists>s'. mbx421_create ptr_list 0 (MAXID + 1) demo_one = Inr (0, s') \<and> box_list ptr_ring s' [5, 6]"
  using create_appends_mailbox[OF ptr.kernel_list_axioms, of demo_one "[5]" "MAXID + 1" 6 "[]"]
  by (auto simp: MAXID_def)

text \<open>
  Root's destruction of an id removes the first mailbox with it when that has no messages -
  the list loses exactly this mailbox - and otherwise refuses with \<open>-EINVAL\<close> and keeps it.
\<close>

theorem destroy_removes_mailbox:
  assumes "kernel_list A ring" "box_list ring s (pre @ a # post)" "MAILBOXC s \<noteq> 0"
    and "id_of s a = i" "i \<notin> id_of s ` set pre"
  shows "\<exists>s'. mbx421_destroy A 0 i s = Inr (if box_count (the (boxes s a)) = 0 then 0 else - EINVAL, s')
    \<and> (if box_count (the (boxes s a)) = 0
       then box_list ring s' (pre @ post) \<and> boxes s' = (boxes s)(a := None)
       else box_list ring s' (pre @ a # post) \<and> boxes s' = boxes s)"
  using kernel_list.destroy_removes[OF assms] by blast

theorem destroy_removes_mailbox_witness:
  "\<exists>s'. mbx421_destroy ptr_list 0 MAXID demo_one = Inr (0, s') \<and> box_list ptr_ring s' []"
  using destroy_removes_mailbox[OF ptr.kernel_list_axioms, of demo_one "[]" 5 "[]" MAXID] by auto

text \<open>
  Shutting down with a mailbox in the list crashes: the loop deletes the node it stands on
  and follows the poisoned pointer that \<open>list_del\<close> leaves.
\<close>

theorem shutdown_follows_poison:
  assumes "kernel_list A ring" "box_list ring s (a # as)"
    and "ring (lists s) (BoxMsgs a) ms" "ring (lists s) (BoxAcl a) ps"
    and "set (BoxMsgs a # ms) \<inter> set (BoxAcl a # ps) = {}"
    and "set (Mail # map BoxNode (a # as)) \<inter> set (BoxMsgs a # ms @ BoxAcl a # ps) = {}"
  shows "mbx421_shutdown A 0 s = Inl BadPointer"
  by (rule kernel_list.shutdown_stops[OF assms])

theorem shutdown_follows_poison_witness: "mbx421_shutdown ptr_list 0 demo_one = Inl BadPointer"
  by (rule shutdown_follows_poison[OF ptr.kernel_list_axioms, of _ 5 "[]" "[]" "[]"]) simp_all

text \<open>
  Shutting down without mailboxes reports success but deletes the head of the list itself:
  from then on the count and length queries, which anyone may make, crash.
\<close>

theorem queries_crash_after_shutdown:
  assumes "kernel_list A ring" "box_list ring s []" "op = mbx421_count A uid i \<or> op = mbx421_length A uid i"
  shows "\<exists>s'. mbx421_shutdown A 0 s = Inr (0, s') \<and> op s' = Inl BadPointer"
proof -
  obtain s' where s': "mbx421_shutdown A 0 s = Inr (0, s')" "next_loc A Mail (lists s') = Inr Poison1"
    using kernel_list.shutdown_empty[OF assms(1,2)] by blast
  have "for_each A Mail (count_box uid i) s' = Inl BadPointer"
    "for_each A Mail (length_box A uid i) s' = Inl BadPointer"
    by (rule poisoned_walk[OF s'(2)]; simp add: body_defs)+
  then show ?thesis
    using assms(3) s'(1) by (auto simp: mbx421_count_def mbx421_length_def)
qed

theorem queries_crash_after_shutdown_witness:
  "\<exists>s'. mbx421_shutdown ptr_list 0 (mbx_boot demo_heads []) = Inr (0, s')
    \<and> mbx421_count ptr_list 1000 1000 s' = Inl BadPointer"
  using queries_crash_after_shutdown[OF ptr.kernel_list_axioms, of "mbx_boot demo_heads []"
      "mbx421_count ptr_list 1000 1000" 1000 1000] demo_heads_ring
  by (simp add: box_list_def mbx_boot_def)

end
