(* ===== verification/SkipList.thy ===== *)
theory SkipList
  imports Prelude
begin

text \<open>
  The user-space skip-list prototype of \<^verbatim>\<open>project1/prototype/skipList.c\<close> and \<^verbatim>\<open>skipList.h\<close>. The
  heap maps addresses to lists, nodes, arrays of node pointers and mailboxes; freeing removes an
  address. \<open>malloc\<close> is a parameter: the state holds the answers it will give, in order, an address
  or null. Memory that was allocated but never written reads as \<open>Uninit\<close>.

  Reading of the source where it does not build: \<open>createNode\<close> is declared to return \<open>slist *\<close> but
  builds and returns a \<open>node *\<close>, which is also what its caller stores. \<open>insertKey\<close> walks nodes
  through a \<open>slist *\<close> and makes a height from a pointer; its reading needs the layout of the two
  structures and stands in \<open>SkipList_Insert\<close>.
\<close>

section \<open>State\<close>

record node =
  key :: int
  height :: int
  uid :: int
  start :: int
  nexts :: "nat option"          \<comment> \<open>the field \<open>next\<close>: the address of an array of node pointers\<close>
  mail :: "nat option res"

record slist =
  maxHeight :: int
  chance :: int
  first :: "nat option"          \<comment> \<open>the field \<open>start\<close> of a list\<close>

record mailBox =
  msg :: "nat option"
  nextMail :: "nat option"

record mem =
  nodes :: "nat \<rightharpoonup> node"
  arrays :: "nat \<rightharpoonup> nat option res list"
  slists :: "nat \<rightharpoonup> slist"
  boxes :: "nat \<rightharpoonup> mailBox"
  allocs :: "nat option list"    \<comment> \<open>what \<open>malloc\<close> answers\<close>
  next_random :: u32

definition mem_start :: "nat option list \<Rightarrow> mem" where
  "mem_start al = \<lparr>nodes = Map.empty, arrays = Map.empty, slists = Map.empty, boxes = Map.empty,
     allocs = al, next_random = 9001\<rparr>"

text \<open>A call of \<open>malloc\<close>; a request of a negative number of bytes, read as unsigned, fails.\<close>

definition malloc :: "int \<Rightarrow> mem \<Rightarrow> nat option \<times> mem" where
  "malloc n m =
     (case allocs m of
        [] \<Rightarrow> (None, m)
      | a # al \<Rightarrow> (if n < 0 then None else a, m\<lparr>allocs := al\<rparr>))"

text \<open>A dereference.\<close>

definition deref :: "(nat \<rightharpoonup> 'a) \<Rightarrow> nat option \<Rightarrow> 'a res" where
  "deref h p = (case p of None \<Rightarrow> Inl BadPointer
     | Some a \<Rightarrow> (case h a of None \<Rightarrow> Inl BadPointer | Some x \<Rightarrow> Inr x))"

lemma deref_simps [simp]:
  "deref h None = Inl BadPointer"
  "h a = Some x \<Longrightarrow> deref h (Some a) = Inr x"
  "h a = None \<Longrightarrow> deref h (Some a) = Inl BadPointer"
  by (simp_all add: deref_def)

lemma deref_eq_Inr: "deref h p = Inr x \<longleftrightarrow> (\<exists>a. p = Some a \<and> h a = Some x)"
  by (auto simp: deref_def split: option.splits)

section \<open>Random numbers and heights\<close>

definition get_random_int :: "mem \<Rightarrow> u32 \<times> mem" where
  "get_random_int m =
     (let r = next_random m * 1103515245 + 12345
      in ((r div 65536) mod 32768, m\<lparr>next_random := r\<rparr>))"

definition seed_random :: "u32 \<Rightarrow> mem \<Rightarrow> mem" where
  "seed_random seed m = m\<lparr>next_random := seed\<rparr>"

text \<open>The bound \<open>upHeight\<close> compares with: not set for any other chance.\<close>

definition check_of :: "int \<Rightarrow> int res" where
  "check_of c =
     (if c = 2 then Inr 16383 else if c = 4 then Inr 8191 else if c = 8 then Inr 4095
      else if c = 16 then Inr 2047 else Inl Uninit)"

text \<open>\<open>while (count && chance <= list->maxHeight)\<close>\<close>

function up_loop :: "int \<Rightarrow> int \<Rightarrow> int \<Rightarrow> int res" where
  "up_loop mh count ch =
     (if count \<noteq> 0 \<and> ch \<le> mh
      then (if ch = INT_MAX then Inl Overflow
            else up_loop mh (if count < mh then count + 1 else count) (ch + 1))
      else Inr count)"
  by pat_completeness auto
termination by (relation "measure (\<lambda>(mh, count, ch). nat (mh + 1 - ch))") auto

declare up_loop.simps [simp del]

definition upHeight :: "nat option \<Rightarrow> mem \<Rightarrow> (int \<times> mem) res" where
  "upHeight list m =
     andThen (deref (slists m) list) (\<lambda>l.
     andThen (check_of (chance l)) (\<lambda>check.
     let (r, m) = get_random_int m;
         ch = (if uint r > check then 0 else 1)
     in andThen (up_loop (maxHeight l) 1 ch) (\<lambda>count. Inr (count, m))))"

section \<open>Creation\<close>

definition createMailBox :: "nat option \<Rightarrow> mem \<Rightarrow> (nat option \<times> mem) res" where
  "createMailBox text m =
     (let (p, m) = malloc 16 m in
      case p of
        None \<Rightarrow> Inl BadPointer
      | Some a \<Rightarrow> Inr (Some a, m\<lparr>boxes := (boxes m)(a \<mapsto> \<lparr>msg = text, nextMail = None\<rparr>)\<rparr>))"

text \<open>\<open>for (a = 0; a < height; a++) temp->next[a] = NULL;\<close>\<close>

fun null_next :: "nat \<Rightarrow> nat option res list \<Rightarrow> nat option res list res" where
  "null_next 0 xs = Inr xs"
| "null_next (Suc n) xs = andThen (null_next n xs) (\<lambda>ys. aset ys (int n) (Inr None))"

text \<open>
  The array is allocated with the size of a node, 32 bytes, for each pointer: room for four
  times as many pointers.
\<close>

definition createNode :: "int \<Rightarrow> int \<Rightarrow> int \<Rightarrow> int \<Rightarrow> mem \<Rightarrow> (nat option \<times> mem) res" where
  "createNode st k h u m =
     (let (p, m) = malloc 32 m in
      case p of
        None \<Rightarrow> Inl BadPointer
      | Some a \<Rightarrow>
          (let (q, m) = malloc (h * 32) m in
           andThen
             (case q of
                None \<Rightarrow> if 0 < h then Inl BadPointer else Inr m
              | Some b \<Rightarrow>
                  andThen (null_next (nat h) (replicate (4 * nat h) (Inl Uninit))) (\<lambda>xs.
                  Inr (m\<lparr>arrays := (arrays m)(b \<mapsto> xs)\<rparr>)))
             (\<lambda>m. Inr (Some a, m\<lparr>nodes := (nodes m)(a \<mapsto>
                \<lparr>key = k, height = h, uid = u, start = st, nexts = q, mail = Inl Uninit\<rparr>)\<rparr>))))"

definition createSkipList :: "int \<Rightarrow> int \<Rightarrow> mem \<Rightarrow> (nat option \<times> mem) res" where
  "createSkipList mh ch m =
     (let (p, m) = malloc 16 m in
      case p of
        None \<Rightarrow> Inl BadPointer
      | Some a \<Rightarrow>
          andThen (createNode 1 (- 1) mh 0 m) (\<lambda>(q, m).
          Inr (Some a, m\<lparr>slists := (slists m)(a \<mapsto> \<lparr>maxHeight = mh, chance = ch, first = q\<rparr>)\<rparr>)))"

section \<open>Search and deletion\<close>

text \<open>\<open>temp->next[i]\<close>\<close>

definition next_of :: "mem \<Rightarrow> node \<Rightarrow> int \<Rightarrow> nat option res" where
  "next_of m n i = andThen (deref (arrays m) (nexts n)) (\<lambda>xs. andThen (aget xs i) id)"

partial_function (option) search_from ::
  "mem \<Rightarrow> int \<Rightarrow> int \<Rightarrow> nat option \<Rightarrow> nat option res option" where
  "search_from m k h temp =
     (case temp of
        None \<Rightarrow> Some (Inr None)
      | Some a \<Rightarrow>
          (case deref (nodes m) temp of
             Inl e \<Rightarrow> Some (Inl e)
           | Inr n \<Rightarrow>
               if key n = k then Some (Inr temp)
               else if key n > k then
                 (if h = 1 then Some (Inr None)
                  else if h = INT_MIN then Some (Inl Overflow)
                  else search_from m k (h - 1) temp)
               else
                 (case next_of m n 0 of
                    Inl e \<Rightarrow> Some (Inl e)
                  | Inr None \<Rightarrow> Some (Inr None)
                  | Inr (Some b) \<Rightarrow> search_from m k h (Some b))))"

declare search_from.simps [code]

definition skipSearch :: "nat option \<Rightarrow> int \<Rightarrow> mem \<Rightarrow> nat option res option" where
  "skipSearch list k m =
     (case deref (slists m) list of
        Inl e \<Rightarrow> Some (Inl e)
      | Inr l \<Rightarrow> if maxHeight l = INT_MIN then Some (Inl Overflow)
                 else search_from m k (maxHeight l - 1) (first l))"

definition free_array :: "nat option \<Rightarrow> mem \<Rightarrow> mem res" where
  "free_array p m =
     (case p of
        None \<Rightarrow> Inr m
      | Some a \<Rightarrow> if a \<in> dom (arrays m) then Inr (m\<lparr>arrays := (arrays m)(a := None)\<rparr>)
                  else Inl BadPointer)"

definition free_node :: "nat \<Rightarrow> mem \<Rightarrow> mem" where
  "free_node a m = m\<lparr>nodes := (nodes m)(a := None)\<rparr>"

text \<open>The loop of \<open>deleteSkip\<close>; the store of a null pointer into a node freed two lines on is
  part of the freed node.\<close>

partial_function (option) delete_from :: "nat option \<Rightarrow> mem \<Rightarrow> mem res option" where
  "delete_from temp m =
     (case temp of
        None \<Rightarrow> Some (Inr m)
      | Some a \<Rightarrow>
          (case andThen (deref (nodes m) temp) (\<lambda>n.
                andThen (next_of m n 0) (\<lambda>nx.
                andThen (free_array (nexts n) m) (\<lambda>m. Inr (nx, free_node a m)))) of
             Inl e \<Rightarrow> Some (Inl e)
           | Inr (nx, m) \<Rightarrow> delete_from nx m))"

declare delete_from.simps [code]

definition deleteSkip :: "nat option \<Rightarrow> mem \<Rightarrow> mem res option" where
  "deleteSkip list m =
     (case deref (slists m) list of
        Inl e \<Rightarrow> Some (Inl e)
      | Inr l \<Rightarrow>
          (case delete_from (first l) m of
             None \<Rightarrow> None
           | Some r \<Rightarrow> Some (andThen r (\<lambda>m.
               Inr (m\<lparr>slists := (slists m)(the list := None)\<rparr>)))))"

text \<open>\<open>deleteKey\<close> prints that it is not implemented and changes nothing; the program's \<open>main\<close>
  returns 0.\<close>

definition deleteKey :: "nat option \<Rightarrow> int \<Rightarrow> int \<Rightarrow> mem \<Rightarrow> string list \<times> mem" where
  "deleteKey list k u m = ([''deleteKey is not implmented''], m)"

section \<open>Chains\<close>

text \<open>The nodes met from a pointer by following the bottom level to its end.\<close>

fun chain :: "mem \<Rightarrow> nat option \<Rightarrow> nat list \<Rightarrow> bool" where
  "chain m p [] \<longleftrightarrow> p = None"
| "chain m p (a # as) \<longleftrightarrow> p = Some a \<and>
     (\<exists>n q. nodes m a = Some n \<and> next_of m n 0 = Inr q \<and> chain m q as)"

definition key_of :: "mem \<Rightarrow> nat \<Rightarrow> int" where
  "key_of m a = key (the (nodes m a))"

definition array_of :: "mem \<Rightarrow> nat \<Rightarrow> nat" where
  "array_of m a = the (nexts (the (nodes m a)))"

lemma search_descends:
  assumes "nodes m a = Some n" "k < key n" "1 \<le> h"
  shows "search_from m k h (Some a) = Some (Inr None)"
  using assms(3)
proof (induction "nat (h - 1)" arbitrary: h)
  case 0
  then show ?case using assms by (subst search_from.simps) simp
next
  case (Suc x)
  then show ?case using assms Suc(1)[of "h - 1"]
    by (subst search_from.simps) (simp add: INT_MIN_def)
qed

lemma search_falls:
  assumes "nodes m a = Some n" "k < key n" "INT_MIN \<le> h" "h \<le> 0"
  shows "search_from m k h (Some a) = Some (Inl Overflow)"
  using assms(3,4)
proof (induction "nat (h - INT_MIN)" arbitrary: h)
  case 0
  then show ?case using assms by (subst search_from.simps) simp
next
  case (Suc x)
  then show ?case using assms Suc(1)[of "h - 1"]
    by (subst search_from.simps) simp
qed

text \<open>What the search does at the first node whose key is not smaller.\<close>

lemma chain_node: "chain m p as \<Longrightarrow> a \<in> set as \<Longrightarrow> \<exists>n. nodes m a = Some n"
  by (induction as arbitrary: p) auto

lemma find_mem: "List.find P xs = Some x \<Longrightarrow> x \<in> set xs \<and> P x"
  by (auto simp: find_Some_iff)

lemma search_hit: "nodes m a = Some n \<Longrightarrow> key n = k \<Longrightarrow> search_from m k h (Some a) = Some (Inr (Some a))"
  by (subst search_from.simps) simp

lemma search_from_chain:
  assumes "chain m p as"
  shows "search_from m k h p =
    (case List.find (\<lambda>a. k \<le> key_of m a) as of
       None \<Rightarrow> Some (Inr None)
     | Some a \<Rightarrow> if key_of m a = k then Some (Inr (Some a)) else search_from m k h (Some a))"
  using assms
proof (induction as arbitrary: p)
  case Nil
  then show ?case by (subst search_from.simps) simp
next
  case (Cons a as)
  then obtain n q where n: "p = Some a" "nodes m a = Some n" "next_of m n 0 = Inr q" "chain m q as"
    by auto
  then have k: "key_of m a = key n" by (simp add: key_of_def)
  show ?case
  proof (cases "k \<le> key n")
    case True
    then show ?thesis using n k search_hit by auto
  next
    case False
    have step: "search_from m k h p = search_from m k h q"
      using n False by (subst search_from.simps, cases q) (simp_all, subst search_from.simps, simp)
    show ?thesis
      unfolding step Cons.IH[OF n(4)] using False k by simp
  qed
qed

lemma skipSearch_chain:
  assumes "deref (slists m) list = Inr l" "chain m (first l) as" "INT_MIN < maxHeight l"
  shows "skipSearch list k m =
    (case List.find (\<lambda>a. k \<le> key_of m a) as of
       None \<Rightarrow> Some (Inr None)
     | Some a \<Rightarrow>
         if key_of m a = k then Some (Inr (Some a))
         else if 2 \<le> maxHeight l then Some (Inr None) else Some (Inl Overflow))"
proof (cases "List.find (\<lambda>a. k \<le> key_of m a) as")
  case None
  then show ?thesis
    using assms search_from_chain[OF assms(2)] by (auto simp: skipSearch_def)
next
  case (Some a)
  then obtain n where n: "nodes m a = Some n" "k \<le> key_of m a" "key_of m a = key n"
    using find_mem chain_node[OF assms(2)] by (fastforce simp: key_of_def)
  show ?thesis
    using assms search_from_chain[OF assms(2)] Some n
      search_descends[OF n(1), of k "maxHeight l - 1"] search_falls[OF n(1), of k "maxHeight l - 1"]
    by (auto simp: skipSearch_def)
qed

lemma find_sorted:
  assumes "sorted_wrt (\<lambda>a b. f a < f b) as"
  shows "List.find (\<lambda>a. f a = k) as =
    (case List.find (\<lambda>a. (k :: int) \<le> f a) as of
       None \<Rightarrow> None | Some a \<Rightarrow> if f a = k then Some a else None)"
  using assms
proof (induction as)
  case (Cons a as)
  have "List.find (\<lambda>a. f a = k) as = None" if "k < f a"
    using Cons.prems that by (auto simp: find_None_iff)
  then show ?case
    using Cons by (auto split: option.splits)
qed simp

section \<open>Freeing a chain\<close>

definition unlinked :: "nat list \<Rightarrow> mem \<Rightarrow> mem" where
  "unlinked as m = m\<lparr>nodes := nodes m |` (- set as), arrays := arrays m |` (- array_of m ` set as)\<rparr>"

lemma chain_cong:
  assumes "\<And>a. a \<in> set as \<Longrightarrow> nodes m' a = nodes m a"
    "\<And>a. a \<in> set as \<Longrightarrow> arrays m' (array_of m a) = arrays m (array_of m a)"
    "chain m p as"
  shows "chain m' p as"
  using assms
proof (induction as arbitrary: p)
  case (Cons a as)
  then obtain n q where n: "p = Some a" "nodes m a = Some n" "next_of m n 0 = Inr q" "chain m q as"
    by auto
  have "next_of m' n 0 = Inr q"
    using n Cons.prems(2)[of a] unfolding next_of_def
    by (cases "nexts n") (simp_all add: array_of_def deref_def)
  then show ?case using n Cons by auto
qed simp

lemma delete_from_chain:
  assumes "chain m p as" "distinct as" "distinct (map (array_of m) as)"
  shows "delete_from p m = Some (Inr (unlinked as m))"
  using assms
proof (induction as arbitrary: p m)
  case Nil
  then show ?case by (subst delete_from.simps) (simp add: unlinked_def restrict_map_def)
next
  case (Cons a as)
  then obtain n q where n: "p = Some a" "nodes m a = Some n" "next_of m n 0 = Inr q" "chain m q as"
    by auto
  then obtain b xs where b: "nexts n = Some b" "arrays m b = Some xs"
    by (auto simp: next_of_def andThen_eq_Inr deref_eq_Inr)
  then have ab: "array_of m a = b" using n by (simp add: array_of_def)
  define m1 where "m1 = free_node a (m\<lparr>arrays := (arrays m)(b := None)\<rparr>)"
  have same: "nodes m1 c = nodes m c" "array_of m1 c = array_of m c" if "c \<noteq> a" for c
    using that by (simp_all add: m1_def free_node_def array_of_def)
  have "b \<notin> array_of m ` set as" "a \<notin> set as"
    using Cons.prems(2,3) ab by auto
  then have other: "c \<noteq> a" "array_of m c \<noteq> b" if "c \<in> set as" for c
    using that by blast+
  have "chain m1 q as"
  proof (rule chain_cong[OF _ _ n(4)])
    fix c assume "c \<in> set as"
    then show "nodes m1 c = nodes m c" "arrays m1 (array_of m c) = arrays m (array_of m c)"
      using other same by (simp_all add: m1_def free_node_def)
  qed
  moreover have eq: "map (array_of m1) as = map (array_of m) as"
    using other same by simp
  ultimately have "delete_from q m1 = Some (Inr (unlinked as m1))"
    using Cons.prems(2,3) by (intro Cons.IH) (simp_all only: eq, simp_all)
  moreover have "unlinked as m1 = unlinked (a # as) m"
  proof -
    have "array_of m1 ` set as = array_of m ` set as"
      using eq by (metis set_map)
    then show ?thesis
      by (auto simp: unlinked_def m1_def free_node_def ab restrict_map_def fun_eq_iff
          simp del: fun_upd_apply) (auto simp: fun_eq_iff)
  qed
  ultimately show ?case
    using n b by (subst delete_from.simps) (simp add: free_array_def dom_def m1_def[symmetric])
qed

section \<open>Properties\<close>

lemma up_loop_result:
  assumes "1 \<le> c" "c \<le> mh" "mh < INT_MAX" "mh \<le> c + (mh + 1 - ch)" 
  shows "up_loop mh c ch = Inr (if ch \<le> mh then mh else c)"
  using assms
proof (induction mh c ch rule: up_loop.induct)
  case (1 mh count ch)
  then show ?case
    by (subst up_loop.simps) auto
qed

text \<open>A list of two levels after its sentinel, with the keys 3 and 8 inserted by hand.\<close>

definition demo_node :: "int \<Rightarrow> nat \<Rightarrow> node" where
  "demo_node k b = \<lparr>key = k, height = 2, uid = 0, start = 0, nexts = Some b, mail = Inl Uninit\<rparr>"

definition demo_mem :: "int \<Rightarrow> mem" where
  "demo_mem mh = (mem_start [])\<lparr>
     slists := [9 \<mapsto> \<lparr>maxHeight = mh, chance = 4, first = Some 1\<rparr>],
     nodes := [1 \<mapsto> demo_node (- 1) 11, 2 \<mapsto> demo_node 3 12, 3 \<mapsto> demo_node 8 13],
     arrays := [11 \<mapsto> [Inr (Some 2)], 12 \<mapsto> [Inr (Some 3)], 13 \<mapsto> [Inr None]]\<rparr>"

lemma demo_chain: "chain (demo_mem mh) (Some 1) [1, 2, 3]"
  by (simp add: demo_mem_def demo_node_def next_of_def)

lemma demo_list: "deref (slists (demo_mem mh)) (Some 9) =
    Inr \<lparr>maxHeight = mh, chance = 4, first = Some 1\<rparr>"
  by (simp add: demo_mem_def)

lemma demo_keys: "map (key_of (demo_mem mh)) [1, 2, 3] = [- 1, 3, 8]"
  "map (array_of (demo_mem mh)) [1, 2, 3] = [11, 12, 13]"
  by (simp_all add: key_of_def array_of_def demo_mem_def demo_node_def)

text \<open>
  C31: on a list of height at least 2 whose keys ascend, \<open>skipSearch\<close> is a linear search of the
  bottom level: it returns the node with the key, or null when there is none.
\<close>

theorem skipSearch_is_linear_search:
  assumes "deref (slists m) list = Inr l" "chain m (first l) as"
    and "2 \<le> maxHeight l" "sorted_wrt (\<lambda>a b. key_of m a < key_of m b) as"
  shows "skipSearch list k m = Some (Inr (List.find (\<lambda>a. key_of m a = k) as))"
proof -
  have mh: "INT_MIN < maxHeight l" using assms(3) by (simp add: INT_MIN_def)
  show ?thesis
    unfolding skipSearch_chain[OF assms(1,2) mh] find_sorted[OF assms(4)]
    using assms(3) by (auto split: option.splits)
qed

theorem skipSearch_is_linear_search_witness:
  "skipSearch (Some 9) 8 (demo_mem 2) = Some (Inr (Some 3))
   \<and> skipSearch (Some 9) 5 (demo_mem 2) = Some (Inr None)"
  using skipSearch_is_linear_search[OF demo_list, of 2 "[1, 2, 3]" 8]
    skipSearch_is_linear_search[OF demo_list, of 2 "[1, 2, 3]" 5] demo_chain[of 2] demo_keys(1)[of 2]
  by simp

text \<open>
  On a list of height 1 a search for an absent key that some node's key exceeds never
  reaches the level the loop stops at: it counts the level down from 0 until the subtraction
  overflows.
\<close>

theorem skipSearch_height_one:
  assumes "deref (slists m) list = Inr l" "chain m (first l) as" "maxHeight l = 1"
    and "List.find (\<lambda>a. k \<le> key_of m a) as = Some a" "key_of m a \<noteq> k"
  shows "skipSearch list k m = Some (Inl Overflow)"
  using skipSearch_chain[OF assms(1,2)] assms(3-) by (simp add: INT_MIN_def)

theorem skipSearch_height_one_witness: "skipSearch (Some 9) 5 (demo_mem 1) = Some (Inl Overflow)"
  using skipSearch_height_one[OF demo_list, of 1 "[1, 2, 3]" 5 3] demo_chain[of 1] demo_keys(1)[of 1]
  by simp

text \<open>
  \<open>deleteSkip\<close> on a list whose nodes own their pointer arrays returns, and has freed exactly
  the nodes of the bottom level, their arrays and the list; nothing is freed twice.
\<close>

theorem deleteSkip_frees_chain:
  assumes "slists m a = Some l" "chain m (first l) as"
    and "distinct as" "distinct (map (array_of m) as)"
  shows "deleteSkip (Some a) m = Some (Inr (m\<lparr>
      nodes := nodes m |` (- set as), arrays := arrays m |` (- array_of m ` set as),
      slists := (slists m)(a := None)\<rparr>))"
  using delete_from_chain[OF assms(2-4)] assms(1)
  by (simp add: deleteSkip_def unlinked_def)

theorem deleteSkip_frees_chain_witness:
  "\<exists>m'. deleteSkip (Some 9) (demo_mem 2) = Some (Inr m') \<and> nodes m' 2 = None \<and> slists m' 9 = None"
proof -
  have "slists (demo_mem 2) 9 = Some \<lparr>maxHeight = 2, chance = 4, first = Some 1\<rparr>"
    by (simp add: demo_mem_def)
  then show ?thesis
    using deleteSkip_frees_chain[of "demo_mem 2" 9 _ "[1, 2, 3]"] demo_chain[of 2] demo_keys(2)[of 2]
    by simp
qed

text \<open>
  The height \<open>upHeight\<close> draws for a new node is not random: whatever the generator
  returns, it is the list's maximum.
\<close>

theorem upHeight_always_max:
  assumes "deref (slists m) list = Inr l" "chance l \<in> {2, 4, 8, 16}"
    and "1 \<le> maxHeight l" "maxHeight l < INT_MAX"
  shows "upHeight list m = Inr (maxHeight l, snd (get_random_int m))"
proof -
  have "up_loop (maxHeight l) 1 c = Inr (maxHeight l)" if "c = 0 \<or> c = 1" for c
    using up_loop_result[of 1 "maxHeight l" c] assms(3,4) that by auto
  moreover have "\<exists>ck. check_of (chance l) = Inr ck"
    using assms(2) by (auto simp: check_of_def)
  ultimately show ?thesis
    using assms(1) by (auto simp: upHeight_def case_prod_beta Let_def)
qed

theorem upHeight_always_max_witness:
  "\<forall>seed. fst (projr (upHeight (Some 9) (seed_random seed (demo_mem 5)))) = 5"
proof
  fix seed
  have "deref (slists (seed_random seed (demo_mem 5))) (Some 9) =
      Inr \<lparr>maxHeight = 5, chance = 4, first = Some 1\<rparr>"
    using demo_list by (simp add: seed_random_def)
  then show "fst (projr (upHeight (Some 9) (seed_random seed (demo_mem 5)))) = 5"
    using upHeight_always_max by (simp add: INT_MAX_def)
qed

lemma get_random_int_lt: "fst (get_random_int m) < 32768"
  by (simp add: get_random_int_def Let_def word_mod_less_divisor)

lemma null_next_result:
  "n \<le> length xs \<Longrightarrow> null_next n xs = Inr (replicate n (Inr None) @ drop n xs)"
proof (induction n arbitrary: xs)
  case (Suc n)
  then show ?case
    by (simp add: list_update_append upd_conv_take_nth_drop Cons_nth_drop_Suc[symmetric]
        replicate_append_same)
qed simp

text \<open>
  \<open>createSkipList\<close>, given memory, returns a list that holds just the sentinel, with the key
  -1; the sentinel's array has a null pointer for each level.
\<close>

theorem createSkipList_sentinel:
  assumes "allocs m = Some a # Some b # Some c # al" "1 \<le> mh"
  shows "\<exists>m'. createSkipList mh ch m = Inr (Some a, m')
    \<and> deref (slists m') (Some a) = Inr \<lparr>maxHeight = mh, chance = ch, first = Some b\<rparr>
    \<and> chain m' (Some b) [b] \<and> key_of m' b = - 1
    \<and> (\<forall>i. 0 \<le> i \<and> i < mh \<longrightarrow> next_of m' (the (nodes m' b)) i = Inr None)"
proof -
  define xs where "xs = replicate (nat mh) (Inr None) @ replicate (3 * nat mh) (Inl Uninit :: nat option res)"
  define nd where "nd = \<lparr>key = - 1, height = mh, uid = 0, start = 1, nexts = Some c, mail = Inl Uninit\<rparr>"
  define m1 where "m1 = m\<lparr>allocs := al, arrays := (arrays m)(c \<mapsto> xs), nodes := (nodes m)(b \<mapsto> nd),
    slists := (slists m)(a \<mapsto> \<lparr>maxHeight = mh, chance = ch, first = Some b\<rparr>)\<rparr>"
  have null: "null_next (nat mh) (replicate (4 * nat mh) (Inl Uninit)) = Inr xs"
    by (simp add: null_next_result xs_def)
  have run: "createSkipList mh ch m = Inr (Some a, m1)"
    using assms by (simp add: createSkipList_def createNode_def malloc_def null m1_def nd_def)
  have get: "next_of m1 nd i = Inr None" if "0 \<le> i" "i < mh" for i
    using that by (simp add: next_of_def nd_def m1_def xs_def nth_append nat_less_iff)
  have "nodes m1 b = Some nd" by (simp add: m1_def)
  moreover have "chain m1 (Some b) [b]"
    using get[of 0] assms(2) by (simp add: m1_def)
  ultimately show ?thesis
    using run get by (intro exI[of _ m1]) (simp add: key_of_def, simp add: m1_def nd_def)
qed

theorem createSkipList_sentinel_witness:
  "\<exists>m'. createSkipList 4 2 (mem_start [Some 7, Some 8, Some 9]) = Inr (Some 7, m')
    \<and> chain m' (Some 8) [8]"
proof -
  have "allocs (mem_start [Some 7, Some 8, Some 9]) = [Some 7, Some 8, Some 9]"
    by (simp add: mem_start_def)
  then show ?thesis
    using createSkipList_sentinel[of "mem_start [Some 7, Some 8, Some 9]" 7 8 9 "[]" 4 2] by fastforce
qed

end
