(* ===== verification/SkipList_Insert.thy ===== *)
theory SkipList_Insert
  imports SkipList
begin

text \<open>
  \<open>insertKey\<close> of \<^verbatim>\<open>project1/prototype/skipList.c\<close>, read as the compiler reads it for 64-bit
  little-endian Linux. The function walks the nodes of a list through pointers of type
  \<open>slist *\<close>; the fields of a list are then the bytes a node has at the same offsets:

    \<^item> \<open>maxHeight\<close>, bytes 0 to 3, is the \<open>key\<close> of the node, and \<open>chance\<close>, bytes 4 to 7, its \<open>height\<close>;
    \<^item> the pointer \<open>start\<close>, bytes 8 to 15, is made of its \<open>uid\<close> and, above it, its \<open>start\<close>.

  So \<open>temp->start->next\<close> follows a pointer whose bits are two integers of the node. The level the
  walk begins at is a pointer too: the list's first node, less the 32 bytes of one node, cut to
  an \<open>int\<close>. The array \<open>last\<close> is allocated, written and freed in the heap of \<open>SkipList\<close>.
\<close>

section \<open>A node seen as a list\<close>

definition as_slist :: "node \<Rightarrow> slist" where
  "as_slist n =
     (let w = (word_cat (word_of_int (start n) :: u32) (word_of_int (uid n) :: u32) :: u64)
      in \<lparr>maxHeight = key n, chance = height n, first = (if w = 0 then None else Some (unat w))\<rparr>)"

text \<open>\<open>(int) (p - 1)\<close> for a pointer to a node.\<close>

definition node_before :: "nat option \<Rightarrow> int" where
  "node_before p = sint (word_of_int ((case p of None \<Rightarrow> 0 | Some a \<Rightarrow> int a) - 32) :: u32)"

text \<open>A load and a store of \<open>p[i]\<close> in an array of pointers.\<close>

definition load :: "mem \<Rightarrow> nat option \<Rightarrow> int \<Rightarrow> nat option res" where
  "load m p i = andThen (deref (arrays m) p) (\<lambda>xs. andThen (aget xs i) id)"

definition store :: "mem \<Rightarrow> nat option \<Rightarrow> int \<Rightarrow> nat option \<Rightarrow> mem res" where
  "store m p i v =
     andThen (deref (arrays m) p) (\<lambda>xs.
     andThen (aset xs i (Inr v)) (\<lambda>xs. Inr (m\<lparr>arrays := (arrays m)(the p \<mapsto> xs)\<rparr>)))"

text \<open>\<open>temp->start->next\<close> for a \<open>temp\<close> that is a node, then its element \<open>i\<close>, read and written.\<close>

definition start_next :: "mem \<Rightarrow> nat option \<Rightarrow> nat option res" where
  "start_next m p =
     andThen (deref (nodes m) p) (\<lambda>n.
     andThen (deref (nodes m) (first (as_slist n))) (\<lambda>s. Inr (nexts s)))"

definition get_next :: "mem \<Rightarrow> nat option \<Rightarrow> int \<Rightarrow> nat option res" where
  "get_next m p i = andThen (start_next m p) (\<lambda>q. load m q i)"

definition set_next :: "mem \<Rightarrow> nat option \<Rightarrow> int \<Rightarrow> nat option \<Rightarrow> mem res" where
  "set_next m p i v = andThen (start_next m p) (\<lambda>q. store m q i v)"

section \<open>The insertion\<close>

text \<open>\<open>for (a = 0; a < list->maxHeight; a++) last[a] = list->start;\<close>\<close>

fun fill_last :: "nat option \<Rightarrow> nat option \<Rightarrow> nat \<Rightarrow> mem \<Rightarrow> mem res" where
  "fill_last lst p 0 m = Inr m"
| "fill_last lst p (Suc a) m = andThen (fill_last lst p a m) (\<lambda>m. store m lst (int a) p)"

text \<open>\<open>for (a = 0; a < height; a++)\<close>: the pointers of the new node.\<close>

fun connect_new :: "nat option \<Rightarrow> nat option \<Rightarrow> nat \<Rightarrow> mem \<Rightarrow> mem res" where
  "connect_new lst new 0 m = Inr m"
| "connect_new lst new (Suc a) m =
     andThen (connect_new lst new a m) (\<lambda>m.
     andThen (load m lst (int a)) (\<lambda>la.
     andThen (get_next m la 0) (\<lambda>nx.
     if nx = None then set_next m new (int a) None
     else andThen (get_next m la (int a)) (\<lambda>q. set_next m new (int a) q))))"

text \<open>\<open>for (a = 0; a < list->maxHeight; a++) last[a]->start->next[a] = new;\<close>\<close>

fun connect_old :: "nat option \<Rightarrow> nat option \<Rightarrow> nat \<Rightarrow> mem \<Rightarrow> mem res" where
  "connect_old lst new 0 m = Inr m"
| "connect_old lst new (Suc a) m =
     andThen (connect_old lst new a m) (\<lambda>m.
     andThen (load m lst (int a)) (\<lambda>la. set_next m la (int a) new))"

definition insert_here :: "nat option \<Rightarrow> int \<Rightarrow> int \<Rightarrow> nat option \<Rightarrow> mem \<Rightarrow> mem res" where
  "insert_here list k u lst m =
     andThen (upHeight list m) (\<lambda>(h, m).
     andThen (createNode 0 k h u m) (\<lambda>(new, m).
     andThen (connect_new lst new (nat h) m) (\<lambda>m.
     andThen (deref (slists m) list) (\<lambda>l. connect_old lst new (nat (maxHeight l)) m))))"

text \<open>
  The loop. \<open>temp > 0\<close> compares the pointer with null. There is no branch for a key that is
  already there: nothing changes and the loop goes round again.
\<close>

partial_function (option) insert_from ::
  "nat option \<Rightarrow> int \<Rightarrow> int \<Rightarrow> nat option \<Rightarrow> nat option \<Rightarrow> int \<Rightarrow> mem \<Rightarrow> mem res option" where
  "insert_from list k u lst temp cur m =
     (case temp of
        None \<Rightarrow> Some (Inr m)
      | Some a \<Rightarrow>
          (case get_next m temp cur of
             Inl e \<Rightarrow> Some (Inl e)
           | Inr None \<Rightarrow>
               (case store m lst cur temp of
                  Inl e \<Rightarrow> Some (Inl e)
                | Inr m \<Rightarrow>
                    if 0 < a then insert_from list k u lst temp (cur - 1) m
                    else Some (insert_here list k u lst m))
           | Inr (Some b) \<Rightarrow>
               (case deref (nodes m) (Some b) of
                  Inl e \<Rightarrow> Some (Inl e)
                | Inr n \<Rightarrow>
                    if k < key n then
                      (case store m lst cur temp of
                         Inl e \<Rightarrow> Some (Inl e)
                       | Inr m \<Rightarrow>
                           if cur > 0 then insert_from list k u lst temp (cur - 1) m
                           else Some (insert_here list k u lst m))
                    else if k > key n then
                      (case store m lst cur (Some b) of
                         Inl e \<Rightarrow> Some (Inl e)
                       | Inr m \<Rightarrow> insert_from list k u lst (Some b) cur m)
                    else insert_from list k u lst temp cur m)))"

declare insert_from.simps [code]

definition alloc_last :: "int \<Rightarrow> mem \<Rightarrow> nat option \<times> mem" where
  "alloc_last mh m =
     (let (lst, m) = malloc (mh * 32) m
      in (lst, case lst of None \<Rightarrow> m
               | Some b \<Rightarrow> m\<lparr>arrays := (arrays m)(b \<mapsto> replicate (4 * nat mh) (Inl Uninit))\<rparr>))"

definition insertKey :: "nat option \<Rightarrow> int \<Rightarrow> int \<Rightarrow> mem \<Rightarrow> mem res option" where
  "insertKey list k u m =
     (case deref (slists m) list of
        Inl e \<Rightarrow> Some (Inl e)
      | Inr l \<Rightarrow>
          (let (lst, m) = alloc_last (maxHeight l) m in
           case fill_last lst (first l) (nat (maxHeight l)) m of
             Inl e \<Rightarrow> Some (Inl e)
           | Inr m \<Rightarrow>
               (case insert_from list k u lst (first l) (node_before (first l)) m of
                  None \<Rightarrow> None
                | Some r \<Rightarrow> Some (andThen r (free_array lst)))))"

text \<open>The program's \<open>main\<close>; the test in it is commented out.\<close>

definition main_skipList :: "mem \<Rightarrow> int \<times> mem" where
  "main_skipList m = (0, m)"

section \<open>What the steps keep\<close>

lemma load_next_of: "load m (nexts n) i = next_of m n i"
  by (simp add: load_def next_of_def)

lemma store_Inr:
  "store m p i v = Inr m' \<Longrightarrow> \<exists>b xs. p = Some b \<and> arrays m b = Some xs \<and> 0 \<le> i \<and> i < int (length xs)
     \<and> m' = m\<lparr>arrays := (arrays m)(b \<mapsto> xs[nat i := Inr v])\<rparr>"
  by (auto simp: store_def andThen_eq_Inr deref_eq_Inr aset_def split: if_splits)

lemma store_nodes: "store m p i v = Inr m' \<Longrightarrow> nodes m' = nodes m"
  by (auto dest: store_Inr)

lemma alloc_last_keeps:
  "alloc_last mh m = (lst, m') \<Longrightarrow> nodes m' = nodes m \<and> slists m' = slists m"
  by (auto simp: alloc_last_def malloc_def Let_def split: list.splits option.splits if_splits)

lemma fill_last_nodes: "fill_last lst p n m = Inr m' \<Longrightarrow> nodes m' = nodes m"
  by (induction n arbitrary: m') (auto simp: andThen_eq_Inr dest!: store_nodes)

lemma fill_last_null: "fill_last None p (Suc n) m = Inl BadPointer"
  by (induction n) (simp_all add: store_def)

lemma fill_last_fits:
  assumes "arrays m b = Some xs" "n \<le> length xs"
  shows "\<exists>m' ys. fill_last (Some b) p n m = Inr m' \<and> arrays m' b = Some ys \<and> length ys = length xs"
  using assms(2)
proof (induction n)
  case (Suc n)
  then obtain m' ys where "fill_last (Some b) p n m = Inr m'" "arrays m' b = Some ys"
    "length ys = length xs"
    by auto
  then show ?case using Suc.prems by (simp add: store_def)
qed (use assms in simp)

lemma fill_last_alloc:
  assumes "alloc_last mh m = (lst, m1)" "1 \<le> mh"
  shows "fill_last lst p (nat mh) m1 = Inl BadPointer \<or> (\<exists>m2. fill_last lst p (nat mh) m1 = Inr m2)"
proof (cases lst)
  case None
  obtain n where "nat mh = Suc n" using assms(2) by (cases "nat mh") simp_all
  then show ?thesis using fill_last_null None by simp
next
  case (Some b)
  then have "arrays m1 b = Some (replicate (4 * nat mh) (Inl Uninit))"
    using assms(1) by (auto simp: alloc_last_def Let_def split: prod.splits option.splits)
  then show ?thesis using fill_last_fits[of m1 b _ "nat mh" p] Some by fastforce
qed

section \<open>Properties\<close>

text \<open>A node that \<open>createSkipList\<close> puts first has the pointer \<^verbatim>\<open>0x100000000\<close> where a list has its start.\<close>

lemma sentinel_start: "first (as_slist \<lparr>key = k, height = h, uid = 0, start = 1, nexts = p, mail = b\<rparr>) = Some (2 ^ 32)"
  by (simp add: as_slist_def Let_def word_cat_eq push_bit_eq_mult)

lemma createSkipList_shape:
  assumes "createSkipList mh ch m = Inr (list, m1)"
  obtains a b n where "list = Some a" "slists m1 a = Some \<lparr>maxHeight = mh, chance = ch, first = Some b\<rparr>"
    "nodes m1 b = Some n" "first (as_slist n) = Some (2 ^ 32)"
  using assms
  by (auto simp: createSkipList_def createNode_def andThen_eq_Inr Let_def sentinel_start
      split: prod.splits option.splits if_splits)

text \<open>
  C34: no key can be inserted into a list that \<open>createSkipList\<close> has made: unless a node happens to lie
  at address \<^verbatim>\<open>0x100000000\<close>, \<open>insertKey\<close> follows a bad pointer before it has done anything.
\<close>

theorem insert_into_new_list_faults:
  assumes "createSkipList mh ch m = Inr (list, m1)" "1 \<le> mh" "nodes m1 (2 ^ 32) = None"
  shows "insertKey list k u m1 = Some (Inl BadPointer)"
proof -
  obtain a b n where c: "list = Some a" "slists m1 a = Some \<lparr>maxHeight = mh, chance = ch, first = Some b\<rparr>"
    "nodes m1 b = Some n" "first (as_slist n) = Some (2 ^ 32)"
    using createSkipList_shape[OF assms(1)] by metis
  obtain lst m2 where al: "alloc_last mh m1 = (lst, m2)" by fastforce
  then have n2: "nodes m2 = nodes m1" using alloc_last_keeps by blast
  have "insert_from list k u lst (Some b) cu m3 = Some (Inl BadPointer)"
    if "fill_last lst (Some b) (nat mh) m2 = Inr m3" for m3 cu
    using fill_last_nodes[OF that] n2 c assms(3)
    by (subst insert_from.simps) (simp add: get_next_def start_next_def)
  then show ?thesis
    using fill_last_alloc[OF al assms(2), of "Some b"] c al by (auto simp: insertKey_def)
qed

theorem insert_into_new_list_faults_witness:
  "\<exists>m1. createSkipList 4 2 (mem_start [Some 7, Some 8, Some 9, Some 10]) = Inr (Some 7, m1)
    \<and> insertKey (Some 7) 5 1000 m1 = Some (Inl BadPointer)"
proof -
  have "allocs (mem_start [Some 7, Some 8, Some 9, Some 10]) = [Some 7, Some 8, Some 9, Some 10]"
    by (simp add: mem_start_def)
  then obtain m1 where m1: "createSkipList 4 2 (mem_start [Some 7, Some 8, Some 9, Some 10]) = Inr (Some 7, m1)"
    "nodes m1 (2 ^ 32) = None"
    by (simp add: createSkipList_def createNode_def malloc_def null_next_result mem_start_def Let_def)
  show ?thesis
    using m1(1) insert_into_new_list_faults[OF m1(1) _ m1(2), of 5 1000] by simp
qed

lemma get_next_null: "nodes m 0 = None \<Longrightarrow> get_next m (Some 0) i = Inl BadPointer"
  by (simp add: get_next_def start_next_def)

lemma insert_from_needs_larger:
  assumes "insert_from list k u lst temp cu m = Some r" "r = Inr m'"
    and "\<forall>b n. nodes m b = Some n \<longrightarrow> \<not> k < key n" "nodes m 0 = None" "temp \<noteq> None"
  shows False
  using assms(2-)
proof (induction list k u lst temp cu m r rule: insert_from.raw_induct)
  case (1 f list k u lst temp cu m r)
  have step: False if "f list k u lst (Some b) c m2 = Some (Inr m')" "nodes m2 = nodes m" for b c m2
    using 1(1)[OF that(1)] 1(3-5) that(2) by simp
  show ?case
    using 1(2-)
    by (auto split: sum.splits option.splits if_splits dest!: store_nodes
        simp: deref_eq_Inr get_next_null dest: step)
qed (fact assms(1))

text \<open>
  C35: \<open>insertKey\<close> never inserts a key that is at least as large as every key in the memory, into a
  list with a first node (and no node at address 0): the branch for the end of the list is dead,
  since a pointer is never \<open>> 0\<close> and null at once, and an equal key has no branch. The call loops
  for ever or goes wrong.
\<close>

theorem largest_key_never_inserted:
  assumes "deref (slists m) list = Inr l" "first l \<noteq> None"
    and "\<forall>b n. nodes m b = Some n \<longrightarrow> key n \<le> k" "nodes m 0 = None"
  shows "insertKey list k u m \<noteq> Some (Inr m')"
proof
  assume ins: "insertKey list k u m = Some (Inr m')"
  obtain lst m2 where al: "alloc_last (maxHeight l) m = (lst, m2)" by fastforce
  then obtain m3 m4 where f: "fill_last lst (first l) (nat (maxHeight l)) m2 = Inr m3"
    "insert_from list k u lst (first l) (node_before (first l)) m3 = Some (Inr m4)"
    using ins assms(1) by (auto simp: insertKey_def andThen_eq_Inr split: sum.splits option.splits)
  have "nodes m3 = nodes m"
    using fill_last_nodes[OF f(1)] alloc_last_keeps[OF al] by simp
  then show False using insert_from_needs_larger[OF f(2) refl] assms by (simp add: not_less)
qed

theorem largest_key_never_inserted_witness:
  "\<forall>m'. insertKey (Some 9) 8 1000 (demo_mem 2) \<noteq> Some (Inr m')"
proof
  fix m'
  have "\<forall>b n. nodes (demo_mem 2) b = Some n \<longrightarrow> key n \<le> 8" "nodes (demo_mem 2) 0 = None"
    by (auto simp: demo_mem_def demo_node_def split: if_splits)
  then show "insertKey (Some 9) 8 1000 (demo_mem 2) \<noteq> Some (Inr m')"
    using largest_key_never_inserted[OF demo_list[of 2], of 8 1000 m'] by simp
qed

lemma insert_from_equal_key:
  assumes "insert_from list k u lst temp cu m = Some r"
    and "get_next m temp cu = Inr (Some b)" "nodes m b = Some n" "key n = k"
  shows False
  using assms(2-)
proof (induction list k u lst temp cu m r rule: insert_from.raw_induct)
  case (1 f list k u lst temp cu m r)
  have "temp \<noteq> None" using 1(3) by (cases temp) (simp_all add: get_next_def start_next_def)
  then show ?case using 1(1)[of list k u lst temp cu m r] 1(2-) by auto
qed (fact assms(1))

text \<open>
  A key that is already there makes the call loop for ever as soon as the walk stands before its
  node.
\<close>

theorem equal_key_hangs:
  assumes "get_next m temp cu = Inr (Some b)" "nodes m b = Some n" "key n = k"
  shows "insert_from list k u lst temp cu m = None"
  using insert_from_equal_key[OF _ assms] by (cases "insert_from list k u lst temp cu m") blast+

text \<open>
  The insertion does go through where the bytes happen to be pointers. Here the first node lies
  at address 32, so that the walk begins at level 0, its uid is the address of the node at 64, whose
  array holds the node with the key 8, and the new key's uid is 64 too. The new node gets
  linked in; its own pointer stays null, since \<open>new->start->next\<close> was the array of the node at 64, and the
  node with the key 8 is lost.
\<close>

definition punned_mem :: mem where
  "punned_mem = (mem_start [Some 200, Some 300, Some 400])\<lparr>
     slists := [9 \<mapsto> \<lparr>maxHeight = 1, chance = 4, first = Some 32\<rparr>],
     nodes := [32 \<mapsto> (demo_node (- 1) 33)\<lparr>uid := 64\<rparr>, 64 \<mapsto> demo_node 0 65, 96 \<mapsto> demo_node 8 97],
     arrays := [33 \<mapsto> [Inr None], 65 \<mapsto> [Inr (Some 96)], 97 \<mapsto> [Inr None]]\<rparr>"

lemma insert_goes_through:
  "\<exists>m n. insertKey (Some 9) 5 64 punned_mem = Some (Inr m) \<and> nodes m 300 = Some n \<and> key n = 5
     \<and> arrays m 65 = Some [Inr (Some 300)] \<and> next_of m n 0 = Inr None \<and> arrays m 200 = None"
  by (simp add: insertKey_def punned_mem_def mem_start_def alloc_last_def malloc_def demo_node_def
      node_before_def insert_from.simps store_def load_def get_next_def set_next_def start_next_def
      as_slist_def word_cat_eq push_bit_eq_mult insert_here_def upHeight_def check_of_def
      up_loop_result[simplified INT_MAX_def] createNode_def Let_def get_random_int_def free_array_def
      next_of_def case_prod_beta)

end
