(* ===== verification/SkipList_Types.thy ===== *)
theory SkipList_Types
  imports SkipList_Insert
begin

text \<open>
  The types of the skip list's heap: what the declarations of \<^verbatim>\<open>skipList.h\<close> promise of every object
  that is live, and what of it each operation keeps. \<open>insertKey\<close>, which goes through pointers of
  the wrong type, is the one that does not respect it.
\<close>

section \<open>Well-typed memory\<close>

text \<open>A pointer to a node is null or the address of a live node.\<close>

definition node_ptr :: "mem \<Rightarrow> nat option \<Rightarrow> bool" where
  "node_ptr m p \<longleftrightarrow> (\<forall>a. p = Some a \<longrightarrow> a \<in> dom (nodes m))"

lemma node_ptr_None [simp]: "node_ptr m None"
  by (simp add: node_ptr_def)

definition typed_list :: "mem \<Rightarrow> slist \<Rightarrow> bool" where
  "typed_list m l \<longleftrightarrow> node_ptr m (first l)"

text \<open>
  A node has at least one level, and owns an array with a pointer set for each; its mail, which
  \<open>createNode\<close> leaves unset, is null or a live mailbox once it is set.
\<close>

definition typed_node :: "mem \<Rightarrow> node \<Rightarrow> bool" where
  "typed_node m n \<longleftrightarrow>
     1 \<le> height n
     \<and> (\<exists>b xs. nexts n = Some b \<and> arrays m b = Some xs \<and> height n \<le> int (length xs)
          \<and> (\<forall>i < nat (height n). \<exists>p. xs ! i = Inr p))
     \<and> (\<forall>a. mail n = Inr (Some a) \<longrightarrow> a \<in> dom (boxes m))"

definition typed_array :: "mem \<Rightarrow> nat option res list \<Rightarrow> bool" where
  "typed_array m xs \<longleftrightarrow> (\<forall>p. Inr p \<in> set xs \<longrightarrow> node_ptr m p)"

definition typed_box :: "mem \<Rightarrow> mailBox \<Rightarrow> bool" where
  "typed_box m x \<longleftrightarrow> (\<forall>a. nextMail x = Some a \<longrightarrow> a \<in> dom (boxes m))"

text \<open>What \<open>malloc\<close> will answer is not in use.\<close>

definition live :: "mem \<Rightarrow> nat set" where
  "live m = dom (nodes m) \<union> dom (arrays m) \<union> dom (slists m) \<union> dom (boxes m)"

definition fresh :: "mem \<Rightarrow> bool" where
  "fresh m \<longleftrightarrow> distinct (filter (\<lambda>p. p \<noteq> None) (allocs m)) \<and> (\<forall>a. Some a \<in> set (allocs m) \<longrightarrow> a \<notin> live m)"

definition well_typed :: "mem \<Rightarrow> bool" where
  "well_typed m \<longleftrightarrow>
     (\<forall>l \<in> ran (slists m). typed_list m l) \<and> (\<forall>n \<in> ran (nodes m). typed_node m n)
     \<and> (\<forall>xs \<in> ran (arrays m). typed_array m xs) \<and> (\<forall>x \<in> ran (boxes m). typed_box m x) \<and> fresh m"

declare node_ptr_def [wf_defs] typed_list_def [wf_defs] typed_node_def [wf_defs]
  typed_array_def [wf_defs] typed_box_def [wf_defs]

lemma well_typed_start: "distinct (filter (\<lambda>p. p \<noteq> None) al) \<Longrightarrow> well_typed (mem_start al)"
  by (simp add: well_typed_def mem_start_def fresh_def live_def)

section \<open>A larger heap\<close>

text \<open>\<open>m'\<close> keeps what \<open>m\<close> has.\<close>

definition extends :: "mem \<Rightarrow> mem \<Rightarrow> bool" where
  "extends m m' \<longleftrightarrow> nodes m \<subseteq>\<^sub>m nodes m' \<and> arrays m \<subseteq>\<^sub>m arrays m' \<and> boxes m \<subseteq>\<^sub>m boxes m'"

lemma extends_nodes: "extends m m' \<Longrightarrow> dom (nodes m) \<subseteq> dom (nodes m')"
  by (simp add: extends_def map_le_implies_dom_le)

lemma node_ptr_mono: "extends m m' \<Longrightarrow> node_ptr m p \<Longrightarrow> node_ptr m' p"
  using extends_nodes by (fastforce simp: node_ptr_def)

lemma typed_mono:
  assumes "extends m m'"
  shows "typed_list m l \<Longrightarrow> typed_list m' l" "typed_node m n \<Longrightarrow> typed_node m' n"
    "typed_array m xs \<Longrightarrow> typed_array m' xs" "typed_box m x \<Longrightarrow> typed_box m' x"
proof -
  show "typed_list m l \<Longrightarrow> typed_list m' l"
    using node_ptr_mono[OF assms] by (simp add: typed_list_def)
  show "typed_array m xs \<Longrightarrow> typed_array m' xs"
    using node_ptr_mono[OF assms] by (simp add: typed_array_def)
  have "arrays m b = Some xs \<Longrightarrow> arrays m' b = Some xs" for b xs
    using assms by (auto simp: extends_def map_le_def dom_def)
  moreover have b: "dom (boxes m) \<subseteq> dom (boxes m')"
    using assms map_le_implies_dom_le[of "boxes m" "boxes m'"] by (simp add: extends_def)
  ultimately show "typed_node m n \<Longrightarrow> typed_node m' n"
    unfolding typed_node_def by blast
  show "typed_box m x \<Longrightarrow> typed_box m' x"
    using b by (auto simp: typed_box_def)
qed

text \<open>New objects at unused addresses, each of its type, leave a memory well typed.\<close>

lemma well_typed_grow:
  assumes "well_typed m" "extends m m'" "fresh m'"
    and "\<And>l. l \<in> ran (slists m') \<Longrightarrow> l \<in> ran (slists m) \<or> typed_list m' l"
    and "\<And>n. n \<in> ran (nodes m') \<Longrightarrow> n \<in> ran (nodes m) \<or> typed_node m' n"
    and "\<And>xs. xs \<in> ran (arrays m') \<Longrightarrow> xs \<in> ran (arrays m) \<or> typed_array m' xs"
    and "\<And>x. x \<in> ran (boxes m') \<Longrightarrow> x \<in> ran (boxes m) \<or> typed_box m' x"
  shows "well_typed m'"
  using assms(1,3-) typed_mono[OF assms(2)] unfolding well_typed_def by blast

lemma ran_upd: "y \<in> ran (f(a \<mapsto> x)) \<Longrightarrow> y = x \<or> y \<in> ran f"
  by (auto simp: ran_def split: if_splits)

section \<open>Creation\<close>

lemma malloc_Some:
  "malloc n m = (Some a, m') \<Longrightarrow> \<exists>al. allocs m = Some a # al \<and> m' = m\<lparr>allocs := al\<rparr>"
  by (auto simp: malloc_def split: list.splits if_splits)

lemma createMailBox_shape:
  assumes "createMailBox t m = Inr (p, m')"
  shows "\<exists>a al. p = Some a \<and> allocs m = Some a # al
    \<and> m' = m\<lparr>allocs := al, boxes := (boxes m)(a \<mapsto> \<lparr>msg = t, nextMail = None\<rparr>)\<rparr>"
  using assms by (auto simp: createMailBox_def Let_def split: prod.splits option.splits dest!: malloc_Some)

definition new_array :: "int \<Rightarrow> nat option res list" where
  "new_array h = replicate (nat h) (Inr None) @ replicate (3 * nat h) (Inl Uninit)"

lemma null_next_new: "null_next (nat h) (replicate (4 * nat h) (Inl Uninit)) = Inr (new_array h)"
  by (simp add: null_next_result new_array_def)

lemma createNode_shape:
  assumes "createNode st k h u m = Inr (p, m')" "1 \<le> h"
  shows "\<exists>a b al. p = Some a \<and> allocs m = Some a # Some b # al
    \<and> m' = m\<lparr>allocs := al, arrays := (arrays m)(b \<mapsto> new_array h), nodes := (nodes m)(a \<mapsto>
        \<lparr>key = k, height = h, uid = u, start = st, nexts = Some b, mail = Inl Uninit\<rparr>)\<rparr>"
proof -
  obtain q m1 where 1: "malloc 32 m = (q, m1)" by fastforce
  with assms obtain a where a: "q = Some a" by (cases q) (simp_all add: createNode_def)
  obtain q2 m2 where 2: "malloc (h * 32) m1 = (q2, m2)" by fastforce
  with assms 1 a obtain b where b: "q2 = Some b" by (cases q2) (simp_all add: createNode_def)
  obtain al where "allocs m = Some a # al" "m1 = m\<lparr>allocs := al\<rparr>"
    using 1 a malloc_Some by blast
  moreover obtain al2 where "allocs m1 = Some b # al2" "m2 = m1\<lparr>allocs := al2\<rparr>"
    using 2 b malloc_Some by blast
  ultimately show ?thesis
    using assms 1 2 a b by (auto simp: createNode_def null_next_new)
qed

lemma createMailBox_typed:
  assumes "createMailBox t m = Inr (p, m')" "well_typed m"
  shows "well_typed m'"
proof -
  obtain a al where n: "p = Some a" "allocs m = Some a # al"
    "m' = m\<lparr>allocs := al, boxes := (boxes m)(a \<mapsto> \<lparr>msg = t, nextMail = None\<rparr>)\<rparr>"
    using createMailBox_shape[OF assms(1)] by blast
  have fr: "fresh m" using assms(2) by (simp add: well_typed_def)
  show ?thesis
  proof (rule well_typed_grow[OF assms(2)])
    show "extends m m'" using fr n by (auto simp: extends_def fresh_def live_def map_le_def)
    show "fresh m'" using fr n by (auto simp: fresh_def live_def)
  qed (use n in \<open>auto dest!: ran_upd simp: typed_box_def\<close>)
qed

lemma createNode_typed:
  assumes "createNode st k h u m = Inr (p, m')" "1 \<le> h" "well_typed m"
  shows "well_typed m'" "node_ptr m' p" "set (allocs m') \<subseteq> set (allocs m)" "slists m' = slists m"
proof -
  let ?n = "\<lambda>b. \<lparr>key = k, height = h, uid = u, start = st, nexts = Some b, mail = Inl Uninit\<rparr>"
  obtain a b al where n: "p = Some a" "allocs m = Some a # Some b # al"
    "m' = m\<lparr>allocs := al, arrays := (arrays m)(b \<mapsto> new_array h), nodes := (nodes m)(a \<mapsto> ?n b)\<rparr>"
    using createNode_shape[OF assms(1,2)] by blast
  have fr: "fresh m" using assms(3) by (simp add: well_typed_def)
  have tn: "typed_node m' (?n b)"
    using assms(2) by (auto simp: typed_node_def n(3) new_array_def nth_append)
  have ta: "typed_array m' (new_array h)" by (auto simp: typed_array_def new_array_def node_ptr_def)
  show "well_typed m'"
  proof (rule well_typed_grow[OF assms(3)])
    show "extends m m'" using fr n by (auto simp: extends_def fresh_def live_def map_le_def)
    show "fresh m'" using fr n by (auto simp: fresh_def live_def)
    show "x \<in> ran (nodes m) \<or> typed_node m' x" if "x \<in> ran (nodes m')" for x
      using that tn n(3) by (auto dest!: ran_upd)
    show "xs \<in> ran (arrays m) \<or> typed_array m' xs" if "xs \<in> ran (arrays m')" for xs
      using that ta n(3) by (auto dest!: ran_upd)
  qed (use n in simp_all)
  show "node_ptr m' p" "set (allocs m') \<subseteq> set (allocs m)" "slists m' = slists m"
    using n by (auto simp: node_ptr_def)
qed

lemma createSkipList_keeps_types:
  assumes "createSkipList mh ch m = Inr (p, m')" "1 \<le> mh" "well_typed m"
  shows "well_typed m' \<and> (\<exists>a \<in> dom (slists m'). p = Some a)"
proof -
  obtain q m1 where 1: "malloc 16 m = (q, m1)" by fastforce
  with assms obtain a where a: "q = Some a" by (cases q) (simp_all add: createSkipList_def)
  then obtain s m2 where 2: "createNode 1 (- 1) mh 0 m1 = Inr (s, m2)" and p: "p = Some a"
    and m': "m' = m2\<lparr>slists := (slists m2)(a \<mapsto> \<lparr>maxHeight = mh, chance = ch, first = s\<rparr>)\<rparr>"
    using assms(1) 1 by (auto simp: createSkipList_def andThen_eq_Inr)
  obtain al where al: "allocs m = Some a # al" "m1 = m\<lparr>allocs := al\<rparr>"
    using 1 a malloc_Some by blast
  have fr: "fresh m" using assms(3) by (simp add: well_typed_def)
  have "well_typed m1"
    by (rule well_typed_grow[OF assms(3)]) (use fr al in \<open>auto simp: extends_def fresh_def live_def\<close>)
  note t = createNode_typed[OF 2 assms(2) this]
  have na: "Some a \<notin> set (allocs m2)" using fr al t(3) by (auto simp: fresh_def)
  have "well_typed m'"
  proof (rule well_typed_grow[OF t(1)])
    show "extends m2 m'" by (simp add: m' extends_def)
    show "fresh m'" using t(1) na by (auto simp: well_typed_def fresh_def live_def m')
    show "l \<in> ran (slists m2) \<or> typed_list m' l" if "l \<in> ran (slists m')" for l
      using that t(2) by (auto simp: m' typed_list_def node_ptr_def dest!: ran_upd)
  qed (simp_all add: m')
  then show ?thesis using p m' by simp
qed

text \<open>
  C33: creation is type safe: from a well-typed memory \<open>createSkipList\<close>, asked for a list of a
  maximum height of at least 1, gives, when no allocation fails, a well-typed memory in which its
  result is a live list. (A list of height 0 has a first node without a level.)
\<close>

theorem createSkipList_typed:
  assumes "createSkipList mh ch m = Inr (p, m')" "1 \<le> mh" "well_typed m"
  shows "well_typed m' \<and> (\<exists>a \<in> dom (slists m'). p = Some a)"
  using assms by (rule createSkipList_keeps_types)

theorem createSkipList_typed_witness:
  "\<exists>p m'. createSkipList 4 2 (mem_start [Some 7, Some 8, Some 9]) = Inr (p, m') \<and> well_typed m'"
proof -
  obtain p m' where "createSkipList 4 2 (mem_start [Some 7, Some 8, Some 9]) = Inr (p, m')"
    by (simp add: createSkipList_def createNode_def malloc_def null_next_result mem_start_def Let_def)
  then show ?thesis
    using createSkipList_typed[of 4 2 _ p m'] well_typed_start[of "[Some 7, Some 8, Some 9]"] by simp
qed

section \<open>Search\<close>

lemma next_of_typed:
  assumes "well_typed m" "nodes m a = Some n"
  shows "\<exists>p. next_of m n 0 = Inr p \<and> node_ptr m p"
proof -
  have "typed_node m n" using assms by (auto simp: well_typed_def intro: ranI)
  then obtain b xs where x: "1 \<le> height n" "nexts n = Some b" "arrays m b = Some xs" "height n \<le> int (length xs)"
    "\<forall>i < nat (height n). \<exists>p. xs ! i = Inr p"
    by (auto simp: typed_node_def)
  then obtain p where p: "xs ! 0 = Inr p" by fastforce
  moreover have "0 < length xs" using x by linarith
  moreover have "Inr p \<in> set xs" using p \<open>0 < length xs\<close> by (metis nth_mem)
  moreover have "typed_array m xs" using assms(1) x(3) by (auto simp: well_typed_def intro: ranI)
  ultimately show ?thesis using x by (auto simp: next_of_def typed_array_def)
qed

text \<open>The level is counted down from at least 1 and stops there, so it does not overflow.\<close>

lemma search_from_typed:
  assumes "search_from m k h temp = Some r" "well_typed m" "node_ptr m temp" "1 \<le> h"
  shows "\<exists>p. r = Inr p \<and> node_ptr m p \<and> (\<forall>a. p = Some a \<longrightarrow> key_of m a = k)"
  using assms(2-)
proof (induction m k h temp r rule: search_from.raw_induct)
  case (1 f m k h temp r)
  show ?case
  proof (cases temp)
    case None
    then show ?thesis using 1(2) by (auto simp: node_ptr_def)
  next
    case (Some a)
    then obtain n where n: "nodes m a = Some n" using 1(4) by (auto simp: node_ptr_def)
    obtain p where p: "next_of m n 0 = Inr p" "node_ptr m p" using next_of_typed[OF 1(3) n] by blast
    have step: ?thesis if "f m k c q = Some r" "node_ptr m q" "1 \<le> c" for c q
      using 1(1)[OF that(1) 1(3) that(2,3)] .
    have h: "h \<noteq> INT_MIN" "h \<noteq> 1 \<Longrightarrow> 1 \<le> h - 1" using 1(5) by (simp_all add: INT_MIN_def)
    then have "r = Inr None \<or> (r = Inr temp \<and> key n = k) \<or> (h \<noteq> 1 \<and> f m k (h - 1) temp = Some r)
        \<or> (\<exists>b. p = Some b \<and> f m k h p = Some r)"
      using 1(2) Some n p(1) by (cases p) (simp_all split: if_splits)
    then show ?thesis using step h(2) 1(4,5) p(2) Some n by (auto simp: key_of_def)
  qed
qed (fact assms(1))

text \<open>Each node's key is smaller than that of its successor on the bottom level.\<close>

definition ascending :: "mem \<Rightarrow> bool" where
  "ascending m \<longleftrightarrow>
     (\<forall>a n b. nodes m a = Some n \<and> next_of m n 0 = Inr (Some b) \<longrightarrow> key_of m a < key_of m b)"

text \<open>A turn of the search counts the level down or has fewer nodes with larger keys before it.\<close>

definition larger :: "mem \<Rightarrow> nat \<Rightarrow> nat set" where
  "larger m a = {b \<in> dom (nodes m). key_of m a < key_of m b}"

lemma larger_next:
  assumes "finite (dom (nodes m))" "node_ptr m (Some b)" "key_of m a < key_of m b"
  shows "card (larger m b) < card (larger m a)"
proof (rule psubset_card_mono)
  show "finite (larger m a)" using assms(1) by (simp add: larger_def)
  have "b \<in> larger m a" "b \<notin> larger m b" using assms(2,3) by (auto simp: larger_def node_ptr_def)
  moreover have "larger m b \<subseteq> larger m a" using assms(3) by (auto simp: larger_def)
  ultimately show "larger m b \<subset> larger m a" by blast
qed

lemma search_from_returns:
  assumes "well_typed m" "finite (dom (nodes m))" "ascending m" "node_ptr m temp" "1 \<le> h"
  shows "search_from m k h temp \<noteq> None"
  using assms(4,5)
proof (induction "nat h + (case temp of None \<Rightarrow> 0 | Some a \<Rightarrow> card (larger m a))" arbitrary: h temp
    rule: less_induct)
  case less
  show ?case
  proof (cases temp)
    case None
    then show ?thesis by (simp add: search_from.simps)
  next
    case (Some a)
    then obtain n where n: "nodes m a = Some n" using less(2) by (auto simp: node_ptr_def)
    obtain p where p: "next_of m n 0 = Inr p" "node_ptr m p" using next_of_typed[OF assms(1) n] by blast
    have down: "search_from m k (h - 1) temp \<noteq> None" if "h \<noteq> 1"
      using that less(2,3) by (intro less(1)) (auto split: option.split)
    have along: "search_from m k h (Some b) \<noteq> None" if b: "p = Some b" for b
    proof (rule less(1))
      have "key_of m a < key_of m b" using assms(3) n p(1) b by (auto simp: ascending_def)
      then show "nat h + (case Some b of None \<Rightarrow> 0 | Some a \<Rightarrow> card (larger m a))
          < nat h + (case temp of None \<Rightarrow> 0 | Some a \<Rightarrow> card (larger m a))"
        using larger_next[OF assms(2)] p(2) b Some by simp
    qed (use less(3) p(2) b in simp_all)
    show ?thesis
      using Some n p(1) down along by (subst search_from.simps) (auto split: option.split)
  qed
qed

text \<open>
  C32: searching is type safe: in a well-typed memory a search of a live list of height at least 2
  follows no bad pointer, leaves no array, reads no unset pointer and does not overflow its level:
  when it returns, it gives null or a live node with the key. It does return when the memory holds
  finitely many nodes, each with a smaller key than its successor on the bottom level.
\<close>

theorem skipSearch_type_safe:
  assumes "well_typed m" "slists m a = Some l" "2 \<le> maxHeight l"
  shows "(\<forall>r. skipSearch (Some a) k m = Some r \<longrightarrow>
      (\<exists>p. r = Inr p \<and> node_ptr m p \<and> (\<forall>b. p = Some b \<longrightarrow> key_of m b = k)))
    \<and> (finite (dom (nodes m)) \<and> ascending m \<longrightarrow> skipSearch (Some a) k m \<noteq> None)"
proof -
  have f: "node_ptr m (first l)" using assms(1,2) by (auto simp: well_typed_def typed_list_def intro: ranI)
  have h: "1 \<le> maxHeight l - 1" using assms(3) by simp
  have s: "skipSearch (Some a) k m = search_from m k (maxHeight l - 1) (first l)"
    using assms(2,3) by (simp add: skipSearch_def INT_MIN_def)
  show ?thesis
    unfolding s using search_from_typed[OF _ assms(1) f h] search_from_returns[OF assms(1) _ _ f h] by blast
qed

lemma new_list_memory:
  "\<exists>m. createSkipList 4 2 (mem_start [Some 7, Some 8, Some 9]) = Inr (Some 7, m)
    \<and> slists m 7 = Some \<lparr>maxHeight = 4, chance = 2, first = Some 8\<rparr>
    \<and> finite (dom (nodes m)) \<and> ascending m"
proof -
  let ?n = "\<lparr>key = - 1, height = 4, uid = 0, start = 1, nexts = Some 9, mail = Inl Uninit\<rparr>"
  obtain m where m: "createSkipList 4 2 (mem_start [Some 7, Some 8, Some 9]) = Inr (Some 7, m)"
    "slists m = [7 \<mapsto> \<lparr>maxHeight = 4, chance = 2, first = Some 8\<rparr>]" "nodes m = [8 \<mapsto> ?n]"
    "arrays m = [9 \<mapsto> replicate 4 (Inr None) @ replicate 12 (Inl Uninit)]"
    by (simp add: createSkipList_def createNode_def malloc_def null_next_result mem_start_def Let_def)
  have "next_of m ?n 0 = Inr None" by (simp add: next_of_def m(4) nth_append)
  then have "ascending m" unfolding ascending_def m(3) by (auto split: if_splits)
  then show ?thesis using m by auto
qed

theorem skipSearch_type_safe_witness:
  "\<exists>m p. well_typed m \<and> skipSearch (Some 7) (- 1) m = Some (Inr p) \<and> (\<forall>b. p = Some b \<longrightarrow> key_of m b = - 1)"
proof -
  obtain m where m: "createSkipList 4 2 (mem_start [Some 7, Some 8, Some 9]) = Inr (Some 7, m)"
    "slists m 7 = Some \<lparr>maxHeight = 4, chance = 2, first = Some 8\<rparr>" "finite (dom (nodes m))" "ascending m"
    using new_list_memory by blast
  have t: "well_typed m"
    using createSkipList_keeps_types[OF m(1)] well_typed_start[of "[Some 7, Some 8, Some 9]"] by simp
  note safe = skipSearch_type_safe[OF t m(2), of "- 1"]
  then obtain r where r: "skipSearch (Some 7) (- 1) m = Some r" using m(3,4) by auto
  then show ?thesis using safe t by auto
qed

end
