(* ===== verification/Shell.thy ===== *)
theory Shell
  imports Prelude
begin

text \<open>
  The shell of \<^verbatim>\<open>project 0/simple_shell.c\<close>. The standard input is the list of characters still
  to be read, so \<open>getchar\<close> returns end of file when it is empty. What the C library and the
  kernel answer are parameters: whether \<open>malloc\<close> and \<open>realloc\<close> succeed, whether \<open>realloc\<close> moves
  the block, what \<open>fork\<close> and each call of \<open>wait\<close> return. The parent records what it prints and
  the argument vectors its children execute. A null byte ends a C string, so the text of a
  buffer is what precedes the first.
\<close>

section \<open>State and environment\<close>

definition cstr :: "string \<Rightarrow> string" where
  "cstr s = takeWhile (\<lambda>c. c \<noteq> NUL) s"

datatype event =
    Prompt                                 \<comment> \<open>\<open>printf("$:")\<close>\<close>
  | Printed string
  | Child "string option list"             \<comment> \<open>a child calls \<open>execvp\<close> with this vector\<close>

datatype regrown = Failed | Moved | Stayed

record shell_env =
  allocated :: "nat \<Rightarrow> bool \<times> bool"       \<comment> \<open>the two \<open>malloc\<close>s of a round: \<open>command\<close>, \<open>input\<close>\<close>
  realloced :: "nat \<Rightarrow> int \<Rightarrow> regrown \<times> bool"   \<comment> \<open>\<open>input\<close>, and whether \<open>command\<close> grew\<close>
  forked :: "nat \<Rightarrow> int"
  waited :: "nat \<Rightarrow> nat \<Rightarrow> int"

record line =
  buffer :: int
  chars :: string                          \<comment> \<open>the first \<open>count\<close> characters of \<open>input\<close>\<close>

section \<open>Splitting a line into words\<close>

text \<open>\<open>strtok\<close> with the separator \<open>" "\<close>: the token, and the position it keeps.\<close>

definition strtok :: "string \<Rightarrow> string option \<times> string" where
  "strtok s =
     (case dropWhile (\<lambda>c. c = CHR '' '') s of
        [] \<Rightarrow> (None, [])
      | c # cs \<Rightarrow> (Some (takeWhile (\<lambda>c. c \<noteq> CHR '' '') (c # cs)),
                   tl (dropWhile (\<lambda>c. c \<noteq> CHR '' '') (c # cs))))"

lemma strtok_shorter:
  assumes "fst (strtok s) = Some t"
  shows "length (snd (strtok s)) < length s"
proof -
  obtain c cs where c: "dropWhile (\<lambda>c. c = CHR '' '') s = c # cs"
    using assms by (auto simp: strtok_def split: list.splits)
  have r: "snd (strtok s) = tl (dropWhile (\<lambda>c. c \<noteq> CHR '' '') (c # cs))"
    using c by (simp add: strtok_def)
  have "length (snd (strtok s)) \<le> length (c # cs) - 1"
    unfolding r length_tl by (intro diff_le_mono length_dropWhile_le)
  moreover have "length (c # cs) \<le> length s"
    unfolding c[symmetric] by (rule length_dropWhile_le)
  ultimately show ?thesis by simp
qed

function process_loop ::
  "string option \<Rightarrow> string \<Rightarrow> int \<Rightarrow> string option list \<Rightarrow> string option list res" where
  "process_loop token rest tokens command =
     andThen (aset command tokens token) (\<lambda>command.
     case token of
       None \<Rightarrow> Inr command
     | Some t \<Rightarrow> let r = strtok rest in process_loop (fst r) (snd r) (tokens + 1) command)"
  by pat_completeness auto
termination
proof (relation "measure (\<lambda>(token, rest, _, _). (case token of None \<Rightarrow> 0 | Some _ \<Rightarrow> Suc (length rest)))",
    goal_cases)
  case (2 token rest tokens command command' t r)
  then show ?case
    by (cases "fst r") (auto dest: strtok_shorter split: option.split)
qed simp

declare process_loop.simps [simp del]

definition process :: "string \<Rightarrow> string option list \<Rightarrow> string option list res" where
  "process input command =
     (let r = strtok (cstr input) in process_loop (fst r) (snd r) 0 command)"

section \<open>Running a command\<close>

text \<open>\<open>while (wait(&status) != pid)\<close>: the number of the call that returns the child.\<close>

partial_function (option) wait_loop :: "shell_env \<Rightarrow> nat \<Rightarrow> nat \<Rightarrow> nat option" where
  "wait_loop E i n = (if waited E i n \<noteq> forked E i then wait_loop E i (Suc n) else Some n)"

declare wait_loop.simps [code]

datatype outcome = Goes_on | Exits int

text \<open>
  The parent's side of \<open>run\<close>; the child executes the vector or ends, and does not come back to
  the loop either way.
\<close>

definition run :: "shell_env \<Rightarrow> nat \<Rightarrow> string option list \<Rightarrow> event list \<Rightarrow> (outcome \<times> event list) option" where
  "run E i command tr =
     (if forked E i < 0
      then Some (Exits 1, tr @ [Printed ''Error: Failed to fork, please get new fork''])
      else
        (case wait_loop E i 0 of
           None \<Rightarrow> None
         | Some n \<Rightarrow> Some (Goes_on, tr @ [Child command])))"

section \<open>Reading a line\<close>

text \<open>
  The block taken when the buffer is full: \<open>None\<close> is the exit after a failed \<open>realloc\<close>. Before
  the check, the new half of the vector is cleared and each turn writes a null byte at
  \<open>input[tester]\<close>, where \<open>tester\<close> still is 1024 and \<open>input\<close> the old pointer.
\<close>

definition grow :: "shell_env \<Rightarrow> nat \<Rightarrow> line \<Rightarrow> line option res" where
  "grow E i l =
     (if 2 * buffer l > INT_MAX then Inl Overflow
      else
        (let n = 2 * buffer l; (r, command_ok) = realloced E i n in
         if \<not> command_ok then Inl BadPointer
         else if r = Moved then Inl BadPointer
         else if r = Failed then Inr None
         else Inr (Some \<lparr>buffer = n, chars = (chars l)[1024 := NUL]\<rparr>)))"

definition put_char :: "shell_env \<Rightarrow> nat \<Rightarrow> char \<Rightarrow> line \<Rightarrow> line option res" where
  "put_char E i c l =
     (let l = l\<lparr>chars := chars l @ [c]\<rparr> in
      if int (length (chars l)) = buffer l then grow E i l else Inr (Some l))"

datatype got = Line line string | Quit "event list" string

fun read_loop :: "shell_env \<Rightarrow> nat \<Rightarrow> string \<Rightarrow> line \<Rightarrow> got res" where
  "read_loop E i [] l = Inr (Line l [])"
| "read_loop E i (c # cs) l =
     (if c = CHR 0x0A then Inr (Line l cs)
      else andThen (put_char E i c l) (\<lambda>r.
        case r of
          None \<Rightarrow> Inr (Quit [Printed ''Error: Unable to make bigger buffer''] cs)
        | Some l \<Rightarrow>
            if cstr (chars l) = ''exit'' then Inr (Quit [] cs) else read_loop E i cs l))"

section \<open>The main loop\<close>

text \<open>One round: both blocks are written before the check that they were allocated.\<close>

definition round_once ::
  "shell_env \<Rightarrow> nat \<Rightarrow> string \<Rightarrow> event list \<Rightarrow> (outcome \<times> string \<times> event list) res option" where
  "round_once E i stdin tr =
     (let tr = tr @ [Prompt] in
      if allocated E i \<noteq> (True, True) then Some (Inl BadPointer)
      else
        (case read_loop E i stdin \<lparr>buffer = 1024, chars = []\<rparr> of
           Inl e \<Rightarrow> Some (Inl e)
         | Inr (Quit ms rest) \<Rightarrow> Some (Inr (Exits 0, rest, tr @ ms))
         | Inr (Line l rest) \<Rightarrow>
             (case process (chars l) (replicate (nat (buffer l)) None) of
                Inl e \<Rightarrow> Some (Inl e)
              | Inr command \<Rightarrow>
                  (case run E i command tr of
                     None \<Rightarrow> None
                   | Some (x, tr) \<Rightarrow> Some (Inr (x, rest, tr))))))"

partial_function (option) shell ::
  "shell_env \<Rightarrow> nat \<Rightarrow> string \<Rightarrow> event list \<Rightarrow> (int \<times> event list) res option" where
  "shell E i stdin tr =
     (case round_once E i stdin tr of
        None \<Rightarrow> None
      | Some (Inl e) \<Rightarrow> Some (Inl e)
      | Some (Inr (Exits n, rest, tr)) \<Rightarrow> Some (Inr (n, tr))
      | Some (Inr (Goes_on, rest, tr)) \<Rightarrow> shell E (Suc i) rest tr)"

declare shell.simps [code]

text \<open>The program started on an input.\<close>

definition shell_main :: "shell_env \<Rightarrow> string \<Rightarrow> (int \<times> event list) res option" where
  "shell_main E stdin = shell E 0 stdin []"

section \<open>Words\<close>

text \<open>The reference: the maximal runs of characters other than the blank.\<close>

fun words_of :: "string \<Rightarrow> string \<Rightarrow> string list" where
  "words_of w [] = (if w = [] then [] else [w])"
| "words_of w (c # cs) =
     (if c = CHR '' '' then (if w = [] then words_of [] cs else w # words_of [] cs)
      else words_of (w @ [c]) cs)"

definition shell_words :: "string \<Rightarrow> string list" where
  "shell_words s = words_of [] (cstr s)"

lemma words_of_take:
  "words_of w s = (let t = w @ takeWhile (\<lambda>c. c \<noteq> CHR '' '') s in
     (if t = [] then [] else [t]) @ words_of [] (tl (dropWhile (\<lambda>c. c \<noteq> CHR '' '') s)))"
  by (induction s arbitrary: w) (simp_all add: Let_def)

lemma words_of_skip: "words_of [] s = words_of [] (dropWhile (\<lambda>c. c = CHR '' '') s)"
  by (induction s) simp_all

lemma words_strtok:
  "words_of [] s = (case fst (strtok s) of None \<Rightarrow> [] | Some t \<Rightarrow> t # words_of [] (snd (strtok s)))"
proof (cases "dropWhile (\<lambda>c. c = CHR '' '') s")
  case Nil
  have "strtok s = (None, [])" unfolding strtok_def Nil by simp
  moreover have "words_of [] s = []" unfolding words_of_skip[of s] Nil by simp
  ultimately show ?thesis by simp
next
  case (Cons c cs)
  then have "c \<noteq> CHR '' ''" by (metis (full_types) hd_dropWhile list.sel(1) list.distinct(1))
  then show ?thesis
    unfolding words_of_skip[of s] Cons words_of_take[of "[]" "c # cs"] using Cons
    by (simp add: strtok_def Let_def)
qed

lemma words_of_length: "2 * length (words_of w s) \<le> length s + (if w = [] then 1 else 2)"
proof (induction w s rule: words_of.induct)
  case (2 w c cs)
  then show ?case by (cases "c = CHR '' ''"; cases "w = []") auto
qed simp

definition pending :: "string option \<Rightarrow> string \<Rightarrow> string list" where
  "pending token rest = (case token of None \<Rightarrow> [] | Some t \<Rightarrow> t # words_of [] rest)"

lemma pending_simps [simp]:
  "pending None rest = []"
  "pending (Some t) rest = t # words_of [] rest"
  "pending (fst (strtok s)) (snd (strtok s)) = words_of [] s"
  using words_strtok[of s] by (simp_all add: pending_def)

lemma process_loop_words:
  assumes "n + length (pending token rest) < length command"
  shows "process_loop token rest (int n) command =
    Inr (take n command @ map Some (pending token rest) @ [None]
      @ drop (Suc (n + length (pending token rest))) command)"
  using assms
proof (induction "length (pending token rest)" arbitrary: token rest n command)
  case 0
  then have "token = None" by (cases token) simp_all
  then show ?case using 0
    by (subst process_loop.simps) (simp add: upd_conv_take_nth_drop)
next
  case (Suc k)
  then obtain t where t: "token = Some t" by (cases token) simp_all
  define cm where "cm = command[n := Some t]"
  have "process_loop (fst (strtok rest)) (snd (strtok rest)) (int (Suc n)) cm =
      Inr (take (Suc n) cm @ map Some (words_of [] rest) @ [None]
        @ drop (Suc (Suc n + length (words_of [] rest))) cm)"
    using Suc(1)[of "fst (strtok rest)" "snd (strtok rest)" "Suc n" cm] Suc(2,3) t
    by (simp add: cm_def)
  moreover have "take (Suc n) cm = take n command @ [Some t]"
    using Suc(3) t by (simp add: cm_def take_Suc_conv_app_nth)
  ultimately show ?case
    using Suc(3) t by (subst process_loop.simps) (simp add: Let_def cm_def add.commute)
qed

lemma process_words:
  assumes "length (shell_words s) < length command"
  shows "process s command = Inr (map Some (shell_words s) @ None
    # drop (Suc (length (shell_words s))) command)"
  using process_loop_words[of 0 "fst (strtok (cstr s))" "snd (strtok (cstr s))" command] assms
  by (simp add: process_def shell_words_def Let_def)

lemma shell_words_length: "2 * length (shell_words s) \<le> length s + 1"
proof -
  have "length (cstr s) \<le> length s" unfolding cstr_def by (rule length_takeWhile_le)
  then show ?thesis
    using words_of_length[of "[]" "cstr s"] by (simp add: shell_words_def)
qed

section \<open>Reading\<close>

lemma cstr_exit: "(\<exists>n. cstr (take n cs) = ''exit'') \<longleftrightarrow> take 4 cs = ''exit''"
proof
  assume "\<exists>n. cstr (take n cs) = ''exit''"
  then obtain n where n: "cstr (take n cs) = ''exit''" ..
  have "take n cs = ''exit'' @ dropWhile (\<lambda>c. c \<noteq> NUL) (take n cs)"
    using n unfolding cstr_def by (metis takeWhile_dropWhile_id)
  then obtain z where z: "take n cs = ''exit'' @ z" ..
  have "cs = ''exit'' @ z @ drop n cs"
    using append_take_drop_id[of n cs] unfolding z by simp
  then have "take 4 cs = take 4 (''exit'' @ z @ drop n cs)"
    by (rule arg_cong)
  then show "take 4 cs = ''exit''" by simp
next
  assume "take 4 cs = ''exit''"
  then have "cstr (take 4 cs) = ''exit''" by (simp add: cstr_def NUL_def)
  then show "\<exists>n. cstr (take n cs) = ''exit''" ..
qed

lemma read_loop_skip:
  assumes "CHR 0x0A \<notin> set cs" "length (chars l) + length cs < nat (buffer l)"
    and "\<And>n. cstr (chars l @ take n cs) \<noteq> ''exit''"
  shows "read_loop E i (cs @ rest) l = read_loop E i rest (l\<lparr>chars := chars l @ cs\<rparr>)"
  using assms
proof (induction cs arbitrary: l)
  case (Cons c cs)
  let ?l = "l\<lparr>chars := chars l @ [c]\<rparr>"
  have "put_char E i c l = Inr (Some ?l)"
    using Cons.prems(2) by (simp add: put_char_def Let_def) linarith
  moreover have "cstr (chars l @ [c]) \<noteq> ''exit''"
    using Cons.prems(3)[of 1] by simp
  moreover have "read_loop E i (cs @ rest) ?l = read_loop E i rest (?l\<lparr>chars := chars ?l @ cs\<rparr>)"
  proof (rule Cons.IH)
    fix n show "cstr (chars ?l @ take n cs) \<noteq> ''exit''"
      using Cons.prems(3)[of "Suc n"] by simp
  qed (use Cons.prems in simp_all)
  ultimately show ?case
    using Cons.prems(1) by auto
qed simp

lemma read_start:
  assumes "CHR 0x0A \<notin> set cs" "length cs < 1024" "take 4 cs \<noteq> ''exit''"
  shows "read_loop E i (cs @ rest) \<lparr>buffer = 1024, chars = []\<rparr>
    = read_loop E i rest \<lparr>buffer = 1024, chars = cs\<rparr>"
  using read_loop_skip[of cs "\<lparr>buffer = 1024, chars = []\<rparr>"] assms cstr_exit[of cs] by auto

lemma wait_loop_ends:
  assumes "waited E i n = forked E i"
  shows "m \<le> n \<Longrightarrow> \<exists>k. wait_loop E i m = Some k"
proof (induction "n - m" arbitrary: m)
  case 0
  then show ?case using assms by (subst wait_loop.simps) auto
next
  case (Suc x)
  then show ?case using Suc(1)[of "Suc m"] by (subst wait_loop.simps) auto
qed

section \<open>Properties\<close>

text \<open>An environment in which every call succeeds at once and blocks grow where \<open>moves\<close> says.\<close>

definition kind :: "regrown \<Rightarrow> shell_env" where
  "kind r = \<lparr>allocated = \<lambda>_. (True, True), realloced = \<lambda>_ _. (r, True), forked = \<lambda>i. 100 + int i,
     waited = \<lambda>i _. 100 + int i\<rparr>"

text \<open>
  \<open>process\<close> splits a line of the shell into its words. For a line shorter than the vector,
  which is what the reading loop keeps, the vector receives the maximal blank-free runs of the
  text up to its first null byte, then a null pointer, and is never overrun.
\<close>

theorem process_splits:
  assumes "length s < length command"
  shows "process s command =
    Inr (map Some (shell_words s) @ None # drop (Suc (length (shell_words s))) command)"
  using process_words[of s command] shell_words_length[of s] assms by linarith

theorem process_splits_witness:
  "process '' ls  -l '' (replicate 1024 None) =
     Inr (map Some [''ls'', ''-l''] @ None # drop 3 (replicate 1024 None))"
proof -
  have "shell_words '' ls  -l '' = [''ls'', ''-l'']"
    by (simp add: shell_words_def cstr_def NUL_def)
  then show ?thesis
    using process_splits[of "'' ls  -l ''" "replicate 1024 None"]
    by (simp add: numeral_3_eq_3 del: drop_replicate)
qed

text \<open>
  C39: a line of fewer than 1024 characters that does not begin with \<open>exit\<close> prompts once,
  executes the line's words in one child, waits for it and goes on with the rest of the input.
\<close>

theorem line_executes_words:
  assumes "CHR 0x0A \<notin> set cs" "length cs < 1024" "take 4 cs \<noteq> ''exit''"
    and "allocated E i = (True, True)" "0 \<le> forked E i" "\<exists>n. waited E i n = forked E i"
  shows "round_once E i (cs @ CHR 0x0A # rest) tr = Some (Inr (Goes_on, rest,
    tr @ [Prompt, Child (map Some (shell_words cs) @ replicate (1024 - length (shell_words cs)) None)]))"
proof -
  obtain k where k: "wait_loop E i 0 = Some k"
    using wait_loop_ends assms(6) by blast
  have w: "length (shell_words cs) < 1024"
    using shell_words_length[of cs] assms(2) by linarith
  then have n: "1024 - length (shell_words cs) = Suc (1023 - length (shell_words cs))"
    by simp
  have "process cs (replicate 1024 None) =
      Inr (map Some (shell_words cs) @ replicate (1024 - length (shell_words cs)) None)"
    using process_words[of cs "replicate 1024 None"] w by (simp add: n)
  then show ?thesis
    using assms(4,5) k by (simp add: round_once_def read_start[OF assms(1-3)] run_def Let_def)
qed

theorem line_executes_words_witness:
  "round_once (kind Stayed) 0 (''ls'' @ CHR 0x0A # ''exit'') [] = Some (Inr (Goes_on, ''exit'',
    [Prompt, Child (Some ''ls'' # replicate 1023 None)]))"
proof -
  have "shell_words ''ls'' = [''ls'']" by (simp add: shell_words_def cstr_def NUL_def)
  then show ?thesis
    using line_executes_words[of "''ls''" "kind Stayed" 0 "''exit''" "[]"] by (simp add: kind_def)
qed

text \<open>
  The shell ends as soon as the first four characters of a line are \<open>exit\<close>, before it reads
  the rest of the word: no command whose name begins so can be run.
\<close>

theorem exit_prefix_ends:
  assumes "allocated E i = (True, True)"
  shows "shell E i (''exit'' @ rest) tr = Some (Inr (0, tr @ [Prompt]))"
proof -
  have "read_loop E i (''exi'' @ CHR ''t'' # rest) \<lparr>buffer = 1024, chars = []\<rparr> = Inr (Quit [] rest)"
    unfolding read_start[of "''exi''", simplified] by (simp add: put_char_def cstr_def NUL_def)
  then show ?thesis
    using assms by (subst shell.simps) (simp add: round_once_def)
qed

theorem exit_prefix_ends_witness: "shell_main (kind Moved) ''exiting now'' = Some (Inr (0, [Prompt]))"
  using exit_prefix_ends[of "kind Moved" 0 "''ing now''" "[]"] by (simp add: kind_def shell_main_def)

definition children_work :: "shell_env \<Rightarrow> bool" where
  "children_work E \<longleftrightarrow> (\<forall>i. allocated E i = (True, True) \<and> 0 \<le> forked E i
     \<and> (\<exists>n. waited E i n = forked E i))"

lemma round_at_eof:
  assumes "children_work E"
  shows "\<exists>tr'. round_once E i [] tr = Some (Inr (Goes_on, [], tr'))"
proof -
  have a: "allocated E i = (True, True)" "0 \<le> forked E i"
    using assms by (simp_all add: children_work_def)
  obtain k where "wait_loop E i 0 = Some k"
    using assms wait_loop_ends by (metis children_work_def le0)
  then show ?thesis
    using a by (simp add: round_once_def run_def process_words shell_words_def cstr_def)
qed

lemma shell_eof:
  assumes "shell E i stdin tr = Some r"
  shows "\<not> (stdin = [] \<and> children_work E)"
proof (rule shell.raw_induct[OF _ assms], rule notI)
  fix f E i stdin tr r
  assume IH: "\<And>E i stdin tr r. f E i stdin tr = Some r \<Longrightarrow> \<not> (stdin = [] \<and> children_work E)"
    and run: "(case round_once E i stdin tr of
        None \<Rightarrow> None
      | Some (Inl e) \<Rightarrow> Some (Inl e)
      | Some (Inr (Exits n, rest, tr)) \<Rightarrow> Some (Inr (n, tr))
      | Some (Inr (Goes_on, rest, tr)) \<Rightarrow> f E (Suc i) rest tr) = Some r"
    and a: "stdin = [] \<and> children_work E"
  obtain tr' where "round_once E i [] tr = Some (Inr (Goes_on, [], tr'))"
    using round_at_eof a by blast
  then have "f E (Suc i) [] tr' = Some r" using run a by simp
  then show False using IH a by blast
qed

text \<open>
  At the end of its input the shell does not end: while memory, children and \<open>wait\<close> work, it
  prompts and executes the empty vector for ever.
\<close>

theorem eof_never_ends:
  assumes "children_work E"
  shows "shell E i [] tr = None"
  using shell_eof[of E i "[]" tr] assms by (cases "shell E i [] tr") auto

theorem eof_never_ends_witness: "shell_main (kind Stayed) [] = None"
  unfolding shell_main_def by (rule eof_never_ends) (simp add: children_work_def kind_def)

text \<open>
  A line that reaches the buffer's 1024 characters makes the shell write through the pointer
  it has just given to \<open>realloc\<close>: when the block moves, that is freed memory.
\<close>

theorem full_buffer_writes_freed:
  assumes "CHR 0x0A \<notin> set cs" "length cs = 1024" "take 4 cs \<noteq> ''exit''"
    and "allocated E i = (True, True)" "realloced E i 2048 = (Moved, ok)"
  shows "round_once E i (cs @ rest) tr = Some (Inl BadPointer)"
proof -
  obtain c where c: "cs = butlast cs @ [c]"
    using assms(2) by (metis append_butlast_last_id list.size(3) zero_neq_numeral)
  have b: "CHR 0x0A \<notin> set (butlast cs)" "length (butlast cs) < 1024"
    using assms(1,2) by (auto dest: in_set_butlastD)
  have "take 4 (butlast cs) = take 4 cs"
    using assms(2) by (simp add: take_butlast)
  then have e: "take 4 (butlast cs) \<noteq> ''exit''" using assms(3) by simp
  have "c \<noteq> CHR 0x0A" using assms(1) c by (metis in_set_conv_decomp)
  moreover have "put_char E i c \<lparr>buffer = 1024, chars = butlast cs\<rparr> = Inl BadPointer"
    using assms(2,5) by (simp add: put_char_def grow_def INT_MAX_def Let_def)
  ultimately have "read_loop E i (butlast cs @ c # rest) \<lparr>buffer = 1024, chars = []\<rparr> = Inl BadPointer"
    unfolding read_start[OF b e] by simp
  moreover have split: "cs @ rest = butlast cs @ c # rest"
    using c by (metis append.assoc append_Cons append_Nil)
  ultimately show ?thesis using assms(4) unfolding round_once_def split by simp
qed

theorem full_buffer_writes_freed_witness:
  "round_once (kind Moved) 0 (replicate 1024 CHR ''a'' @ ''z'') [] = Some (Inl BadPointer)"
  by (rule full_buffer_writes_freed) (simp_all add: kind_def numeral_eq_Suc)

end
