(* ===== verification/BootParams.thy ===== *)
theory BootParams
  imports Prelude
begin

text \<open>
  The boot-parameter handlers of \<^verbatim>\<open>project 2/main.c\<close> (the kernel's \<^verbatim>\<open>init/main.c\<close> with the changes of
  project 2): what becomes of the words of the kernel command line that no module claims, and
  of the arguments and the environment of the first process.

  The command line is a buffer of characters that the handlers edit in place; a pointer into it
  is a position, and a null byte ends a string. The table of \<^verbatim>\<open>__setup\<close> handlers is put together
  by the linker from the whole kernel, so it is a parameter, as are \<open>parameq\<close>, \<open>parameqn\<close> and
  \<open>get_option\<close> of other files. \<open>limit\<close> is \<^verbatim>\<open>CONFIG_INIT_ENV_ARG_LIMIT\<close>. A handler takes a string
  position and returns its result and the state.
\<close>

section \<open>State\<close>

datatype cptr = Lit string | At nat

record boot =
  cmdline :: string
  argv_init :: "cptr option list"
  envp_init :: "cptr option list"
  panic_later :: "string option"
  panic_param :: "nat option"
  execute_command :: "cptr option"
  ramdisk_execute_command :: "cptr option"
  console_loglevel :: int
  reset_devices :: int
  warned :: "(string \<times> string) list"

record 'b obs_kernel_param =
  str :: string
  early :: bool
  setup_func :: "(nat option \<Rightarrow> 'b \<Rightarrow> int \<times> 'b) option"

record boot_env =
  limit :: nat
  table :: "boot obs_kernel_param list"
  parameq :: "string \<Rightarrow> string \<Rightarrow> bool"
  parameqn :: "string \<Rightarrow> string \<Rightarrow> nat \<Rightarrow> bool"
  get_option :: "string \<Rightarrow> int \<times> int"      \<comment> \<open>its result and the number it stores\<close>

definition boot_start :: "nat \<Rightarrow> string \<Rightarrow> int \<Rightarrow> boot" where
  "boot_start lim cmd level =
     \<lparr>cmdline = cmd,
      argv_init = Some (Lit ''init'') # replicate (lim + 1) None,
      envp_init = Some (Lit ''HOME=/'') # Some (Lit ''TERM=linux'') # replicate lim None,
      panic_later = None, panic_param = None, execute_command = None,
      ramdisk_execute_command = None, console_loglevel = level, reset_devices = 0, warned = []\<rparr>"

text \<open>The string at a position, and at a pointer.\<close>

definition str_at :: "boot \<Rightarrow> nat \<Rightarrow> string" where
  "str_at b p = takeWhile (\<lambda>c. c \<noteq> NUL) (drop p (cmdline b))"

fun c_str :: "boot \<Rightarrow> cptr \<Rightarrow> string" where
  "c_str b (Lit s) = s"
| "c_str b (At p) = str_at b p"

section \<open>Simple parameters\<close>

definition set_reset_devices :: "nat option \<Rightarrow> boot \<Rightarrow> int \<times> boot" where
  "set_reset_devices p b = (1, b\<lparr>reset_devices := 1\<rparr>)"

definition CONSOLE_LOGLEVEL_QUIET :: int where "CONSOLE_LOGLEVEL_QUIET = 4"
definition CONSOLE_LOGLEVEL_DEBUG :: int where "CONSOLE_LOGLEVEL_DEBUG = 10"

definition debug_kernel :: "nat option \<Rightarrow> boot \<Rightarrow> int \<times> boot" where
  "debug_kernel p b = (0, b\<lparr>console_loglevel := CONSOLE_LOGLEVEL_DEBUG\<rparr>)"

definition quiet_kernel :: "nat option \<Rightarrow> boot \<Rightarrow> int \<times> boot" where
  "quiet_kernel p b = (0, b\<lparr>console_loglevel := CONSOLE_LOGLEVEL_QUIET\<rparr>)"

definition loglevel :: "boot_env \<Rightarrow> nat option \<Rightarrow> boot \<Rightarrow> int \<times> boot" where
  "loglevel E p b =
     (let (r, newlevel) = get_option E (case p of None \<Rightarrow> [] | Some p \<Rightarrow> str_at b p) in
      if r \<noteq> 0 then (0, b\<lparr>console_loglevel := newlevel\<rparr>) else (- EINVAL, b))"

text \<open>\<open>for (i = 1; i < MAX_INIT_ARGS; i++) argv_init[i] = NULL;\<close>\<close>

definition clear_args :: "boot_env \<Rightarrow> boot \<Rightarrow> boot" where
  "clear_args E b = b\<lparr>argv_init := fold (\<lambda>i a. a[i := None]) [1..<limit E] (argv_init b)\<rparr>"

definition init_setup :: "boot_env \<Rightarrow> nat option \<Rightarrow> boot \<Rightarrow> int \<times> boot" where
  "init_setup E p b = (1, clear_args E (b\<lparr>execute_command := map_option At p\<rparr>))"

definition rdinit_setup :: "boot_env \<Rightarrow> nat option \<Rightarrow> boot \<Rightarrow> int \<times> boot" where
  "rdinit_setup E p b = (1, clear_args E (b\<lparr>ramdisk_execute_command := map_option At p\<rparr>))"

section \<open>Obsolete and early parameters\<close>

text \<open>The loop of \<open>obsolete_checksetup\<close>; \<open>had\<close> is \<open>had_early_param\<close>.\<close>

fun checksetup_loop ::
  "boot_env \<Rightarrow> nat \<Rightarrow> bool \<Rightarrow> boot obs_kernel_param list \<Rightarrow> boot \<Rightarrow> bool \<times> boot" where
  "checksetup_loop E line had [] b = (had, b)"
| "checksetup_loop E line had (p # ps) b =
     (let n = length (str p) in
      if parameqn E (str_at b line) (str p) n then
        (if early p then
           (let c = (if line + n < length (cmdline b) then cmdline b ! (line + n) else NUL) in
            checksetup_loop E line (had \<or> c = NUL \<or> c = CHR ''='') ps b)
         else
           (case setup_func p of
              None \<Rightarrow> (True, b\<lparr>warned := warned b @ [(''Parameter %s is obsolete, ignored'', str p)]\<rparr>)
            | Some f \<Rightarrow>
                (let (r, b) = f (Some (line + n)) b in
                 if r \<noteq> 0 then (True, b) else checksetup_loop E line had ps b)))
      else checksetup_loop E line had ps b)"

text \<open>The loop is a \<open>do\<close>: it reads the first entry before it compares with the end.\<close>

definition obsolete_checksetup :: "boot_env \<Rightarrow> nat \<Rightarrow> boot \<Rightarrow> (bool \<times> boot) res" where
  "obsolete_checksetup E line b =
     (if table E = [] then Inl OutOfBounds else Inr (checksetup_loop E line False (table E) b))"

fun early_loop ::
  "boot_env \<Rightarrow> nat \<Rightarrow> nat option \<Rightarrow> boot obs_kernel_param list \<Rightarrow> boot \<Rightarrow> boot res" where
  "early_loop E param val [] b = Inr b"
| "early_loop E param val (p # ps) b =
     (if (early p \<and> parameq E (str_at b param) (str p))
         \<or> (str_at b param = ''console'' \<and> str p = ''earlycon'')
      then
        (case setup_func p of
           None \<Rightarrow> Inl BadPointer
         | Some f \<Rightarrow>
             (let (r, b) = f val b in
              early_loop E param val ps
                (if r \<noteq> 0 then b\<lparr>warned := warned b @ [(''Malformed early option'', str_at b param)]\<rparr>
                 else b)))
      else early_loop E param val ps b)"

definition do_early_param :: "boot_env \<Rightarrow> nat \<Rightarrow> nat option \<Rightarrow> boot \<Rightarrow> (int \<times> boot) res" where
  "do_early_param E param val b =
     andThen (early_loop E param val (table E) b) (\<lambda>b. Inr (0, b))"

section \<open>Arguments and environment of the first process\<close>

text \<open>
  \<open>memmove(val-1, val, strlen(val)+1)\<close>: the string at \<open>v\<close> and its null byte, one place down.
\<close>

definition move_down :: "nat \<Rightarrow> boot \<Rightarrow> boot" where
  "move_down v b =
     (let s = str_at b v; m = cmdline b in
      b\<lparr>cmdline := take (v - 1) m @ s @ [NUL] @ drop (v + length s) m\<rparr>)"

definition repair_env_string :: "nat \<Rightarrow> nat option \<Rightarrow> boot \<Rightarrow> boot res" where
  "repair_env_string param val b =
     (case val of
        None \<Rightarrow> Inr b
      | Some v \<Rightarrow>
          (let n = length (str_at b param) in
           if v = param + n + 1 then
             andThen (aset (cmdline b) (int v - 1) (CHR ''='')) (\<lambda>m. Inr (b\<lparr>cmdline := m\<rparr>))
           else if v = param + n + 2 then
             andThen (aset (cmdline b) (int v - 2) (CHR ''='')) (\<lambda>m.
             Inr (move_down v (b\<lparr>cmdline := m\<rparr>)))
           else Inl BugOn))"

text \<open>
  The scan of \<open>set_init_arg\<close>: the first free index, or \<open>None\<close> when index \<open>limit\<close> is taken.
\<close>

function arg_slot :: "boot_env \<Rightarrow> nat \<Rightarrow> cptr option list \<Rightarrow> nat option res" where
  "arg_slot E i argv =
     andThen (aget argv (int i)) (\<lambda>a.
     case a of
       None \<Rightarrow> Inr (Some i)
     | Some _ \<Rightarrow> if i = limit E then Inr None else arg_slot E (Suc i) argv)"
  by pat_completeness auto
termination
  by (relation "measure (\<lambda>(E, i, argv). length argv - i)") (auto simp: aget_def split: if_splits)

declare arg_slot.simps [simp del]

definition set_init_arg :: "boot_env \<Rightarrow> nat \<Rightarrow> nat option \<Rightarrow> boot \<Rightarrow> boot res" where
  "set_init_arg E param val b =
     (if panic_later b \<noteq> None then Inr b
      else
        andThen (repair_env_string param val b) (\<lambda>b.
        andThen (arg_slot E 0 (argv_init b)) (\<lambda>slot.
        case slot of
          None \<Rightarrow> Inr (b\<lparr>panic_later := Some ''init'', panic_param := Some param\<rparr>)
        | Some i \<Rightarrow>
            andThen (aset (argv_init b) (int i) (Some (At param))) (\<lambda>a.
            Inr (b\<lparr>argv_init := a\<rparr>)))))"

text \<open>
  The scans of \<open>unknown_bootoption\<close>: they note that the limit is reached and go on. \<open>same\<close> is the
  test that ends the scan of the environment.
\<close>

function free_slot ::
  "boot_env \<Rightarrow> (cptr \<Rightarrow> bool) \<Rightarrow> bool \<Rightarrow> nat \<Rightarrow> cptr option list \<Rightarrow> (bool \<times> nat) res" where
  "free_slot E same full i xs =
     andThen (aget xs (int i)) (\<lambda>a.
     case a of
       None \<Rightarrow> Inr (full, i)
     | Some p \<Rightarrow>
         (let full = (full \<or> i = limit E) in
          if same p then Inr (full, i) else free_slot E same full (Suc i) xs))"
  by pat_completeness auto
termination
  by (relation "measure (\<lambda>(E, same, full, i, xs). length xs - i)")
    (auto simp: aget_def split: if_splits)

declare free_slot.simps [simp del]

text \<open>\<open>strchr(param, c)\<close> as a position.\<close>

definition strchr :: "boot \<Rightarrow> nat \<Rightarrow> char \<Rightarrow> nat option" where
  "strchr b p c =
     (let s = takeWhile (\<lambda>x. x \<noteq> c) (str_at b p) in
      if length s < length (str_at b p) then Some (p + length s) else None)"

definition strncmp_eq :: "string \<Rightarrow> string \<Rightarrow> nat \<Rightarrow> bool" where
  "strncmp_eq s t n \<longleftrightarrow> take n s = take n t"

definition unknown_bootoption :: "boot_env \<Rightarrow> nat \<Rightarrow> nat option \<Rightarrow> boot \<Rightarrow> boot res" where
  "unknown_bootoption E param val b =
     andThen (repair_env_string param val b) (\<lambda>b.
     andThen (obsolete_checksetup E param b) (\<lambda>(done, b).
     if done then Inr b
     else if (case strchr b param (CHR ''.'') of None \<Rightarrow> False
              | Some d \<Rightarrow> (case val of None \<Rightarrow> True | Some v \<Rightarrow> d < v)) then Inr b
     else if panic_later b \<noteq> None then Inr b
     else
       (case val of
          Some v \<Rightarrow>
            andThen (free_slot E (\<lambda>e. strncmp_eq (str_at b param) (c_str b e) (v - param)) False 0
                       (envp_init b)) (\<lambda>(full, i).
            andThen (aset (envp_init b) (int i) (Some (At param))) (\<lambda>e.
            let b = b\<lparr>envp_init := e\<rparr> in
            Inr (if full then b\<lparr>panic_later := Some ''env'', panic_param := Some param\<rparr> else b)))
        | None \<Rightarrow>
            andThen (free_slot E (\<lambda>_. False) False 0 (argv_init b)) (\<lambda>(full, i).
            andThen (aset (argv_init b) (int i) (Some (At param))) (\<lambda>a.
            let b = b\<lparr>argv_init := a\<rparr> in
            Inr (if full then b\<lparr>panic_later := Some ''init'', panic_param := Some param\<rparr> else b))))))"

end
