(* ===== verification/BootParams_Props.thy ===== *)
theory BootParams_Props
  imports BootParams
begin

text \<open>
  What the boot-parameter handlers guarantee: the scans of the argument and environment arrays
  stay inside them whatever the command line says, an option is appended where the handler
  means to, and the in-place repair gives back the option as it was written.
\<close>

section \<open>The strings of the command line\<close>

lemma str_at_split:
  assumes "cmdline b = pre @ s @ NUL # post" "NUL \<notin> set s" "p = length pre"
  shows "str_at b p = s"
proof -
  have "takeWhile (\<lambda>c. c \<noteq> NUL) (s @ NUL # post) = s"
    using assms(2) by (induction s) auto
  then show ?thesis using assms(1,3) by (simp add: str_at_def)
qed

text \<open>The word at \<open>param\<close> with the value at \<open>val\<close>, as the parser of the command line leaves it.\<close>

definition word_ok :: "boot \<Rightarrow> nat \<Rightarrow> nat option \<Rightarrow> bool" where
  [wf_defs]: "word_ok b param val \<longleftrightarrow>
     param + length (str_at b param) < length (cmdline b) \<and>
     (case val of None \<Rightarrow> True
      | Some v \<Rightarrow> v = param + length (str_at b param) + 1 \<or> v = param + length (str_at b param) + 2)"

lemma repair_runs:
  assumes "word_ok b param val"
  shows "\<exists>m. repair_env_string param val b = Inr (b\<lparr>cmdline := m\<rparr>)"
proof (cases val)
  case None
  then show ?thesis by (intro exI[of _ "cmdline b"]) (simp add: repair_env_string_def)
next
  case (Some v)
  have "int v - 1 < int (length (cmdline b)) \<or> int v - 2 < int (length (cmdline b))" "1 \<le> v"
    using assms Some by (auto simp: word_ok_def)
  then show ?thesis
    using assms Some by (auto simp: word_ok_def repair_env_string_def move_down_def Let_def)
qed

lemma repair_plain:
  assumes "cmdline b = pre @ name @ NUL # value @ NUL # post" "NUL \<notin> set name"
    and "param = length pre" "v = param + length name + 1"
  shows "repair_env_string param (Some v) b =
    Inr (b\<lparr>cmdline := pre @ name @ CHR ''='' # value @ NUL # post\<rparr>)"
proof -
  have s: "str_at b param = name"
    using str_at_split[of b pre name "value @ NUL # post" param] assms by simp
  have "(cmdline b)[length pre + length name := CHR ''=''] = pre @ name @ CHR ''='' # value @ NUL # post"
    unfolding assms(1) by (simp add: list_update_append)
  then show ?thesis
    using s assms by (simp add: repair_env_string_def nat_add_distrib)
qed

lemma repair_quoted:
  assumes "cmdline b = pre @ name @ NUL # q # value @ NUL # post" "NUL \<notin> set name" "NUL \<notin> set value"
    and "param = length pre" "v = param + length name + 2"
  shows "repair_env_string param (Some v) b =
    Inr (b\<lparr>cmdline := pre @ name @ CHR ''='' # value @ NUL # NUL # post\<rparr>)"
proof -
  have s: "str_at b param = name"
    using str_at_split[of b pre name "q # value @ NUL # post" param] assms by simp
  let ?m = "pre @ name @ CHR ''='' # q # value @ NUL # post"
  have u: "(cmdline b)[length pre + length name := CHR ''=''] = ?m"
    unfolding assms(1) by (simp add: list_update_append)
  have sv: "str_at (b\<lparr>cmdline := ?m\<rparr>) v = value"
    using str_at_split[of "b\<lparr>cmdline := ?m\<rparr>" "pre @ name @ [CHR ''='', q]" "value" post v] assms(3-5)
    by simp
  have "take (v - 1) ?m = pre @ name @ [CHR ''='']" "drop (v + length value) ?m = NUL # post"
    using assms(4,5) by simp_all
  then have "move_down v (b\<lparr>cmdline := ?m\<rparr>) = b\<lparr>cmdline := pre @ name @ CHR ''='' # value @ NUL # NUL # post\<rparr>"
    unfolding move_down_def sv Let_def by simp
  then show ?thesis
    using s assms(1,4,5) u by (simp add: repair_env_string_def nat_add_distrib)
qed

section \<open>The scans\<close>

definition arrays_ok :: "boot_env \<Rightarrow> boot \<Rightarrow> bool" where
  [wf_defs]: "arrays_ok E b \<longleftrightarrow> length (argv_init b) = limit E + 2 \<and> length (envp_init b) = limit E + 2
     \<and> (panic_later b = None \<longrightarrow>
          argv_init b ! (limit E + 1) = None \<and> envp_init b ! (limit E + 1) = None)"

text \<open>The handlers of the table keep the arrays in order, as those of this file do.\<close>

definition good_table :: "boot_env \<Rightarrow> bool" where
  "good_table E \<longleftrightarrow> table E \<noteq> [] \<and> (\<forall>p \<in> set (table E). \<forall>f. setup_func p = Some f \<longrightarrow>
     (\<forall>a b. arrays_ok E b \<longrightarrow> arrays_ok E (snd (f a b))))"

lemma fold_clear_length: "length (fold (\<lambda>i a. a[i := None]) is a) = length a"
  by (induction "is" arbitrary: a) simp_all

lemma fold_clear_nth:
  "j \<notin> set is \<Longrightarrow> fold (\<lambda>i a. a[i := None]) is a ! j = a ! j"
  by (induction "is" arbitrary: a) simp_all

lemma fold_clear_hit:
  "j \<in> set is \<Longrightarrow> j < length a \<Longrightarrow> fold (\<lambda>i a. a[i := None]) is a ! j = None"
proof (induction "is" arbitrary: a)
  case (Cons i "is")
  then show ?case
    by (cases "j \<in> set is") (simp_all add: fold_clear_nth)
qed simp

lemma clear_args_ok: "arrays_ok E b \<Longrightarrow> arrays_ok E (clear_args E b)"
  by (auto simp: arrays_ok_def clear_args_def fold_clear_length fold_clear_nth)

lemma file_handlers_ok:
  assumes "arrays_ok E b"
  shows "arrays_ok E (snd (init_setup E a b))" "arrays_ok E (snd (rdinit_setup E a b))"
    "arrays_ok E (snd (set_reset_devices a b))" "arrays_ok E (snd (debug_kernel a b))"
    "arrays_ok E (snd (quiet_kernel a b))" "arrays_ok E (snd (loglevel E a b))"
proof -
  show "arrays_ok E (snd (init_setup E a b))" "arrays_ok E (snd (rdinit_setup E a b))"
    unfolding init_setup_def rdinit_setup_def snd_conv
    by (rule clear_args_ok; use assms in \<open>simp add: arrays_ok_def\<close>)+
qed (use assms in \<open>auto simp: arrays_ok_def set_reset_devices_def debug_kernel_def quiet_kernel_def
      loglevel_def split: prod.splits\<close>)

lemma checksetup_ok:
  assumes "arrays_ok E b" "\<And>p f a b. p \<in> set ps \<Longrightarrow> setup_func p = Some f \<Longrightarrow> arrays_ok E b \<Longrightarrow>
      arrays_ok E (snd (f a b))"
  shows "arrays_ok E (snd (checksetup_loop E line had ps b))"
  using assms
proof (induction ps arbitrary: had b)
  case (Cons p ps)
  have IH: "arrays_ok E (snd (checksetup_loop E line had ps b))" if "arrays_ok E b" for had b
    by (rule Cons.IH[OF that]) (rule Cons.prems(2), simp_all)
  have warn: "arrays_ok E (b\<lparr>warned := w\<rparr>)" for w
    using Cons.prems(1) by (simp add: arrays_ok_def)
  have func: "arrays_ok E b'" if "setup_func p = Some f" "f a b = (r, b')" for f a r b'
    using Cons.prems(2)[of p f b a] Cons.prems(1) that by simp
  show ?case
    using Cons.prems(1) by (auto simp: Let_def IH warn split: option.split prod.split dest: func)
qed simp

lemma arg_slot_runs:
  assumes "length xs = limit E + 2" "xs ! (limit E + 1) = None" "i \<le> limit E"
  shows "arg_slot E i xs = Inr None \<or> (\<exists>j \<le> limit E. arg_slot E i xs = Inr (Some j))"
  using assms(3)
proof (induction "limit E - i" arbitrary: i)
  case 0
  then show ?case using assms(1,2) by (subst (1 2) arg_slot.simps) (auto split: option.splits)
next
  case (Suc k)
  then have "arg_slot E (Suc i) xs = Inr None \<or> (\<exists>j \<le> limit E. arg_slot E (Suc i) xs = Inr (Some j))"
    by (intro Suc(1)) simp_all
  then show ?case using assms(1) Suc(2,3) by (subst (1 2) arg_slot.simps) (auto split: option.splits)
qed

lemma free_slot_runs:
  assumes "length xs = limit E + 2" "xs ! (limit E + 1) = None" "i \<le> limit E + 1"
    and "i = limit E + 1 \<longrightarrow> full"
  shows "\<exists>f j. free_slot E same full i xs = Inr (f, j) \<and> j \<le> limit E + 1 \<and> (j = limit E + 1 \<longrightarrow> f)"
  using assms(3,4)
proof (induction "limit E + 1 - i" arbitrary: i full)
  case 0
  then have "i = limit E + 1" "full" by simp_all
  then show ?case using assms(1,2) by (subst free_slot.simps) (auto simp add: nat_add_distrib)
next
  case (Suc k)
  have "\<exists>f j. free_slot E same (full \<or> i = limit E) (Suc i) xs = Inr (f, j) \<and> j \<le> limit E + 1
      \<and> (j = limit E + 1 \<longrightarrow> f)"
    using Suc(2,3) by (intro Suc(1)) auto
  then show ?case
    using assms(1) Suc(2,3,4) by (subst free_slot.simps) (auto simp: Let_def split: option.splits)
qed

lemma checksetup_none:
  assumes "\<forall>p \<in> set ps. \<not> parameqn E (str_at b line) (str p) (length (str p))"
  shows "checksetup_loop E line had ps b = (had, b)"
  using assms by (induction ps) (simp_all add: Let_def)

lemma repair_keeps_arrays:
  assumes "repair_env_string param val b = Inr b'" "arrays_ok E b"
  shows "arrays_ok E b'"
  using assms by (auto simp: repair_env_string_def move_down_def Let_def andThen_eq_Inr arrays_ok_def
      split: option.splits if_splits)

lemma free_slot_third:
  assumes "\<not> same x"
  shows "\<exists>f. free_slot E same False 0 (Some x # Some y # None # xs) = Inr (f, if same y then 1 else 2)"
proof -
  let ?xs = "Some x # Some y # None # xs"
  have 2: "free_slot E same full 2 ?xs = Inr (full, 2)" for full
    by (subst free_slot.simps) simp
  have 1: "free_slot E same full 1 ?xs = (if same y then Inr (full \<or> 1 = limit E, 1)
      else Inr (full \<or> 1 = limit E, 2))" for full
    using 2 by (subst free_slot.simps) (simp add: Let_def numeral_2_eq_2)
  have "free_slot E same False 0 ?xs = free_slot E same (0 = limit E) 1 ?xs"
    using assms by (subst free_slot.simps) (simp add: Let_def)
  then show ?thesis using 1[of "0 = limit E"] by (cases "same y") auto
qed

section \<open>Properties\<close>

text \<open>An environment with the handlers of this file, and exact names.\<close>

definition demo_boot :: "nat \<Rightarrow> boot_env" where
  "demo_boot lim = \<lparr>limit = lim,
     table = [\<lparr>str = ''reset_devices'', early = False, setup_func = Some set_reset_devices\<rparr>,
              \<lparr>str = ''quiet'', early = True, setup_func = Some quiet_kernel\<rparr>],
     parameq = (=), parameqn = \<lambda>s t n. take n s = take n t, get_option = \<lambda>_. (0, 0)\<rparr>"

lemma demo_boot_good: "good_table (demo_boot lim)"
proof -
  have "table (demo_boot lim) = [\<lparr>str = ''reset_devices'', early = False, setup_func = Some set_reset_devices\<rparr>,
      \<lparr>str = ''quiet'', early = True, setup_func = Some quiet_kernel\<rparr>]"
    by (simp add: demo_boot_def)
  then show ?thesis
    unfolding good_table_def using file_handlers_ok(3,5) by simp
qed

lemma boot_start_ok:
  assumes "0 < limit E"
  shows "arrays_ok E (boot_start (limit E) cmd lev)"
proof -
  obtain n where n: "limit E = Suc n" using assms by (cases "limit E") simp_all
  have "(None # replicate n None) ! n = (None :: cptr option)"
    using nth_replicate[of n "Suc n" "None :: cptr option"] by simp
  then show ?thesis by (simp add: arrays_ok_def boot_start_def n)
qed

lemma demo_boot_limit [simp]: "limit (demo_boot lim) = lim"
  by (simp add: demo_boot_def)

text \<open>What \<open>unknown_bootoption\<close> does once the word is repaired and no table entry has claimed it.\<close>

definition put_env :: "boot_env \<Rightarrow> nat \<Rightarrow> nat \<Rightarrow> boot \<Rightarrow> boot res" where
  "put_env E param v c =
     andThen (free_slot E (\<lambda>e. strncmp_eq (str_at c param) (c_str c e) (v - param)) False 0 (envp_init c))
       (\<lambda>(full, i).
     andThen (aset (envp_init c) (int i) (Some (At param))) (\<lambda>e.
     let b = c\<lparr>envp_init := e\<rparr> in
     Inr (if full then b\<lparr>panic_later := Some ''env'', panic_param := Some param\<rparr> else b)))"

definition put_arg :: "boot_env \<Rightarrow> nat \<Rightarrow> boot \<Rightarrow> boot res" where
  "put_arg E param c =
     andThen (free_slot E (\<lambda>_. False) False 0 (argv_init c)) (\<lambda>(full, i).
     andThen (aset (argv_init c) (int i) (Some (At param))) (\<lambda>a.
     let b = c\<lparr>argv_init := a\<rparr> in
     Inr (if full then b\<lparr>panic_later := Some ''init'', panic_param := Some param\<rparr> else b)))"

lemma put_ok:
  assumes "arrays_ok E c" "panic_later c = None"
  shows "\<exists>b'. put_env E param v c = Inr b' \<and> arrays_ok E b'" "\<exists>b'. put_arg E param c = Inr b' \<and> arrays_ok E b'"
proof -
  have a: "length (argv_init c) = limit E + 2" "argv_init c ! (limit E + 1) = None"
    "length (envp_init c) = limit E + 2" "envp_init c ! (limit E + 1) = None"
    using assms by (simp_all add: arrays_ok_def)
  obtain f j where "free_slot E (\<lambda>e. strncmp_eq (str_at c param) (c_str c e) (v - param))
      False 0 (envp_init c) = Inr (f, j)" "j \<le> limit E + 1" "j = limit E + 1 \<longrightarrow> f"
    using free_slot_runs[OF a(3,4), of 0 False
        "\<lambda>e. strncmp_eq (str_at c param) (c_str c e) (v - param)"] by auto
  then show "\<exists>b'. put_env E param v c = Inr b' \<and> arrays_ok E b'"
    using a assms by (auto simp: put_env_def arrays_ok_def nth_list_update_if Let_def)
  obtain f j where "free_slot E (\<lambda>_. False) False 0 (argv_init c) = Inr (f, j)"
    "j \<le> limit E + 1" "j = limit E + 1 \<longrightarrow> f"
    using free_slot_runs[OF a(1,2), of 0 False "\<lambda>_. False"] by auto
  then show "\<exists>b'. put_arg E param c = Inr b' \<and> arrays_ok E b'"
    using a assms by (auto simp: put_arg_def arrays_ok_def nth_list_update_if Let_def)
qed

lemma bootoption_run:
  assumes "repair_env_string param val b = Inr b1" "obsolete_checksetup E param b1 = Inr (d, c)"
  shows "unknown_bootoption E param val b = Inr c \<or> (panic_later c = None
    \<and> unknown_bootoption E param val b = (case val of Some v \<Rightarrow> put_env E param v c | None \<Rightarrow> put_arg E param c))"
  unfolding unknown_bootoption_def assms andThen_simps prod.case put_env_def[symmetric] put_arg_def[symmetric]
  by (simp split: if_split)

text \<open>
  C20: whatever word the command line holds, \<open>unknown_bootoption\<close> returns without leaving the
  argument or environment array, and either both arrays still end with a null pointer or the
  kernel is set to panic and never scans them again.
\<close>

theorem bootoption_in_bounds:
  assumes "arrays_ok E b" "good_table E" "word_ok b param val"
  shows "\<exists>b'. unknown_bootoption E param val b = Inr b' \<and> arrays_ok E b'"
proof -
  obtain m where m: "repair_env_string param val b = Inr (b\<lparr>cmdline := m\<rparr>)"
    using repair_runs[OF assms(3)] by blast
  obtain d c where r: "checksetup_loop E param False (table E) (b\<lparr>cmdline := m\<rparr>) = (d, c)"
    by fastforce
  have "arrays_ok E (b\<lparr>cmdline := m\<rparr>)" using assms(1) by (simp add: arrays_ok_def)
  from checksetup_ok[OF this, of "table E" param False] have ok: "arrays_ok E c"
    using assms(2) unfolding good_table_def r snd_conv by blast
  have chk: "obsolete_checksetup E param (b\<lparr>cmdline := m\<rparr>) = Inr (d, c)"
    using assms(2) by (simp add: obsolete_checksetup_def good_table_def r)
  from bootoption_run[OF m chk] show ?thesis
    using ok put_ok[OF ok] by (cases val) auto
qed

theorem bootoption_in_bounds_witness:
  "\<exists>b'. unknown_bootoption (demo_boot 2) 0 None (boot_start 2 (''single'' @ [NUL]) 7) = Inr b'
    \<and> arrays_ok (demo_boot 2) b'"
proof (rule bootoption_in_bounds[OF _ demo_boot_good])
  show "arrays_ok (demo_boot 2) (boot_start 2 (''single'' @ [NUL]) 7)"
    using boot_start_ok[of "demo_boot 2"] by simp
  show "word_ok (boot_start 2 (''single'' @ [NUL]) 7) 0 None"
    by (simp add: word_ok_def str_at_def boot_start_def NUL_def)
qed

text \<open>
  The words after \<^verbatim>\<open>--\<close> stay in bounds too: \<open>set_init_arg\<close> returns without leaving the array,
  and the array keeps its terminating null pointer unless the kernel is set to panic.
\<close>

theorem init_arg_in_bounds:
  assumes "arrays_ok E b" "word_ok b param val"
  shows "\<exists>b'. set_init_arg E param val b = Inr b' \<and> arrays_ok E b'"
proof (cases "panic_later b = None")
  case False
  then show ?thesis using assms(1) by (simp add: set_init_arg_def)
next
  case True
  obtain m where m: "repair_env_string param val b = Inr (b\<lparr>cmdline := m\<rparr>)"
    using repair_runs[OF assms(2)] by blast
  have a: "length (argv_init b) = limit E + 2" "argv_init b ! (limit E + 1) = None"
    using assms(1) True by (simp_all add: arrays_ok_def)
  show ?thesis
    using arg_slot_runs[OF a, of 0] assms(1) True
    by (auto simp: set_init_arg_def m arrays_ok_def nth_list_update_if)
qed

theorem init_arg_in_bounds_witness:
  "\<exists>b'. set_init_arg (demo_boot 1) 0 None (boot_start 1 (''single'' @ [NUL]) 7) = Inr b'
    \<and> arrays_ok (demo_boot 1) b'"
proof (rule init_arg_in_bounds)
  show "arrays_ok (demo_boot 1) (boot_start 1 (''single'' @ [NUL]) 7)"
    using boot_start_ok[of "demo_boot 1"] by simp
  show "word_ok (boot_start 1 (''single'' @ [NUL]) 7) 0 None"
    by (simp add: word_ok_def str_at_def boot_start_def NUL_def)
qed

lemma repair_word:
  assumes "NUL \<notin> set name" "NUL \<notin> set value" "param = length pre"
    and "cmdline b = pre @ name @ NUL # q @ value @ NUL # post" "length q \<le> 1"
  shows "\<exists>b'. repair_env_string param (Some (param + length name + 1 + length q)) b = Inr b'
    \<and> str_at b' param = name @ CHR ''='' # value
    \<and> cmdline b' = pre @ name @ CHR ''='' # value @ NUL # replicate (length q) NUL @ post"
proof -
  define m where "m = pre @ name @ CHR ''='' # value @ NUL # replicate (length q) NUL @ post"
  have "repair_env_string param (Some (param + length name + 1 + length q)) b = Inr (b\<lparr>cmdline := m\<rparr>)"
  proof (cases q)
    case Nil
    then show ?thesis using repair_plain[of b pre name "value" post param] assms by (simp add: m_def)
  next
    case (Cons c cs)
    then have "q = [c]" using assms(5) by simp
    then show ?thesis
      using repair_quoted[of b pre name c "value" post param] assms by (simp add: m_def)
  qed
  moreover have "str_at (b\<lparr>cmdline := m\<rparr>) param = name @ CHR ''='' # value"
    using str_at_split[of "b\<lparr>cmdline := m\<rparr>" pre "name @ CHR ''='' # value"
        "replicate (length q) NUL @ post" param] assms(1-3) by (simp add: m_def NUL_def)
  ultimately show ?thesis by (simp add: m_def)
qed

text \<open>
  C36: \<open>repair_env_string\<close> undoes the parser. Where the parser cut \<open>name=value\<close> or \<open>name="value"\<close>
  into two strings, the string at the name is \<open>name=value\<close> again, and what lies before the name
  and after the value is as it was.
\<close>

theorem repair_restores_word:
  assumes "NUL \<notin> set name" "NUL \<notin> set value" "param = length pre"
    and "cmdline b = pre @ name @ NUL # q @ value @ NUL # post" "length q \<le> 1"
  shows "\<exists>b'. repair_env_string param (Some (param + length name + 1 + length q)) b = Inr b'
    \<and> str_at b' param = name @ CHR ''='' # value
    \<and> cmdline b' = pre @ name @ CHR ''='' # value @ NUL # replicate (length q) NUL @ post"
  using repair_word[OF assms] .

theorem repair_restores_word_witness:
  "\<exists>b'. repair_env_string 0 (Some 6) (boot_start 2 (''TERM'' @ NUL # CHR 0x22 # ''vt100'' @ [NUL]) 7)
      = Inr b' \<and> str_at b' 0 = ''TERM=vt100''"
proof -
  have "cmdline (boot_start 2 (''TERM'' @ NUL # CHR 0x22 # ''vt100'' @ [NUL]) 7)
      = [] @ ''TERM'' @ NUL # [CHR 0x22] @ ''vt100'' @ NUL # []"
    by (simp add: boot_start_def)
  from repair_restores_word[OF _ _ _ this] show ?thesis
    by (simp add: NUL_def eval_nat_numeral) blast
qed

text \<open>The word \<open>TERM=value\<close> at the start of the buffer, once it is repaired.\<close>

lemma term_repaired:
  assumes "cmdline b = [] @ ''TERM'' @ NUL # q @ v @ NUL # r" "NUL \<notin> set v" "length q \<le> 1"
  shows "\<exists>m. repair_env_string 0 (Some (5 + length q)) b = Inr m \<and> str_at m 0 = ''TERM='' @ v
    \<and> envp_init m = envp_init b \<and> panic_later m = panic_later b"
proof -
  have l: "0 + length ''TERM'' + 1 + length q = 5 + length q" by simp
  have t: "NUL \<notin> set ''TERM''" by (simp add: NUL_def)
  have w: "''TERM'' @ CHR ''='' # v = ''TERM='' @ v" by simp
  obtain m where r: "repair_env_string 0 (Some (5 + length q)) b = Inr m" "str_at m 0 = ''TERM='' @ v"
    using repair_word[OF t assms(2) _ assms(1,3), of 0, unfolded l w] by auto
  moreover have "envp_init m = envp_init b" "panic_later m = panic_later b"
    using r(1) by (auto simp: repair_env_string_def move_down_def Let_def andThen_eq_Inr split: if_splits)
  ultimately show ?thesis by blast
qed

text \<open>
  A boot option \<open>TERM=value\<close> replaces the default \<open>TERM=linux\<close> of the first process only when
  the value is not quoted. With quotes the comparison also covers the value's first character,
  so any value that does not begin with \<open>l\<close> becomes a second \<open>TERM\<close> behind the default.
\<close>

theorem quoted_env_not_replaced:
  assumes "0 < limit E" "table E \<noteq> []" "length q \<le> 1" "NUL \<notin> set (c # cs)" "c \<noteq> CHR ''l''" "c \<noteq> CHR ''.''"
    and "\<forall>p \<in> set (table E). \<not> parameqn E (''TERM='' @ c # cs) (str p) (length (str p))"
  shows "\<exists>b'. unknown_bootoption E 0 (Some (5 + length q))
      (boot_start (limit E) (''TERM'' @ NUL # q @ c # cs @ [NUL]) lev) = Inr b'
    \<and> str_at b' 0 = ''TERM='' @ c # cs
    \<and> take 3 (envp_init b') = (if q = []
       then [Some (Lit ''HOME=/''), Some (At 0), None]
       else [Some (Lit ''HOME=/''), Some (Lit ''TERM=linux''), Some (At 0)])"
proof -
  define b where "b = boot_start (limit E) (''TERM'' @ NUL # q @ c # cs @ [NUL]) lev"
  have b: "panic_later b = None" "envp_init b = Some (Lit ''HOME=/'') # Some (Lit ''TERM=linux'') # replicate (limit E) None"
    "cmdline b = [] @ ''TERM'' @ NUL # q @ (c # cs) @ NUL # []"
    by (simp_all add: b_def boot_start_def)
  obtain m where m: "repair_env_string 0 (Some (5 + length q)) b = Inr m"
    "str_at m 0 = ''TERM='' @ c # cs" "envp_init m = envp_init b" "panic_later m = None"
    using term_repaired[OF b(3) assms(4,3)] b(1) by auto
  have chk: "obsolete_checksetup E 0 m = Inr (False, m)"
    using assms(2,7) m(2) by (simp add: obsolete_checksetup_def checksetup_none)
  have dot: "\<not> d < 5 + length q" if "strchr m 0 (CHR ''.'') = Some d" for d
    using that m(2) assms(3,6) by (auto simp: strchr_def Let_def split: if_splits)
  have home: "\<not> strncmp_eq (''TERM='' @ c # cs) ''HOME=/'' (5 + length q)"
    by (simp add: strncmp_eq_def numeral_eq_Suc)
  have trm: "strncmp_eq (''TERM='' @ c # cs) ''TERM=linux'' (5 + length q) \<longleftrightarrow> q = []"
    using assms(3,5) by (cases q) (simp_all add: strncmp_eq_def numeral_eq_Suc)
  obtain n where n: "limit E = Suc n" using assms(1) by (cases "limit E") simp_all
  have slot: "\<exists>f. free_slot E (\<lambda>e. strncmp_eq (str_at m 0) (c_str m e) (5 + length q)) False 0 (envp_init m)
      = Inr (f, if q = [] then 1 else 2)"
    using free_slot_third[of "\<lambda>e. strncmp_eq (''TERM='' @ c # cs) (c_str m e) (5 + length q)"
        "Lit ''HOME=/''" E "Lit ''TERM=linux''" "replicate n None"] home trm
    unfolding m(2,3) b(2) n by auto
  obtain f where f: "free_slot E (\<lambda>e. strncmp_eq (str_at m 0) (c_str m e) (5 + length q)) False 0 (envp_init m)
      = Inr (f, if q = [] then 1 else 2)"
    using slot by blast
  define e where "e = (envp_init m)[(if q = [] then 1 else 2) := Some (At 0)]"
  have "\<exists>b'. unknown_bootoption E 0 (Some (5 + length q)) b = Inr b' \<and> envp_init b' = e
      \<and> cmdline b' = cmdline m"
    using m dot chk f b(2) n
    by (cases "strchr m 0 (CHR ''.'')") (auto simp: unknown_bootoption_def e_def Let_def)
  then show ?thesis
    using m(2,3) b(2) n unfolding b_def[symmetric] e_def
    by (auto simp: str_at_def numeral_eq_Suc)
qed

theorem quoted_env_not_replaced_witness:
  "\<exists>b'. unknown_bootoption (demo_boot 32) 0 (Some 6)
      (boot_start 32 (''TERM'' @ NUL # CHR 0x22 # ''vt100'' @ [NUL]) 7) = Inr b'
    \<and> take 3 (envp_init b') = [Some (Lit ''HOME=/''), Some (Lit ''TERM=linux''), Some (At 0)]"
  using quoted_env_not_replaced[of "demo_boot 32" "[CHR 0x22]" "CHR ''v''" "''t100''" 7]
  by (auto simp: demo_boot_def NUL_def)

end
