(* ===== verification/Initcalls.thy ===== *)
theory Initcalls
  imports Prelude
begin

text \<open>
  The initcalls of \<^verbatim>\<open>project 2/main.c\<close> and the hand-over to the first user process: the blacklist of
  initcalls, the trace and the guard around each call, the levels, the whole of \<open>kernel_init\<close>
  with \<open>kernel_init_freeable\<close>, and the programs it tries.

  The functions themselves are linked in from the whole kernel: their list, the level bounds in
  it, their names and their effect are parameters, as are the parser of the command line, the
  boot allocator, the clock, \<open>strtobool\<close>, the results of \<open>ksys_open\<close> and \<open>ksys_access\<close> and of
  executing a program, and the effect of every other kernel function the code calls. The state
  keeps the calls this file makes, in order (\<open>events\<close>). The build has \<^verbatim>\<open>CONFIG_KALLSYMS\<close>,
  \<^verbatim>\<open>CONFIG_CONSTRUCTORS\<close> and \<^verbatim>\<open>CONFIG_STRICT_KERNEL_RWX\<close>, and no tracepoints, so an initcall
  is traced by the direct calls (what other builds do instead stands at the end) and
  \<open>trace_initcall_level\<close> is empty; \<open>add_latent_entropy\<close> after an initcall adds nothing without its
  compiler plug-in and is left out. The result of executing a program depends on its name alone.
\<close>

section \<open>State and environment\<close>

text \<open>What the file does to the rest of the kernel, and what it prints about an initcall.\<close>

datatype 'f kevent = Kcall string | Initcall 'f | Exec string

datatype 'f imsg =
    Calling 'f int                  \<comment> \<open>\<^verbatim>\<open>calling %pS @ %i\<close>\<close>
  | Returned 'f int u64             \<comment> \<open>\<^verbatim>\<open>initcall %pS returned %d after %lld usecs\<close>\<close>

datatype sys_state = SYSTEM_BOOTING | SYSTEM_SCHEDULING | SYSTEM_RUNNING

record 'f kern =
  blacklisted_initcalls :: "string list"
  memory :: "bool list"             \<comment> \<open>whether the next calls of \<open>memblock_alloc\<close> succeed\<close>
  preempt_count :: int
  irqs_disabled :: bool
  events :: "'f kevent list"        \<comment> \<open>the calls this file makes, in order\<close>
  initcall_debug :: bool
  initcall_calltime :: u64
  initcall_log :: "'f imsg list"
  rodata_enabled :: bool
  system_state :: sys_state
  gfp_allowed_mask :: u32
  cad_pid :: int
  warnings :: "string list"
  argv_0 :: string
  ramdisk_execute_command :: "string option"
  execute_command :: "string option"
  err_log :: "(string \<times> string \<times> int) list"
  saved_command_line :: string
  initcall_command_line :: string   \<comment> \<open>the copy each level parses; its room is that of the saved line\<close>

record 'f kernel_env =
  fn_name :: "'f \<Rightarrow> string"         \<comment> \<open>\<open>sprint_symbol_no_offset\<close>\<close>
  run_fn :: "'f \<Rightarrow> 'f kern \<Rightarrow> int \<times> 'f kern"
  initcalls :: "'f list"            \<comment> \<open>from \<open>__initcall_start\<close> to \<open>__initcall_end\<close>\<close>
  level_start :: "nat \<Rightarrow> nat"       \<comment> \<open>the offset of each \<open>__initcall\<close>N\<open>_start\<close>; 8 is the end\<close>
  ctors :: "string list"            \<comment> \<open>from \<open>__ctors_start\<close> to \<open>__ctors_end\<close>\<close>
  parse_level :: "string \<Rightarrow> nat \<Rightarrow> 'f kern \<Rightarrow> 'f kern"   \<comment> \<open>\<open>parse_args\<close> of \<open>initcall_command_line\<close> for a level, by its name, with the callback
       \<open>repair_env_string\<close>, which changes that line only\<close>
  kcall :: "string \<Rightarrow> 'f kern \<Rightarrow> 'f kern"
  ktime_get :: "'f kern \<Rightarrow> u64"
  current_pid :: int
  GFP_BITS_MASK :: u32
  strtobool :: "string \<Rightarrow> int \<times> bool option"   \<comment> \<open>its result and what it stores\<close>
  execve :: "string \<Rightarrow> int"
  ksys_open :: "string \<Rightarrow> int"
  ksys_access :: "string \<Rightarrow> int"

text \<open>A call of a kernel function, and a sequence of them.\<close>

definition callk :: "'f kernel_env \<Rightarrow> string \<Rightarrow> 'f kern \<Rightarrow> 'f kern" where
  "callk E f k = (kcall E f k)\<lparr>events := events k @ [Kcall f]\<rparr>"

definition calls :: "'f kernel_env \<Rightarrow> string list \<Rightarrow> 'f kern \<Rightarrow> 'f kern" where
  "calls E fs k = fold (callk E) fs k"

text \<open>The initcalls run and the programs \<open>run_init_process\<close> was asked for, in order.\<close>

fun initcalls_of :: "'f kevent list \<Rightarrow> 'f list" where
  "initcalls_of [] = []"
| "initcalls_of (Initcall f # es) = f # initcalls_of es"
| "initcalls_of (_ # es) = initcalls_of es"

fun execs_of :: "'f kevent list \<Rightarrow> string list" where
  "execs_of [] = []"
| "execs_of (Exec p # es) = p # execs_of es"
| "execs_of (_ # es) = execs_of es"

definition called :: "'f kern \<Rightarrow> 'f list" where
  "called k = initcalls_of (events k)"

definition tried :: "'f kern \<Rightarrow> string list" where
  "tried k = execs_of (events k)"

lemma initcalls_of_append [simp]: "initcalls_of (xs @ ys) = initcalls_of xs @ initcalls_of ys"
  by (induction xs rule: initcalls_of.induct) simp_all

lemma execs_of_append [simp]: "execs_of (xs @ ys) = execs_of xs @ execs_of ys"
  by (induction xs rule: execs_of.induct) simp_all

section \<open>The blacklist\<close>

text \<open>\<open>strsep(&str, ",")\<close>\<close>

definition strsep :: "string option \<Rightarrow> string option \<times> string option" where
  "strsep str =
     (case str of
        None \<Rightarrow> (None, None)
      | Some s \<Rightarrow> (Some (takeWhile (\<lambda>c. c \<noteq> CHR '','') s),
          (case dropWhile (\<lambda>c. c \<noteq> CHR '','') s of [] \<Rightarrow> None | _ # r \<Rightarrow> Some r)))"

definition memblock_alloc :: "'f kern \<Rightarrow> 'f kern res" where
  "memblock_alloc k =
     (case memory k of
        [] \<Rightarrow> Inl BugOn
      | ok # ms \<Rightarrow> if ok then Inr (k\<lparr>memory := ms\<rparr>) else Inl BugOn)"

fun left_over :: "string option \<Rightarrow> nat" where
  "left_over None = 0"
| "left_over (Some s) = Suc (length s)"

lemma strsep_shorter:
  assumes "strsep str = (Some e, r)"
  shows "left_over r < left_over str"
proof -
  obtain s where s: "str = Some s"
    "r = (case dropWhile (\<lambda>c. c \<noteq> CHR '','') s of [] \<Rightarrow> None | _ # r \<Rightarrow> Some r)"
    using assms by (auto simp: strsep_def split: option.splits)
  have "left_over (case d of [] \<Rightarrow> None | _ # r \<Rightarrow> Some r) < Suc (length s)" if "length d \<le> length s" for d
    using that by (cases d) simp_all
  then show ?thesis unfolding s by (simp add: length_dropWhile_le)
qed

text \<open>The allocations are for the entry and for its name; a failure panics.\<close>

function blacklist_loop :: "string option \<Rightarrow> 'f kern \<Rightarrow> 'f kern res" where
  "blacklist_loop str k =
     (case strsep str of
        (None, _) \<Rightarrow> Inr k
      | (Some e, r) \<Rightarrow>
          andThen (memblock_alloc k) (\<lambda>k.
          andThen (memblock_alloc k) (\<lambda>k.
          blacklist_loop r (k\<lparr>blacklisted_initcalls := e # blacklisted_initcalls k\<rparr>))))"
  by pat_completeness auto
termination
  by (relation "measure (\<lambda>(str, k). left_over str)") (auto dest: strsep_shorter[OF sym])

declare blacklist_loop.simps [simp del]

definition initcall_blacklist :: "string \<Rightarrow> 'f kern \<Rightarrow> (int \<times> 'f kern) res" where
  "initcall_blacklist str k = andThen (blacklist_loop (Some str) k) (\<lambda>k. Inr (0, k))"

text \<open>The name is cut at its first blank, where a module's name would follow.\<close>

definition initcall_blacklisted :: "'f kernel_env \<Rightarrow> 'f \<Rightarrow> 'f kern \<Rightarrow> bool" where
  "initcall_blacklisted E fn k \<longleftrightarrow>
     blacklisted_initcalls k \<noteq> []
     \<and> takeWhile (\<lambda>c. c \<noteq> CHR '' '') (fn_name E fn) \<in> set (blacklisted_initcalls k)"

section \<open>Running initcalls\<close>

text \<open>The trace of an initcall; a duration is the difference of two clock values, shifted.\<close>

definition trace_initcall_start_cb :: "'f kernel_env \<Rightarrow> 'f \<Rightarrow> 'f kern \<Rightarrow> 'f kern" where
  "trace_initcall_start_cb E fn k =
     k\<lparr>initcall_log := initcall_log k @ [Calling fn (current_pid E)], initcall_calltime := ktime_get E k\<rparr>"

definition trace_initcall_finish_cb :: "'f kernel_env \<Rightarrow> 'f \<Rightarrow> int \<Rightarrow> 'f kern \<Rightarrow> 'f kern" where
  "trace_initcall_finish_cb E fn ret k =
     (let rettime = ktime_get E k;
          delta = rettime - initcall_calltime k;
          duration = drop_bit 10 delta
      in k\<lparr>initcall_log := initcall_log k @ [Returned fn ret duration]\<rparr>)"

definition do_trace_initcall_start :: "'f kernel_env \<Rightarrow> 'f \<Rightarrow> 'f kern \<Rightarrow> 'f kern" where
  "do_trace_initcall_start E fn k = (if \<not> initcall_debug k then k else trace_initcall_start_cb E fn k)"

definition do_trace_initcall_finish :: "'f kernel_env \<Rightarrow> 'f \<Rightarrow> int \<Rightarrow> 'f kern \<Rightarrow> 'f kern" where
  "do_trace_initcall_finish E fn ret k =
     (if \<not> initcall_debug k then k else trace_initcall_finish_cb E fn ret k)"

text \<open>\<open>ret = fn()\<close>\<close>

definition call_initcall :: "'f kernel_env \<Rightarrow> 'f \<Rightarrow> 'f kern \<Rightarrow> int \<times> 'f kern" where
  "call_initcall E fn k =
     (let es = events k @ [Initcall fn]; (ret, k') = run_fn E fn k in (ret, k'\<lparr>events := es\<rparr>))"

definition do_one_initcall :: "'f kernel_env \<Rightarrow> 'f \<Rightarrow> 'f kern \<Rightarrow> int \<times> 'f kern" where
  "do_one_initcall E fn k =
     (let count = preempt_count k in
      if initcall_blacklisted E fn k then (- EPERM, k)
      else
        (let k = do_trace_initcall_start E fn k;
             (ret, k) = call_initcall E fn k;
             k = do_trace_initcall_finish E fn ret k;
             msgbuf = (if preempt_count k \<noteq> count then ''preemption imbalance '' else []);
             k = (if preempt_count k \<noteq> count then k\<lparr>preempt_count := count\<rparr> else k);
             msgbuf = (if irqs_disabled k then msgbuf @ ''disabled interrupts '' else msgbuf);
             k = (if irqs_disabled k then k\<lparr>irqs_disabled := False\<rparr> else k);
             k = (if msgbuf \<noteq> [] then k\<lparr>warnings := warnings k @ [msgbuf]\<rparr> else k)
         in (ret, k)))"

text \<open>\<open>for (fn = first; fn < last; fn++) do_one_initcall(...)\<close>, on the functions between.\<close>

fun run_initcalls :: "'f kernel_env \<Rightarrow> 'f list \<Rightarrow> 'f kern \<Rightarrow> 'f kern" where
  "run_initcalls E [] k = k"
| "run_initcalls E (fn # fns) k = run_initcalls E fns (snd (do_one_initcall E fn k))"

definition between :: "nat \<Rightarrow> nat \<Rightarrow> 'a list \<Rightarrow> 'a list" where
  "between i j xs = drop i (take j xs)"

text \<open>Where each level begins, and after the last where it ends; the names of the levels.\<close>

definition initcall_levels :: "'f kernel_env \<Rightarrow> nat list" where
  "initcall_levels E = map (level_start E) [0, 1, 2, 3, 4, 5, 6, 7, 8]"

definition initcall_level_names :: "string list" where
  "initcall_level_names =
     [''pure'', ''core'', ''postcore'', ''arch'', ''subsys'', ''fs'', ''device'', ''late'']"

text \<open>The parser makes no call of this file's own; \<open>strcpy\<close> gives it the line afresh for each level.\<close>

definition do_initcall_level :: "'f kernel_env \<Rightarrow> nat \<Rightarrow> 'f kern \<Rightarrow> 'f kern" where
  "do_initcall_level E level k =
     (let k = k\<lparr>initcall_command_line := saved_command_line k\<rparr>;
          k = (parse_level E (initcall_level_names ! level) level k)\<lparr>events := events k\<rparr>
      in run_initcalls E
           (between (initcall_levels E ! level) (initcall_levels E ! (level + 1)) (initcalls E)) k)"

definition do_initcalls :: "'f kernel_env \<Rightarrow> 'f kern \<Rightarrow> 'f kern" where
  "do_initcalls E k = fold (do_initcall_level E) [0..<length (initcall_levels E) - 1] k"

definition do_pre_smp_initcalls :: "'f kernel_env \<Rightarrow> 'f kern \<Rightarrow> 'f kern" where
  "do_pre_smp_initcalls E k = run_initcalls E (between 0 (level_start E 0) (initcalls E)) k"

section \<open>The first user process\<close>

definition run_init_process :: "'f kernel_env \<Rightarrow> string \<Rightarrow> 'f kern \<Rightarrow> int \<times> 'f kern" where
  "run_init_process E init_filename k =
     (execve E init_filename, k\<lparr>argv_0 := init_filename, events := events k @ [Exec init_filename]\<rparr>)"

definition pr_err :: "string \<Rightarrow> string \<Rightarrow> int \<Rightarrow> 'f kern \<Rightarrow> 'f kern" where
  "pr_err f p r k = k\<lparr>err_log := err_log k @ [(f, p, r)]\<rparr>"

definition try_to_run_init_process :: "'f kernel_env \<Rightarrow> string \<Rightarrow> 'f kern \<Rightarrow> int \<times> 'f kern" where
  "try_to_run_init_process E init_filename k =
     (let (ret, k) = run_init_process E init_filename k in
      if ret \<noteq> 0 \<and> ret \<noteq> - ENOENT
      then (ret, pr_err ''Starting init: %s exists but couldn't execute it (error %d)'' init_filename ret k)
      else (ret, k))"

text \<open>The chain of \<open>||\<close>: the programs are tried until one returns 0.\<close>

fun try_all :: "'f kernel_env \<Rightarrow> string list \<Rightarrow> 'f kern \<Rightarrow> bool \<times> 'f kern" where
  "try_all E [] k = (False, k)"
| "try_all E (p # ps) k =
     (let (ret, k) = try_to_run_init_process E p k in
      if ret = 0 then (True, k) else try_all E ps k)"

text \<open>What follows the set-up in \<open>kernel_init\<close>; a panic is \<open>BugOn\<close>.\<close>

definition last_tries :: "'f kernel_env \<Rightarrow> string option \<Rightarrow> 'f kern \<Rightarrow> (int \<times> 'f kern) res" where
  "last_tries E command k =
     (case command of
        Some p \<Rightarrow> (let (ret, k) = run_init_process E p k in if ret = 0 then Inr (0, k) else Inl BugOn)
      | None \<Rightarrow>
          (let (ok, k) = try_all E [''/sbin/init'', ''/etc/init'', ''/bin/init'', ''/bin/sh''] k
           in if ok then Inr (0, k) else Inl BugOn))"

definition start_init :: "'f kernel_env \<Rightarrow> 'f kern \<Rightarrow> (int \<times> 'f kern) res" where
  "start_init E k =
     (let (started, k) =
        (case ramdisk_execute_command k of
           None \<Rightarrow> (False, k)
         | Some p \<Rightarrow>
             (let (ret, k) = run_init_process E p k in
              if ret = 0 then (True, k) else (False, pr_err ''Failed to execute %s (error %d)'' p ret k)))
      in if started then Inr (0, k) else last_tries E (execute_command k) k)"

section \<open>The set-up by the init thread\<close>

definition do_ctors :: "'f kernel_env \<Rightarrow> 'f kern \<Rightarrow> 'f kern" where
  "do_ctors E k = calls E (ctors E) k"

definition do_basic_setup :: "'f kernel_env \<Rightarrow> 'f kern \<Rightarrow> 'f kern" where
  "do_basic_setup E k =
     (let k = calls E [''cpuset_init_smp'', ''shmem_init'', ''driver_init'', ''init_irq_proc''] k;
          k = do_ctors E k;
          k = callk E ''usermodehelper_enable'' k
      in do_initcalls E k)"

definition set_debug_rodata :: "'f kernel_env \<Rightarrow> string \<Rightarrow> 'f kern \<Rightarrow> int \<times> 'f kern" where
  "set_debug_rodata E str k =
     (let (ret, v) = strtobool E str in
      (ret, case v of None \<Rightarrow> k | Some b \<Rightarrow> k\<lparr>rodata_enabled := b\<rparr>))"

definition mark_readonly :: "'f kernel_env \<Rightarrow> 'f kern \<Rightarrow> 'f kern" where
  "mark_readonly E k =
     (if rodata_enabled k then calls E [''rcu_barrier'', ''mark_rodata_ro'', ''rodata_test''] k
      else k\<lparr>warnings := warnings k @ [''Kernel memory protection disabled.'']\<rparr>)"

definition free_initmem :: "'f kernel_env \<Rightarrow> 'f kern \<Rightarrow> 'f kern" where
  "free_initmem E k = callk E ''free_initmem_default'' k"

text \<open>\<open>kernel_init_freeable\<close> up to the early user space, then the rest of it.\<close>

definition freeable_setup :: "'f kernel_env \<Rightarrow> 'f kern \<Rightarrow> 'f kern" where
  "freeable_setup E k =
     (let k = callk E ''wait_for_completion'' k;
          k = callk E ''set_mems_allowed'' (k\<lparr>gfp_allowed_mask := GFP_BITS_MASK E\<rparr>);
          k = k\<lparr>cad_pid := current_pid E\<rparr>;
          k = calls E [''smp_prepare_cpus'', ''workqueue_init'', ''init_mm_internals''] k;
          k = do_pre_smp_initcalls E k;
          k = calls E [''lockup_detector_init'', ''smp_init'', ''sched_init_smp'', ''page_alloc_init_late'',
                ''page_ext_init''] k;
          k = do_basic_setup E k;
          k = callk E ''ksys_open'' k;
          k = (if ksys_open E ''/dev/console'' < 0
               then pr_err ''Warning: unable to open an initial console.'' [] 0 k else k)
      in calls E [''ksys_dup'', ''ksys_dup''] k)"

definition early_user_space :: "'f kernel_env \<Rightarrow> 'f kern \<Rightarrow> 'f kern" where
  "early_user_space E k =
     (let p = (case ramdisk_execute_command k of None \<Rightarrow> ''/init'' | Some p \<Rightarrow> p);
          k = callk E ''ksys_access'' (k\<lparr>ramdisk_execute_command := Some p\<rparr>);
          k = (if ksys_access E p \<noteq> 0
               then callk E ''prepare_namespace'' (k\<lparr>ramdisk_execute_command := None\<rparr>) else k)
      in callk E ''integrity_load_keys'' k)"

definition kernel_init_freeable :: "'f kernel_env \<Rightarrow> 'f kern \<Rightarrow> 'f kern" where
  "kernel_init_freeable E k = early_user_space E (freeable_setup E k)"

definition finish_boot :: "'f kernel_env \<Rightarrow> 'f kern \<Rightarrow> 'f kern" where
  "finish_boot E k =
     (let k = calls E [''async_synchronize_full'', ''ftrace_free_init_mem''] k;
          k = free_initmem E k;
          k = mark_readonly E k;
          k = callk E ''pti_finalize'' k
      in calls E [''numa_default_policy'', ''rcu_end_inkernel_boot''] (k\<lparr>system_state := SYSTEM_RUNNING\<rparr>))"

definition kernel_init :: "'f kernel_env \<Rightarrow> 'f kern \<Rightarrow> (int \<times> 'f kern) res" where
  "kernel_init E k = start_init E (finish_boot E (kernel_init_freeable E k))"

section \<open>Other configurations\<close>

text \<open>Without \<^verbatim>\<open>CONFIG_KALLSYMS\<close> there is no blacklist.\<close>

definition initcall_blacklist_nosyms :: "string \<Rightarrow> 'f kern \<Rightarrow> int \<times> 'f kern" where
  "initcall_blacklist_nosyms str k =
     (0, k\<lparr>warnings := warnings k @ [''initcall_blacklist requires CONFIG_KALLSYMS'']\<rparr>)"

definition initcall_blacklisted_nosyms :: "'f \<Rightarrow> bool" where
  "initcall_blacklisted_nosyms fn \<longleftrightarrow> False"

text \<open>Without \<^verbatim>\<open>CONFIG_STRICT_KERNEL_RWX\<close> nothing is protected.\<close>

definition mark_readonly_norwx :: "'f kern \<Rightarrow> 'f kern" where
  "mark_readonly_norwx k =
     k\<lparr>warnings := warnings k @ [''This architecture does not have kernel memory protection.'']\<rparr>"

text \<open>
  With tracepoints \<open>initcall_debug_enable\<close> registers the two callbacks; the parameter is the result
  of the registrations.
\<close>

definition initcall_debug_enable_traced :: "(string \<Rightarrow> 32 word) \<Rightarrow> 'f kern \<Rightarrow> 'f kern" where
  "initcall_debug_enable_traced register k =
     (let ret = register ''initcall_start'';
          ret = or ret (register ''initcall_finish'')
      in if ret \<noteq> 0 then k\<lparr>warnings := warnings k @ [''Failed to register initcall tracepoints'']\<rparr> else k)"

text \<open>So a build without symbols runs its initcalls as one with an empty blacklist does.\<close>

lemma nosyms_runs_all:
  "blacklisted_initcalls k = [] \<Longrightarrow> initcall_blacklisted E fn k \<longleftrightarrow> initcall_blacklisted_nosyms fn"
  "blacklisted_initcalls (snd (initcall_blacklist_nosyms str k)) = blacklisted_initcalls k"
  by (simp_all add: initcall_blacklisted_def initcall_blacklisted_nosyms_def initcall_blacklist_nosyms_def)

lemma debug_enable_warns_iff:
  "warnings (initcall_debug_enable_traced register k) = warnings k
   \<longleftrightarrow> register ''initcall_start'' = 0 \<and> register ''initcall_finish'' = 0"
  by (simp add: initcall_debug_enable_traced_def Let_def or_eq_0_iff)

end
