(* ===== verification/Initcalls_Props.thy ===== *)
theory Initcalls_Props
  imports Initcalls
begin

text \<open>
  What the initcall machinery and \<open>kernel_init\<close> guarantee: the blacklist holds the fields of its
  parameter, every other initcall runs once and in order and cannot leave the kernel unbalanced,
  init memory is freed between the last initcall and the first program, and the first program
  that executes takes over.
\<close>

section \<open>Lemmas\<close>

text \<open>The reference for the blacklist: the fields of a comma-separated list.\<close>

fun comma_fields :: "string \<Rightarrow> string \<Rightarrow> string list" where
  "comma_fields w [] = [w]"
| "comma_fields w (c # cs) = (if c = CHR '','' then w # comma_fields [] cs else comma_fields (w @ [c]) cs)"

lemma fields_step:
  "comma_fields w s = (w @ takeWhile (\<lambda>c. c \<noteq> CHR '','') s)
     # (case dropWhile (\<lambda>c. c \<noteq> CHR '','') s of [] \<Rightarrow> [] | _ # r \<Rightarrow> comma_fields [] r)"
  by (induction s arbitrary: w) simp_all

lemma blacklist_loop_fields:
  assumes "memory k = replicate (2 * length (comma_fields [] s)) True @ ms"
  shows "blacklist_loop (Some s) k = Inr (k\<lparr>memory := ms,
     blacklisted_initcalls := rev (comma_fields [] s) @ blacklisted_initcalls k\<rparr>)"
  using assms
proof (induction "length s" arbitrary: s k rule: less_induct)
  case less
  let ?t = "takeWhile (\<lambda>c. c \<noteq> CHR '','') s"
  let ?k = "\<lambda>n. k\<lparr>memory := replicate n True @ ms, blacklisted_initcalls := ?t # blacklisted_initcalls k\<rparr>"
  show ?case
  proof (cases "dropWhile (\<lambda>c. c \<noteq> CHR '','') s")
    case Nil
    have f: "comma_fields [] s = [?t]" by (subst fields_step) (simp only: Nil list.case append_Nil)
    have sep: "strsep (Some s) = (Some ?t, None)" unfolding strsep_def by (simp only: Nil option.case list.case)
    have "blacklist_loop None k = Inr k" for k :: "'a kern"
      by (subst blacklist_loop.simps) (simp add: strsep_def)
    then show ?thesis
      using less.prems
      by (subst blacklist_loop.simps) (simp add: sep f memblock_alloc_def numeral_2_eq_2)
  next
    case (Cons c r)
    then have f: "comma_fields [] s = ?t # comma_fields [] r" by (subst fields_step) simp
    have "length r < length s"
      using Cons length_dropWhile_le[of "\<lambda>c. c \<noteq> CHR '','' " s] by simp
    then have "blacklist_loop (Some r) (?k (2 * length (comma_fields [] r))) = Inr ((?k 0)\<lparr>memory := ms,
       blacklisted_initcalls := rev (comma_fields [] r) @ ?t # blacklisted_initcalls k\<rparr>)"
      by (subst less.hyps) simp_all
    then show ?thesis
      using less.prems Cons f
      by (subst blacklist_loop.simps) (simp add: strsep_def memblock_alloc_def)
  qed
qed

text \<open>Initcalls that leave the blacklist to the kernel.\<close>

definition orderly :: "'f kernel_env \<Rightarrow> bool" where
  "orderly E \<longleftrightarrow>
     (\<forall>fn k. blacklisted_initcalls (snd (run_fn E fn k)) = blacklisted_initcalls k)
   \<and> (\<forall>s n k. blacklisted_initcalls (parse_level E s n k) = blacklisted_initcalls k)
   \<and> (\<forall>n. level_start E n \<le> level_start E (Suc n))"

lemmas trace_defs = do_trace_initcall_start_def trace_initcall_start_cb_def
  do_trace_initcall_finish_def trace_initcall_finish_cb_def

definition allowed :: "'f kernel_env \<Rightarrow> string list \<Rightarrow> 'f list \<Rightarrow> 'f list" where
  "allowed E bl fns = filter (\<lambda>fn. takeWhile (\<lambda>c. c \<noteq> CHR '' '') (fn_name E fn) \<notin> set bl) fns"

lemma do_one_called:
  assumes "orderly E"
  shows "called (snd (do_one_initcall E fn k)) = called k @ allowed E (blacklisted_initcalls k) [fn]"
    "blacklisted_initcalls (snd (do_one_initcall E fn k)) = blacklisted_initcalls k"
  using assms
  by (auto simp: do_one_initcall_def call_initcall_def orderly_def allowed_def called_def trace_defs
      initcall_blacklisted_def Let_def case_prod_beta)

lemma run_initcalls_called:
  assumes "orderly E"
  shows "called (run_initcalls E fns k) = called k @ allowed E (blacklisted_initcalls k) fns
    \<and> blacklisted_initcalls (run_initcalls E fns k) = blacklisted_initcalls k"
proof (induction fns arbitrary: k)
  case Nil
  then show ?case by (simp add: allowed_def)
next
  case (Cons fn fns)
  then show ?case
    using do_one_called[OF assms, of fn k] by (simp add: allowed_def)
qed

lemma between_append: "i \<le> j \<Longrightarrow> j \<le> l \<Longrightarrow> between i j xs @ between j l xs = between i l xs"
proof -
  assume a: "i \<le> j" "j \<le> l"
  have "take l xs = take j xs @ drop j (take l xs)"
    using a(2) by (metis append_take_drop_id min.absorb1 take_take)
  then have "drop i (take l xs) = drop i (take j xs) @ drop (i - length (take j xs)) (drop j (take l xs))"
    by (metis drop_append)
  then show ?thesis
    using a(1) by (cases "length xs < j") (simp_all add: between_def min_def)
qed

lemma level_start_mono: "orderly E \<Longrightarrow> m \<le> n \<Longrightarrow> level_start E m \<le> level_start E n"
  using lift_Suc_mono_le[of "level_start E"] by (auto simp: orderly_def)

lemma initcall_levels_nth: "n < 9 \<Longrightarrow> initcall_levels E ! n = level_start E n"
  by (auto simp: initcall_levels_def numeral_eq_Suc less_Suc_eq)

lemma initcall_levels_count: "length (initcall_levels E) - 1 = 8"
  by (simp add: initcall_levels_def)

lemma level_called:
  assumes "orderly E" "n < 8"
  shows "called (do_initcall_level E n k) = called k @ allowed E (blacklisted_initcalls k)
      (between (level_start E n) (level_start E (Suc n)) (initcalls E))"
    "blacklisted_initcalls (do_initcall_level E n k) = blacklisted_initcalls k"
  using assms run_initcalls_called[OF assms(1)]
  by (simp_all add: do_initcall_level_def orderly_def called_def initcall_levels_nth Let_def)

lemma levels_called:
  assumes "orderly E" "n \<le> 8"
  shows "called (fold (do_initcall_level E) [0..<n] k) = called k
      @ allowed E (blacklisted_initcalls k) (between (level_start E 0) (level_start E n) (initcalls E))
    \<and> blacklisted_initcalls (fold (do_initcall_level E) [0..<n] k) = blacklisted_initcalls k"
  using assms(2)
proof (induction n)
  case 0
  then show ?case by (simp add: between_def allowed_def)
next
  case (Suc n)
  let ?k = "fold (do_initcall_level E) [0..<n] k"
  have "between (level_start E 0) (level_start E n) (initcalls E)
      @ between (level_start E n) (level_start E (Suc n)) (initcalls E)
      = between (level_start E 0) (level_start E (Suc n)) (initcalls E)"
    using level_start_mono[OF assms(1)] by (intro between_append) simp_all
  then have "allowed E bl (between (level_start E 0) (level_start E n) (initcalls E))
      @ allowed E bl (between (level_start E n) (level_start E (Suc n)) (initcalls E))
      = allowed E bl (between (level_start E 0) (level_start E (Suc n)) (initcalls E))" for bl
    unfolding allowed_def by (metis filter_append)
  moreover have "called (do_initcall_level E n ?k) = called ?k @ allowed E (blacklisted_initcalls ?k)
      (between (level_start E n) (level_start E (Suc n)) (initcalls E))"
    "blacklisted_initcalls (do_initcall_level E n ?k) = blacklisted_initcalls ?k"
    using Suc.prems by (intro level_called[OF assms(1)]; simp)+
  ultimately show ?case
    using Suc by simp
qed

section \<open>Properties\<close>

text \<open>Three initcalls, one of which returns with interrupts off and a raised preempt count.\<close>

definition demo_kernel :: "(string \<Rightarrow> int) \<Rightarrow> nat kernel_env" where
  "demo_kernel ex = \<lparr>fn_name = \<lambda>n. if n = 1 then ''acpi_init'' else ''pci_init [core]'',
     run_fn = \<lambda>n k. (0, if n = 1 then k\<lparr>irqs_disabled := True, preempt_count := preempt_count k + 1\<rparr> else k),
     initcalls = [5, 1, 2], level_start = \<lambda>n. if n < 4 then 1 else 3,
     ctors = [], parse_level = \<lambda>_ _ k. k, kcall = \<lambda>_ k. k, ktime_get = \<lambda>_. 5000, current_pid = 1,
     GFP_BITS_MASK = 7, strtobool = \<lambda>_. (0, None), execve = ex, ksys_open = \<lambda>_. 0,
     ksys_access = \<lambda>_. 0\<rparr>"

definition demo_kern :: "nat kern" where
  "demo_kern = \<lparr>blacklisted_initcalls = [], memory = replicate 4 True, preempt_count = 1,
     irqs_disabled = False, events = [], initcall_debug = False, initcall_calltime = 0,
     initcall_log = [], rodata_enabled = True, system_state = SYSTEM_SCHEDULING,
     gfp_allowed_mask = 0, cad_pid = 0, warnings = [], argv_0 = ''init'',
     ramdisk_execute_command = None, execute_command = None, err_log = [],
     saved_command_line = [], initcall_command_line = []\<rparr>"

lemma demo_empty:
  "events demo_kern = []" "initcall_log (demo_kern\<lparr>initcall_debug := b\<rparr>) = []"
  by (simp_all add: demo_kern_def)

lemma demo_orderly: "orderly (demo_kernel ex)"
  by (auto simp: orderly_def demo_kernel_def)

text \<open>
  The parameter \<open>initcall_blacklist=\<close>, given memory, blacklists exactly the fields of its
  comma-separated value: afterwards an initcall is skipped when its name, cut at the first
  blank, is one of them or was blacklisted before.
\<close>

theorem blacklist_is_fields:
  assumes "memory k = replicate (2 * length (comma_fields [] s)) True @ ms"
  shows "\<exists>k'. initcall_blacklist s k = Inr (0, k') \<and> (\<forall>fn. initcall_blacklisted E fn k' \<longleftrightarrow>
    takeWhile (\<lambda>c. c \<noteq> CHR '' '') (fn_name E fn) \<in> set (comma_fields [] s) \<union> set (blacklisted_initcalls k))"
  using blacklist_loop_fields[OF assms]
  by (auto simp: initcall_blacklist_def initcall_blacklisted_def)

theorem blacklist_is_fields_witness:
  "\<exists>k'. initcall_blacklist ''acpi_init,x'' demo_kern = Inr (0, k')
    \<and> initcall_blacklisted (demo_kernel (\<lambda>_. 0)) 1 k'"
proof -
  have "memory demo_kern = replicate (2 * length (comma_fields [] ''acpi_init,x'')) True @ []"
    by (simp add: demo_kern_def)
  from blacklist_is_fields[OF this, of "demo_kernel (\<lambda>_. 0)"]
  obtain k' where k': "initcall_blacklist ''acpi_init,x'' demo_kern = Inr (0, k')"
    "\<forall>fn. initcall_blacklisted (demo_kernel (\<lambda>_. 0)) fn k' \<longleftrightarrow>
      takeWhile (\<lambda>c. c \<noteq> CHR '' '') (fn_name (demo_kernel (\<lambda>_. 0)) fn)
        \<in> set (comma_fields [] ''acpi_init,x'') \<union> set (blacklisted_initcalls demo_kern)"
    by blast
  have "initcall_blacklisted (demo_kernel (\<lambda>_. 0)) 1 k'"
    unfolding k'(2)[rule_format] by (simp add: demo_kernel_def)
  then show ?thesis using k'(1) by blast
qed

text \<open>
  An initcall cannot leave the kernel unbalanced. Whatever it does to the preempt count and
  to interrupts, after \<open>do_one_initcall\<close> the count is what it was and interrupts, on before, are
  on; a blacklisted one is not run and changes nothing.
\<close>

theorem initcall_balanced:
  assumes "\<not> irqs_disabled k" "do_one_initcall E fn k = (ret, k')"
  shows "preempt_count k' = preempt_count k \<and> \<not> irqs_disabled k'
    \<and> (initcall_blacklisted E fn k \<longrightarrow> k' = k \<and> ret = - EPERM)"
  using assms
  by (auto simp: do_one_initcall_def Let_def trace_defs case_prod_beta split: if_splits)

theorem initcall_balanced_witness:
  "preempt_count (snd (do_one_initcall (demo_kernel (\<lambda>_. 0)) 1 demo_kern)) = 1
   \<and> \<not> irqs_disabled (snd (do_one_initcall (demo_kernel (\<lambda>_. 0)) 1 demo_kern))"
  using initcall_balanced[of demo_kern "demo_kernel (\<lambda>_. 0)" 1
      "fst (do_one_initcall (demo_kernel (\<lambda>_. 0)) 1 demo_kern)"
      "snd (do_one_initcall (demo_kernel (\<lambda>_. 0)) 1 demo_kern)"]
  by (simp add: demo_kern_def)

text \<open>
  C30: \<open>do_initcalls\<close> runs every initcall of the eight levels once, level by level in link order,
  leaving out exactly the blacklisted ones, when the initcalls and the parser leave the
  blacklist alone.
\<close>

theorem initcalls_in_order:
  assumes "orderly E"
  shows "called (do_initcalls E k) = called k
    @ allowed E (blacklisted_initcalls k) (between (level_start E 0) (level_start E 8) (initcalls E))"
  using levels_called[OF assms, of 8] unfolding do_initcalls_def initcall_levels_count by simp

theorem initcalls_in_order_witness:
  "called (do_initcalls (demo_kernel (\<lambda>_. 0)) (demo_kern\<lparr>blacklisted_initcalls := [''pci_init'']\<rparr>)) = [1]"
  using initcalls_in_order[OF demo_orderly[of "\<lambda>_. 0"], of "demo_kern\<lparr>blacklisted_initcalls := [''pci_init'']\<rparr>"]
  by (simp add: demo_kernel_def demo_kern_def between_def allowed_def called_def)

definition last_candidates :: "string option \<Rightarrow> string list" where
  "last_candidates command = (case command of Some p \<Rightarrow> [p]
     | None \<Rightarrow> [''/sbin/init'', ''/etc/init'', ''/bin/init'', ''/bin/sh''])"

text \<open>The programs in the order \<open>kernel_init\<close> would try them.\<close>

definition candidates :: "'f kern \<Rightarrow> string list" where
  "candidates k =
     (case ramdisk_execute_command k of None \<Rightarrow> [] | Some p \<Rightarrow> [p])
     @ last_candidates (execute_command k)"

definition runs :: "'f kernel_env \<Rightarrow> string list \<Rightarrow> string list" where
  "runs E ps = takeWhile (\<lambda>p. execve E p \<noteq> 0) ps @ take 1 (dropWhile (\<lambda>p. execve E p \<noteq> 0) ps)"

lemma runs_Cons: "runs E (p # ps) = (if execve E p = 0 then [p] else p # runs E ps)"
  by (simp add: runs_def)

lemma try_to_run_result:
  "\<exists>k'. try_to_run_init_process E p k = (execve E p, k') \<and> tried k' = tried k @ [p]"
  by (auto simp: try_to_run_init_process_def run_init_process_def pr_err_def tried_def)

lemma try_all_runs:
  "fst (try_all E ps k) = list_ex (\<lambda>p. execve E p = 0) ps \<and> tried (snd (try_all E ps k)) = tried k @ runs E ps"
proof (induction ps arbitrary: k)
  case Nil
  then show ?case by (simp add: runs_def)
next
  case (Cons p ps)
  obtain k' where k': "try_to_run_init_process E p k = (execve E p, k')" "tried k' = tried k @ [p]"
    using try_to_run_result by blast
  then show ?case using Cons by (simp add: runs_Cons)
qed

lemma last_programs:
  "(case last_tries E x k of
      Inr (r, k') \<Rightarrow> r = 0 \<and> list_ex (\<lambda>p. execve E p = 0) (last_candidates x)
        \<and> tried k' = tried k @ runs E (last_candidates x)
    | Inl e \<Rightarrow> e = BugOn \<and> list_all (\<lambda>p. execve E p \<noteq> 0) (last_candidates x))"
proof (cases x)
  case None
  define ps where "ps = [''/sbin/init'', ''/etc/init'', ''/bin/init'', ''/bin/sh'']"
  obtain ok k' where t: "try_all E ps k = (ok, k')" by fastforce
  have "\<not> list_ex (\<lambda>p. execve E p = 0) ps \<longleftrightarrow> list_all (\<lambda>p. execve E p \<noteq> 0) ps"
    by (simp add: list_ex_iff list_all_iff)
  then show ?thesis
    using None try_all_runs[of E ps k] t
    unfolding last_tries_def last_candidates_def ps_def[symmetric] by auto
next
  case (Some p)
  then show ?thesis
    by (simp add: last_tries_def last_candidates_def run_init_process_def runs_def tried_def)
qed

text \<open>
  C37: the kernel hands over to the first program that starts. It tries the early init, then the
  program of \<open>init=\<close> alone when one was given and otherwise the four defaults in order, stops at
  the first that executes, and panics exactly when none does.
\<close>

theorem init_programs_in_order:
  "(case start_init E k of
      Inr (r, k') \<Rightarrow> r = 0 \<and> list_ex (\<lambda>p. execve E p = 0) (candidates k)
        \<and> tried k' = tried k @ runs E (candidates k)
    | Inl e \<Rightarrow> e = BugOn \<and> list_all (\<lambda>p. execve E p \<noteq> 0) (candidates k))"
proof (cases "ramdisk_execute_command k")
  case None
  then have "candidates k = last_candidates (execute_command k)" "start_init E k = last_tries E (execute_command k) k"
    by (simp_all add: start_init_def candidates_def)
  then show ?thesis
    using last_programs[of E "execute_command k" k] by (simp only:)
next
  case (Some p)
  show ?thesis
  proof (cases "execve E p = 0")
    case True
    then show ?thesis
      using Some by (auto simp: start_init_def candidates_def run_init_process_def runs_Cons tried_def)
  next
    case False
    define k1 where "k1 = pr_err ''Failed to execute %s (error %d)'' p (execve E p) (snd (run_init_process E p k))"
    have k1: "tried k1 = tried k @ [p]" "execute_command k1 = execute_command k"
      by (simp_all add: k1_def pr_err_def run_init_process_def tried_def)
    have "start_init E k = last_tries E (execute_command k) k1"
      using Some False by (simp add: start_init_def k1_def run_init_process_def pr_err_def)
    then show ?thesis
      using last_programs[of E "execute_command k" k1] Some False k1
      by (auto simp: candidates_def runs_Cons split: sum.splits)
  qed
qed

section \<open>What happens between the boot and the first program\<close>

text \<open>The events a step adds, all of one kind.\<close>

definition adds :: "('f kevent \<Rightarrow> bool) \<Rightarrow> 'f kern \<Rightarrow> 'f kern \<Rightarrow> bool" where
  "adds P k k' \<longleftrightarrow> (\<exists>es. events k' = events k @ es \<and> list_all P es)"

lemma adds_events: "events k' = events k \<Longrightarrow> adds P k k'"
  by (simp add: adds_def)

lemma adds_one: "events k' = events k @ [e] \<Longrightarrow> P e \<Longrightarrow> adds P k k'"
  by (simp add: adds_def)

lemma adds_refl [simp]: "adds P k k"
  by (simp add: adds_def)

lemma adds_trans [trans]: "adds P k k' \<Longrightarrow> adds P k' k'' \<Longrightarrow> adds P k k''"
  by (auto simp: adds_def)

lemma adds_left: "events k1 = events k \<Longrightarrow> adds P k1 k' \<Longrightarrow> adds P k k'"
  by (simp add: adds_def)

lemma adds_right: "events k1 = events k' \<Longrightarrow> adds P k k1 \<Longrightarrow> adds P k k'"
  by (simp add: adds_def)

definition no_exec :: "'f kevent \<Rightarrow> bool" where
  "no_exec e = (case e of Exec _ \<Rightarrow> False | _ \<Rightarrow> True)"

definition no_initcall :: "'f kevent \<Rightarrow> bool" where
  "no_initcall e = (case e of Initcall _ \<Rightarrow> False | _ \<Rightarrow> True)"

lemma kinds [simp]:
  "no_exec (Kcall f)" "no_initcall (Kcall f)" "no_exec (Initcall i)" "no_initcall (Exec p)"
  "\<not> no_exec (Exec p)" "\<not> no_initcall (Initcall i)"
  by (simp_all add: no_exec_def no_initcall_def)

lemma adds_callk: "(\<And>f. P (Kcall f)) \<Longrightarrow> adds P k (callk E f k)"
  by (rule adds_one[of _ _ "Kcall f"]) (simp_all add: callk_def)

lemma adds_calls:
  assumes "\<And>f. P (Kcall f)"
  shows "adds P k (calls E fs k)"
proof (induction fs arbitrary: k)
  case Nil
  show ?case by (simp add: calls_def)
next
  case (Cons f fs)
  have "adds P k (callk E f k)" by (rule adds_callk) (rule assms)
  also have "adds P (callk E f k) (calls E fs (callk E f k))" by (rule Cons)
  finally show ?case by (simp add: calls_def)
qed

lemma adds_one_initcall: "adds no_exec k (snd (do_one_initcall E fn k))"
proof (cases "initcall_blacklisted E fn k")
  case True
  then show ?thesis by (simp add: do_one_initcall_def)
next
  case False
  then have "events (snd (do_one_initcall E fn k)) = events k @ [Initcall fn]"
    by (simp add: do_one_initcall_def call_initcall_def trace_defs Let_def case_prod_beta)
  then show ?thesis by (rule adds_one) simp
qed

lemma adds_run_initcalls: "adds no_exec k (run_initcalls E fns k)"
  by (induction fns arbitrary: k) (auto intro: adds_trans adds_one_initcall)

lemma adds_level: "adds no_exec k (do_initcall_level E n k)"
  unfolding do_initcall_level_def Let_def by (rule adds_left[OF _ adds_run_initcalls]) simp

lemma adds_initcalls: "adds no_exec k (do_initcalls E k)"
proof -
  have "adds no_exec k (fold (do_initcall_level E) ns k)" for ns
    by (induction ns arbitrary: k) (auto intro: adds_trans adds_level)
  then show ?thesis by (simp add: do_initcalls_def)
qed

lemmas adds_setup = adds_callk[of no_exec] adds_calls[of no_exec]

lemma adds_basic_setup: "adds no_exec k (do_basic_setup E k)"
  unfolding do_basic_setup_def do_ctors_def Let_def
  by (intro adds_trans[OF _ adds_initcalls] adds_trans[OF _ adds_callk] adds_trans[OF _ adds_calls]
      adds_refl) simp_all

lemma adds_freeable: "adds no_exec k (freeable_setup E k)"
proof -
  note step = adds_trans[OF _ adds_callk] adds_trans[OF _ adds_calls] adds_trans[OF _ adds_run_initcalls]
    adds_trans[OF _ adds_basic_setup]
  have same: "adds no_exec a (b\<lparr>gfp_allowed_mask := g\<rparr>) \<longleftrightarrow> adds no_exec a b"
    "adds no_exec a (b\<lparr>cad_pid := i\<rparr>) \<longleftrightarrow> adds no_exec a b"
    "adds no_exec a (pr_err f p r b) \<longleftrightarrow> adds no_exec a b" for a b :: "'a kern" and g i f p r
    by (simp_all add: adds_def pr_err_def)
  show ?thesis
    unfolding freeable_setup_def do_pre_smp_initcalls_def Let_def
    by (auto simp: same intro!: step)
qed

lemma adds_early_user_space: "adds no_exec k (early_user_space E k)"
proof -
  have same: "adds no_exec a (b\<lparr>ramdisk_execute_command := p\<rparr>) \<longleftrightarrow> adds no_exec a b"
    for a b :: "'a kern" and p
    by (simp add: adds_def)
  show ?thesis
    unfolding early_user_space_def Let_def
    by (auto simp: same intro!: adds_trans[OF _ adds_callk])
qed

lemma adds_run_init: "adds no_initcall k (snd (run_init_process E p k))"
  by (rule adds_one[of _ _ "Exec p"]) (simp_all add: run_init_process_def)

lemma adds_try_all: "adds no_initcall k (snd (try_all E ps k))"
proof (induction ps arbitrary: k)
  case (Cons p ps)
  have "adds no_initcall k (snd (try_to_run_init_process E p k))"
    by (rule adds_one[of _ _ "Exec p"])
      (simp_all add: try_to_run_init_process_def run_init_process_def pr_err_def)
  then show ?case
    using Cons by (auto simp: Let_def case_prod_beta intro: adds_trans)
qed simp

lemma adds_last_tries:
  assumes "last_tries E x k = Inr (r, k')"
  shows "adds no_initcall k k'"
proof (cases x)
  case None
  define ps where "ps = [''/sbin/init'', ''/etc/init'', ''/bin/init'', ''/bin/sh'']"
  have "k' = snd (try_all E ps k)"
    using assms None unfolding last_tries_def ps_def[symmetric]
    by (auto simp: Let_def case_prod_beta split: if_splits)
  then show ?thesis by (simp add: adds_try_all)
next
  case (Some p)
  then have "k' = snd (run_init_process E p k)"
    using assms by (auto simp: last_tries_def Let_def case_prod_beta split: if_splits)
  then show ?thesis by (simp add: adds_run_init)
qed

lemma adds_start_init:
  assumes "start_init E k = Inr (r, k')"
  shows "adds no_initcall k k'"
proof (cases "ramdisk_execute_command k")
  case None
  then show ?thesis using assms adds_last_tries[of E _ k r k'] by (simp add: start_init_def)
next
  case (Some p)
  have fail: "adds no_initcall k (pr_err f p q (snd (run_init_process E p k)))" for f q
    by (rule adds_right[OF _ adds_run_init]) (simp add: pr_err_def)
  show ?thesis
    using Some assms adds_run_init[of k E p] adds_trans[OF fail adds_last_tries]
    by (auto simp: start_init_def Let_def case_prod_beta split: if_splits)
qed

lemma events_calls: "events (calls E fs k) = events k @ map Kcall fs"
  by (induction fs arbitrary: k) (simp_all add: calls_def callk_def)

lemma finish_frees:
  obtains a b where "events (finish_boot E k) = events k @ map Kcall a @ Kcall ''free_initmem_default'' # map Kcall b"
proof
  let ?k = "free_initmem E (calls E [''async_synchronize_full'', ''ftrace_free_init_mem''] k)"
  show "events (finish_boot E k) = events k @ map Kcall [''async_synchronize_full'', ''ftrace_free_init_mem'']
    @ Kcall ''free_initmem_default'' # map Kcall ((if rodata_enabled ?k
        then [''rcu_barrier'', ''mark_rodata_ro'', ''rodata_test''] else [])
      @ [''pti_finalize'', ''numa_default_policy'', ''rcu_end_inkernel_boot''])"
    by (simp add: finish_boot_def free_initmem_def mark_readonly_def callk_def events_calls Let_def)
qed

text \<open>
  C26: the init memory is freed in time and not too early. Whatever the kernel functions and the
  initcalls do, when \<open>kernel_init\<close> returns, the freeing of the init memory stands in its events
  after every initcall it ran and before every program it tried.
\<close>

theorem initmem_freed_between:
  assumes "kernel_init E k = Inr (r, k')"
  shows "\<exists>a b. events k' = events k @ a @ Kcall ''free_initmem_default'' # b
    \<and> list_all no_exec a \<and> list_all no_initcall b"
proof -
  let ?m = "kernel_init_freeable E k"
  have "adds no_exec k ?m"
    unfolding kernel_init_freeable_def by (rule adds_trans[OF adds_freeable adds_early_user_space])
  moreover obtain a b where f: "events (finish_boot E ?m)
      = events ?m @ map Kcall a @ Kcall ''free_initmem_default'' # map Kcall b"
    by (rule finish_frees)
  moreover have "adds no_initcall (finish_boot E ?m) k'"
    using assms by (intro adds_start_init) (simp add: kernel_init_def)
  ultimately obtain c d where "events k' = events k @ (c @ map Kcall a) @ Kcall ''free_initmem_default'' # map Kcall b @ d"
    "list_all no_exec c" "list_all no_initcall d"
    by (auto simp: adds_def)
  moreover have "list_all no_exec (map Kcall a)" "list_all no_initcall (map Kcall b)"
    by (simp_all add: list_all_iff)
  ultimately show ?thesis
    by (metis list_all_append)
qed

theorem initmem_freed_between_witness:
  "\<exists>a b. events (snd (projr (kernel_init (demo_kernel (\<lambda>_. 0)) demo_kern)))
      = a @ Kcall ''free_initmem_default'' # b \<and> list_all no_exec a \<and> list_all no_initcall b"
proof -
  have ok: "\<exists>r k'. kernel_init (demo_kernel (\<lambda>_. 0)) demo_kern = Inr (r, k')"
  proof (cases "kernel_init (demo_kernel (\<lambda>_. 0)) demo_kern")
    case (Inl e)
    then have "start_init (demo_kernel (\<lambda>_. 0))
        (finish_boot (demo_kernel (\<lambda>_. 0)) (kernel_init_freeable (demo_kernel (\<lambda>_. 0)) demo_kern)) = Inl e"
      by (simp add: kernel_init_def)
    then show ?thesis
      by (auto simp: start_init_def last_tries_def demo_kernel_def run_init_process_def
          try_to_run_init_process_def Let_def split: option.splits)
  next
    case (Inr b)
    then show ?thesis by (cases b) simp
  qed
  then obtain r k' where k': "kernel_init (demo_kernel (\<lambda>_. 0)) demo_kern = Inr (r, k')" by blast
  show ?thesis
    using initmem_freed_between[OF k'] by (simp add: k' demo_empty)
qed

lemma shift_loss:
  fixes ns q r :: int
  assumes "1000 * r \<le> ns" "ns < 1024 * (q + 1)" "0 \<le> q"
  shows "42 * (r - q) \<le> r + 42"
proof -
  have "1000 * r < 1024 * (q + 1)" using assms(1,2) by (rule order.strict_trans1)
  then have "1000 * (41 * r) \<le> 1000 * (42 * (q + 1))" using assms(3) by simp
  then show ?thesis by simp
qed

text \<open>
  The traced duration of an initcall is not in microseconds, whatever the message says. With
  \<open>initcall_debug\<close> on and the clock not running backwards, the number printed is the elapsed
  nanoseconds divided by 1024, so it never exceeds the microseconds and falls short of them by
  at most one part in 42 and one unit.
\<close>

theorem initcall_duration:
  assumes "initcall_debug k" "uint (initcall_calltime k) \<le> uint (ktime_get E k)"
    and "ns = uint (ktime_get E k) - uint (initcall_calltime k)"
  shows "\<exists>d. initcall_log (do_trace_initcall_finish E fn ret k) = initcall_log k @ [Returned fn ret d]
    \<and> uint d = ns div 1024 \<and> uint d \<le> ns div 1000 \<and> 42 * (ns div 1000 - uint d) \<le> ns div 1000 + 42"
proof -
  let ?d = "drop_bit 10 (ktime_get E k - initcall_calltime k)"
  have "uint (ktime_get E k - initcall_calltime k) = ns"
    using assms(2,3) uint_sub_lem by blast
  then have d: "uint ?d = ns div 1024"
    by (simp add: drop_bit_eq_div uint_div)
  have ns: "0 \<le> ns" using assms(2,3) by simp
  have "ns div 1024 \<le> ns div 1000" using ns by (intro zdiv_mono2) simp_all
  have "1000 * (ns div 1000) \<le> ns" by linarith
  moreover have "ns < 1024 * (ns div 1024 + 1)"
    using pos_mod_bound[of 1024 ns] div_mult_mod_eq[of ns 1024] by (simp add: algebra_simps)
  moreover have "0 \<le> ns div 1024" using ns by (simp add: pos_imp_zdiv_nonneg_iff)
  ultimately have "42 * (ns div 1000 - ns div 1024) \<le> ns div 1000 + 42" by (rule shift_loss)
  with \<open>ns div 1024 \<le> ns div 1000\<close> show ?thesis
    using assms(1) d
    by (auto simp: do_trace_initcall_finish_def trace_initcall_finish_cb_def Let_def)
qed

theorem initcall_duration_witness:
  "\<exists>d. initcall_log (do_trace_initcall_finish (demo_kernel (\<lambda>_. 0)) 1 0 (demo_kern\<lparr>initcall_debug := True\<rparr>))
     = [Returned 1 0 d] \<and> uint d = 4"
proof -
  have "\<exists>d. initcall_log (do_trace_initcall_finish (demo_kernel (\<lambda>_. 0)) 1 0 (demo_kern\<lparr>initcall_debug := True\<rparr>))
      = initcall_log (demo_kern\<lparr>initcall_debug := True\<rparr>) @ [Returned 1 0 d]
    \<and> uint d = 5000 div 1024 \<and> uint d \<le> 5000 div 1000 \<and> 42 * (5000 div 1000 - uint d) \<le> 5000 div 1000 + 42"
    by (rule initcall_duration) (simp_all add: demo_kern_def demo_kernel_def)
  then show ?thesis unfolding demo_empty by auto
qed

end
