(* ===== verification/Boot_Init.thy ===== *)
theory Boot_Init
  imports BootParams_Props Initcalls_Props
begin

text \<open>
  The boot parameters of \<^verbatim>\<open>project 2/main.c\<close> and its choice of the first program, put together: the
  entries the file itself adds to the table of boot parameters, what the option \<open>init=\<close> leaves in
  \<open>execute_command\<close>, and what \<open>kernel_init\<close> does with it.

  The table holds the entries of every file of the kernel; those of this one stand together, in
  the order of the source. Its entries \<open>initcall_blacklist=\<close> and \<open>rodata=\<close> work on the state of \<open>Initcalls\<close>
  and are left to the rest of the table. \<open>parameqn\<close> is taken to compare as its documentation says,
  with a dash like an underscore.
\<close>

section \<open>The entries of the file\<close>

definition file_params :: "boot_env \<Rightarrow> boot obs_kernel_param list" where
  "file_params E =
     [\<lparr>str = ''reset_devices'', early = False, setup_func = Some set_reset_devices\<rparr>,
      \<lparr>str = ''debug'', early = True, setup_func = Some debug_kernel\<rparr>,
      \<lparr>str = ''quiet'', early = True, setup_func = Some quiet_kernel\<rparr>,
      \<lparr>str = ''loglevel'', early = True, setup_func = Some (loglevel E)\<rparr>,
      \<lparr>str = ''init='', early = False, setup_func = Some (init_setup E)\<rparr>,
      \<lparr>str = ''rdinit='', early = False, setup_func = Some (rdinit_setup E)\<rparr>]"

definition dash_as_underscore :: "char \<Rightarrow> char" where
  "dash_as_underscore c = (if c = CHR ''-'' then CHR ''_'' else c)"

definition compares_names :: "boot_env \<Rightarrow> bool" where
  "compares_names E \<longleftrightarrow> (\<forall>s t n. parameqn E s t n \<longleftrightarrow>
     map dash_as_underscore (take n s) = map dash_as_underscore (take n t))"

lemma checksetup_skip:
  assumes "\<forall>p \<in> set ps. \<not> parameqn E (str_at b line) (str p) (length (str p))"
  shows "checksetup_loop E line had (ps @ qs) b = checksetup_loop E line had qs b"
  using assms by (induction ps) (simp_all add: Let_def)

text \<open>Of the file's entries only the fifth matches a word that begins with \<open>init=\<close>.\<close>

lemma file_params_init:
  assumes "compares_names E" "str_at b line = ''init='' @ prog"
  shows "checksetup_loop E line False (file_params E @ ps) b =
    (True, clear_args E (b\<lparr>boot.execute_command := Some (At (line + 5))\<rparr>))"
proof -
  have "parameqn E (str_at b line) ''init='' 5"
    using assms by (simp add: compares_names_def)
  moreover have "\<not> parameqn E (str_at b line) (c # s) (Suc n)" if "c \<noteq> CHR ''i''" "c \<noteq> CHR ''-''" for c s n
    using assms that by (simp add: compares_names_def dash_as_underscore_def)
  ultimately show ?thesis
    by (simp add: file_params_def init_setup_def Let_def eval_nat_numeral)
qed

section \<open>The string stays\<close>

text \<open>The repair of a word writes nothing in front of it.\<close>

lemma repair_keeps_prefix:
  assumes "repair_env_string param val b = Inr b'" "n \<le> param"
  shows "take n (cmdline b') = take n (cmdline b)"
  using assms
  by (auto simp: repair_env_string_def move_down_def andThen_eq_Inr aset_def Let_def min_def
      split: option.splits if_splits)

lemma str_at_kept:
  assumes "cmdline b = l @ s @ NUL # r" "NUL \<notin> set s" "repair_env_string param val b = Inr b'"
    and "length l + length s < param"
  shows "str_at b' (length l) = s"
proof -
  let ?n = "length (l @ s @ [NUL])"
  have "take ?n (cmdline b') = take ?n (cmdline b)"
    using repair_keeps_prefix[OF assms(3)] assms(4) by simp
  then have "take ?n (cmdline b') = l @ s @ [NUL]" using assms(1) by simp
  then have "cmdline b' = l @ s @ NUL # drop ?n (cmdline b')"
    using append_take_drop_id[of ?n "cmdline b'"] by (metis append.assoc append_Cons append_Nil)
  then show ?thesis using str_at_split assms(2) by blast
qed

section \<open>Properties\<close>

text \<open>The word \<open>init=prog\<close>, its value quoted or not, as the parser leaves it.\<close>

definition init_word :: "boot \<Rightarrow> string \<Rightarrow> nat \<Rightarrow> nat \<Rightarrow> bool" where
  "init_word b prog param v \<longleftrightarrow> NUL \<notin> set prog \<and> (\<exists>l q r. cmdline b = l @ ''init'' @ NUL # q @ prog @ NUL # r
     \<and> length q \<le> 1 \<and> param = length l \<and> v = param + 5 + length q)"

lemma init_word_done:
  assumes "compares_names E" "table E = pre @ file_params E @ post"
    and "\<forall>p \<in> set pre. \<not> parameqn E (''init='' @ prog) (str p) (length (str p))"
    and "init_word b prog param v"
  obtains b' l r where "unknown_bootoption E param (Some v) b = Inr b'"
    "boot.execute_command b' = Some (At (length l))" "cmdline b' = l @ prog @ NUL # r" "length l = param + 5"
    "boot.ramdisk_execute_command b' = boot.ramdisk_execute_command b" "argv_init b' = argv_init (clear_args E b)"
proof -
  obtain l q r where w: "NUL \<notin> set prog" "cmdline b = l @ ''init'' @ NUL # q @ prog @ NUL # r"
    "length q \<le> 1" "param = length l" "v = param + 5 + length q"
    using assms(4) by (auto simp: init_word_def)
  have "NUL \<notin> set ''init''" by (simp add: NUL_def)
  from repair_word[OF this w(1,4,2,3)] obtain b1 where
    b1: "repair_env_string param (Some v) b = Inr b1" "str_at b1 param = ''init='' @ prog"
      "cmdline b1 = l @ ''init='' @ prog @ NUL # replicate (length q) NUL @ r"
    using w(5) by (auto simp: eval_nat_numeral)
  then obtain m where m: "b1 = b\<lparr>cmdline := m\<rparr>"
    by (auto simp: repair_env_string_def move_down_def andThen_eq_Inr Let_def split: if_splits)
  have "obsolete_checksetup E param b1 = Inr (True, clear_args E (b1\<lparr>boot.execute_command := Some (At (param + 5))\<rparr>))"
    using checksetup_skip[of pre E b1 param] file_params_init[OF assms(1) b1(2)] assms(2,3) b1(2)
    by (simp add: obsolete_checksetup_def file_params_def)
  then have "unknown_bootoption E param (Some v) b =
      Inr (clear_args E (b\<lparr>cmdline := m, boot.execute_command := Some (At (param + 5))\<rparr>))"
    using b1(1) m by (simp add: unknown_bootoption_def)
  moreover have "m = (l @ ''init='') @ prog @ NUL # (replicate (length q) NUL @ r)"
    using b1(3) m by simp
  moreover have "length (l @ ''init='') = param + 5" using w(4) by simp
  ultimately show ?thesis
    by (intro that[of "clear_args E (b\<lparr>cmdline := m, boot.execute_command := Some (At (param + 5))\<rparr>)"
          "l @ ''init=''"]) (simp_all add: clear_args_def)
qed

text \<open>A kernel whose table has just the entries of the file, and the command line \<open>init=/bin/sh\<close>.\<close>

definition init_env :: boot_env where
  "init_env = (demo_boot 2)\<lparr>table := file_params (demo_boot 2),
     parameqn := \<lambda>s t n. map dash_as_underscore (take n s) = map dash_as_underscore (take n t)\<rparr>"

definition init_line :: boot where
  "init_line = boot_start 2 (''init'' @ NUL # ''/bin/sh'' @ [NUL]) 7"

lemma init_env_limit [simp]: "limit init_env = 2"
  by (simp add: init_env_def)

lemma init_env_ok: "compares_names init_env" "table init_env = [] @ file_params init_env @ []"
  by (simp_all add: compares_names_def init_env_def file_params_def loglevel_def init_setup_def
      rdinit_setup_def clear_args_def fun_eq_iff)

lemma init_line_word: "init_word init_line ''/bin/sh'' 0 5"
proof -
  have "cmdline init_line = [] @ ''init'' @ NUL # [] @ ''/bin/sh'' @ NUL # []"
    by (simp add: init_line_def boot_start_def)
  moreover have "NUL \<notin> set ''/bin/sh''" by (simp add: NUL_def)
  ultimately show ?thesis unfolding init_word_def by (metis add.right_neutral list.size(3) zero_le add_0)
qed

text \<open>
  The option \<open>init=prog\<close>, quoted or not, makes \<open>execute_command\<close> point to \<open>prog\<close> on the command line,
  whatever the rest of the table holds, and no word further on overwrites that string when it
  is repaired. The arguments collected before it are dropped, up to the index \<open>limit\<close>.
\<close>

theorem init_option_selects:
  assumes "compares_names E" "table E = pre @ file_params E @ post" "arrays_ok E b"
    and "\<forall>p \<in> set pre. \<not> parameqn E (''init='' @ prog) (str p) (length (str p))"
    and "init_word b prog param v"
  shows "\<exists>b' p. unknown_bootoption E param (Some v) b = Inr b' \<and> boot.execute_command b' = Some p
    \<and> c_str b' p = prog
    \<and> (\<forall>w x b''. param + 5 + length prog < w \<and> repair_env_string w x b' = Inr b'' \<longrightarrow> c_str b'' p = prog)
    \<and> (\<forall>i. 1 \<le> i \<and> i < limit E \<longrightarrow> argv_init b' ! i = None)"
proof -
  obtain b' l r where b': "unknown_bootoption E param (Some v) b = Inr b'"
    "boot.execute_command b' = Some (At (length l))" "cmdline b' = l @ prog @ NUL # r" "length l = param + 5"
    "argv_init b' = argv_init (clear_args E b)"
    using init_word_done[OF assms(1,2,4,5)] by blast
  have n: "NUL \<notin> set prog" using assms(5) by (simp add: init_word_def)
  have "c_str b' (At (length l)) = prog" using str_at_split[OF b'(3) n] by simp
  moreover have "c_str b'' (At (length l)) = prog"
    if "param + 5 + length prog < w" "repair_env_string w x b' = Inr b''" for w x b''
    using str_at_kept[OF b'(3) n that(2)] that(1) b'(4) by simp
  moreover have "argv_init b' ! i = None" if "1 \<le> i" "i < limit E" for i
    using that assms(3) by (simp add: b'(5) clear_args_def arrays_ok_def fold_clear_hit)
  ultimately show ?thesis using b'(1,2) by blast
qed

theorem init_option_selects_witness:
  "\<exists>b' p. unknown_bootoption init_env 0 (Some 5) init_line = Inr b'
    \<and> boot.execute_command b' = Some p \<and> c_str b' p = ''/bin/sh''"
proof -
  have "arrays_ok init_env init_line"
    using boot_start_ok[of init_env] by (simp add: init_line_def)
  from init_option_selects[OF init_env_ok this _ init_line_word] show ?thesis by auto
qed

text \<open>The two pointers as \<open>kernel_init\<close> reads them.\<close>

definition read_commands :: "boot \<Rightarrow> 'f kern \<Rightarrow> 'f kern" where
  "read_commands b k =
     k\<lparr>kern.execute_command := map_option (c_str b) (boot.execute_command b),
       kern.ramdisk_execute_command := map_option (c_str b) (boot.ramdisk_execute_command b)\<rparr>"

text \<open>
  C24: from the command line to the first process: with \<open>init=prog\<close> and no early init the kernel
  executes \<open>prog\<close> and nothing else; when that fails it panics, without a try of the defaults.
\<close>

theorem init_option_runs:
  assumes "compares_names E" "table E = pre @ file_params E @ post"
    and "\<forall>p \<in> set pre. \<not> parameqn E (''init='' @ prog) (str p) (length (str p))"
    and "init_word b prog param v" "boot.ramdisk_execute_command b = None"
  shows "\<exists>b'. unknown_bootoption E param (Some v) b = Inr b'
    \<and> (case start_init K (read_commands b' k) of
         Inr (r, k') \<Rightarrow> r = 0 \<and> execve K prog = 0 \<and> tried k' = tried k @ [prog]
       | Inl e \<Rightarrow> e = BugOn \<and> execve K prog \<noteq> 0)"
proof -
  obtain b' l r where b': "unknown_bootoption E param (Some v) b = Inr b'"
    "boot.execute_command b' = Some (At (length l))" "cmdline b' = l @ prog @ NUL # r"
    "boot.ramdisk_execute_command b' = boot.ramdisk_execute_command b"
    using init_word_done[OF assms(1-4)] by blast
  have "c_str b' (At (length l)) = prog"
    using str_at_split[OF b'(3)] assms(4) by (simp add: init_word_def)
  then have k: "kern.execute_command (read_commands b' k) = Some prog"
    "kern.ramdisk_execute_command (read_commands b' k) = None" "tried (read_commands b' k) = tried k"
    using assms(5) b' by (simp_all add: read_commands_def tried_def)
  then have "start_init K (read_commands b' k) = last_tries K (Some prog) (read_commands b' k)"
    by (simp add: start_init_def)
  then show ?thesis
    using last_programs[of K "Some prog" "read_commands b' k"] b'(1) k(3)
    by (auto simp: last_candidates_def runs_def split: sum.splits)
qed

theorem init_option_runs_witness:
  "\<exists>b'. unknown_bootoption init_env 0 (Some 5) init_line = Inr b'
    \<and> (\<exists>k'. start_init (demo_kernel (\<lambda>p. if p = ''/bin/sh'' then 0 else - ENOENT))
          (read_commands b' demo_kern) = Inr (0, k'))"
proof -
  let ?K = "demo_kernel (\<lambda>p. if p = ''/bin/sh'' then 0 else - ENOENT)"
  have "boot.ramdisk_execute_command init_line = None" by (simp add: init_line_def boot_start_def)
  have "execve ?K ''/bin/sh'' = 0" by (simp add: demo_kernel_def)
  moreover obtain b' where "unknown_bootoption init_env 0 (Some 5) init_line = Inr b'"
    "case start_init ?K (read_commands b' demo_kern) of
       Inr (r, k') \<Rightarrow> r = 0 \<and> execve ?K ''/bin/sh'' = 0 \<and> tried k' = tried demo_kern @ [''/bin/sh'']
     | Inl e \<Rightarrow> e = BugOn \<and> execve ?K ''/bin/sh'' \<noteq> 0"
    using init_option_runs[OF init_env_ok _ init_line_word \<open>_ = None\<close>, of ?K demo_kern] by auto
  ultimately show ?thesis by (cases "start_init ?K (read_commands b' demo_kern)") auto
qed

text \<open>
  The last slot that a scan can fill, the one at \<open>limit\<close>, is not cleared: an argument there stays
  behind, in front of no option, when \<open>init=\<close> drops the others.
\<close>

lemma init_keeps_last_slot:
  "argv_init (snd (init_setup E p b)) ! limit E = argv_init b ! limit E"
  by (simp add: init_setup_def clear_args_def fold_clear_nth)

end
