(* ===== verification/Startup.thy ===== *)
theory Startup
  imports BootParams
begin

text \<open>
  The start of the kernel in \<^verbatim>\<open>project 2/main.c\<close>: \<open>start_kernel\<close> up to \<open>rest_init\<close>, the copies of
  the command line, and the early parameters.

  The code is a long sequence of calls of functions of other files. Each is a parameter that
  may do anything to the state (\<open>fx\<close>), and is taken to return: a callee that panics or never
  comes back is not modelled. The state keeps the calls in order (\<open>trace\<close>). The parser
  \<open>parse_args\<close> of \<^verbatim>\<open>kernel/params.c\<close> is a parameter over the callback it is given. The callbacks
  are those of \<open>BootParams\<close>, whose state is the field \<open>params\<close>; its buffer \<open>cmdline\<close> is
  \<open>static_command_line\<close>, and during the early parse \<open>tmp_cmdline\<close>. The functions declared
  \<^verbatim>\<open>__weak\<close> with empty bodies are calls like the others, since an architecture may replace them.
  The build is x86 with \<^verbatim>\<open>CONFIG_BLK_DEV_INITRD\<close> and without tracepoints.
\<close>

section \<open>State and environment\<close>

record start =
  params :: boot
  boot_command_line :: string
  saved_command_line :: "string option"
  initcall_room :: "nat option"    \<comment> \<open>the size of \<open>initcall_command_line\<close>\<close>
  alloc :: "bool list"             \<comment> \<open>whether the next calls of \<open>memblock_alloc\<close> succeed\<close>
  early_done :: bool               \<comment> \<open>the static \<open>done\<close> of \<open>parse_early_param\<close>\<close>
  irqs_on :: bool
  early_boot_irqs_disabled :: bool
  initcall_debugging :: bool
  late_time_init :: bool           \<comment> \<open>whether the pointer is set\<close>
  initrd_start :: u64
  initrd_below_start_ok :: bool
  min_low_pfn :: u64
  printed :: "string list"
  trace :: "string list"

text \<open>What \<open>parse_args\<close> returns: null, an error, or what follows a double dash.\<close>

datatype after = Nothing | Err int | Dashes nat

type_synonym param_callback = "nat \<Rightarrow> nat option \<Rightarrow> boot \<Rightarrow> boot res"

record start_env =
  boot_params :: boot_env
  fx :: "string \<Rightarrow> start \<Rightarrow> start"
  parse_args :: "string \<Rightarrow> param_callback \<Rightarrow> nat \<Rightarrow> boot \<Rightarrow> (after \<times> boot) res"
  arch_command_line :: "start \<Rightarrow> string"   \<comment> \<open>what \<open>setup_arch\<close> stores in \<open>command_line\<close>\<close>
  pfn_of :: "u64 \<Rightarrow> u64"                   \<comment> \<open>\<open>page_to_pfn(virt_to_page(p))\<close>\<close>
  efi_runtime :: "start \<Rightarrow> bool"           \<comment> \<open>\<open>efi_enabled(EFI_RUNTIME_SERVICES)\<close>\<close>
  COMMAND_LINE_SIZE :: nat

definition callf :: "start_env \<Rightarrow> string \<Rightarrow> start \<Rightarrow> start" where
  "callf E f s = (fx E f s)\<lparr>trace := trace s @ [f]\<rparr>"

definition callfs :: "start_env \<Rightarrow> string list \<Rightarrow> start \<Rightarrow> start" where
  "callfs E fs s = fold (callf E) fs s"

definition note_call :: "string \<Rightarrow> start \<Rightarrow> start" where
  "note_call f s = s\<lparr>trace := trace s @ [f]\<rparr>"

definition pr :: "string \<Rightarrow> start \<Rightarrow> start" where
  "pr m s = s\<lparr>printed := printed s @ [m]\<rparr>"

definition local_irq_disable :: "start \<Rightarrow> start" where
  "local_irq_disable s = note_call ''local_irq_disable'' (s\<lparr>irqs_on := False\<rparr>)"

definition local_irq_enable :: "start \<Rightarrow> start" where
  "local_irq_enable s = note_call ''local_irq_enable'' (s\<lparr>irqs_on := True\<rparr>)"

section \<open>The command line\<close>

definition boot_alloc :: "start \<Rightarrow> start res" where
  "boot_alloc s =
     (case alloc s of
        [] \<Rightarrow> Inl BugOn
      | ok # oks \<Rightarrow> if ok then Inr (s\<lparr>alloc := oks\<rparr>) else Inl BugOn)"

text \<open>
  \<open>strcpy\<close> into a zeroed buffer of \<open>n\<close> bytes; the three buffers have room for
  \<open>boot_command_line\<close> and its null byte.
\<close>

definition strcpy_new :: "nat \<Rightarrow> string \<Rightarrow> string res" where
  "strcpy_new n s =
     (if length s + 1 \<le> n then Inr (s @ replicate (n - length s) NUL) else Inl OutOfBounds)"

definition setup_command_line :: "string \<Rightarrow> start \<Rightarrow> start res" where
  "setup_command_line command_line s =
     (let len = length (boot_command_line s) + 1 in
      andThen (boot_alloc s) (\<lambda>s.
      andThen (boot_alloc s) (\<lambda>s.
      andThen (boot_alloc s) (\<lambda>s.
      andThen (strcpy_new len (boot_command_line s)) (\<lambda>_.
      let s = s\<lparr>saved_command_line := Some (boot_command_line s), initcall_room := Some len\<rparr> in
      andThen (strcpy_new len command_line) (\<lambda>m.
      Inr (s\<lparr>params := (params s)\<lparr>cmdline := m\<rparr>\<rparr>)))))))"

text \<open>A call of the parser on the buffer in \<open>params\<close>.\<close>

definition parse :: "start_env \<Rightarrow> string \<Rightarrow> param_callback \<Rightarrow> nat \<Rightarrow> start \<Rightarrow> (after \<times> start) res" where
  "parse E doing unknown p s =
     andThen (parse_args E doing unknown p (params s)) (\<lambda>(r, b).
     Inr (r, note_call (''parse_args: '' @ doing) (s\<lparr>params := b\<rparr>)))"

definition early_callback :: "start_env \<Rightarrow> param_callback" where
  "early_callback E p v b = andThen (do_early_param (boot_params E) p v b) (\<lambda>(_, b). Inr b)"

text \<open>The early parse has a buffer of its own.\<close>

definition parse_early_options :: "start_env \<Rightarrow> string \<Rightarrow> start \<Rightarrow> start res" where
  "parse_early_options E buffer s =
     andThen (parse E ''early options'' (early_callback E) 0 (s\<lparr>params := (params s)\<lparr>cmdline := buffer\<rparr>\<rparr>))
       (\<lambda>(_, s'). Inr (s'\<lparr>params := (params s')\<lparr>cmdline := cmdline (params s)\<rparr>\<rparr>))"

definition parse_early_param :: "start_env \<Rightarrow> start \<Rightarrow> start res" where
  "parse_early_param E s =
     (if early_done s then Inr s
      else
        andThen (parse_early_options E (take (COMMAND_LINE_SIZE E - 1) (boot_command_line s) @ [NUL]) s)
          (\<lambda>s. Inr (s\<lparr>early_done := True\<rparr>)))"

section \<open>The sequence\<close>

text \<open>Up to the first parse of the command line.\<close>

definition start_early :: "start_env \<Rightarrow> start \<Rightarrow> start res" where
  "start_early E s =
     (let s = callfs E [''set_task_stack_end_magic'', ''smp_setup_processor_id'',
                ''debug_objects_early_init'', ''cgroup_init_early''] s;
          s = local_irq_disable s;
          s = s\<lparr>early_boot_irqs_disabled := True\<rparr>;
          s = callfs E [''boot_cpu_init'', ''page_address_init''] s;
          s = pr ''%s'' s;
          s = callf E ''setup_arch'' s;
          command_line = arch_command_line E s;
          s = callf E ''mm_init_cpumask'' s
      in andThen (setup_command_line command_line (note_call ''setup_command_line'' s)) (\<lambda>s.
         let s = callfs E [''setup_nr_cpu_ids'', ''setup_per_cpu_areas'', ''smp_prepare_boot_cpu'',
                   ''boot_cpu_hotplug_init'', ''build_all_zonelists'', ''page_alloc_init''] s;
             s = pr ''Kernel command line: %s'' s
         in Inr (callf E ''jump_label_init'' s)))"

text \<open>The two parses of the command line, and the arguments after a double dash.\<close>

definition start_parse :: "start_env \<Rightarrow> start \<Rightarrow> start res" where
  "start_parse E s =
     andThen (parse_early_param E s) (\<lambda>s.
     andThen (parse E ''Booting kernel'' (unknown_bootoption (boot_params E)) 0 s) (\<lambda>(after_dashes, s).
     case after_dashes of
       Dashes p \<Rightarrow>
         andThen (parse E ''Setting init args'' (set_init_arg (boot_params E)) p s) (\<lambda>(_, s). Inr s)
     | _ \<Rightarrow> Inr s))"

definition mm_init :: "start_env \<Rightarrow> start \<Rightarrow> start" where
  "mm_init E s = callfs E [''page_ext_init_flatmem'', ''mem_init'', ''kmem_cache_init'', ''pgtable_init'',
     ''debug_objects_mem_init'', ''vmalloc_init'', ''ioremap_huge_init'', ''init_espfix_bsp'',
     ''pti_init'', ''pgd_cache_init''] s"

text \<open>\<open>WARN(!irqs_disabled(), ...)\<close> is the test.\<close>

definition start_sched :: "start_env \<Rightarrow> start \<Rightarrow> start" where
  "start_sched E s =
     (let s = callfs E [''setup_log_buf'', ''vfs_caches_init_early'', ''sort_main_extable'', ''trap_init''] s;
          s = mm_init E s;
          s = callfs E [''ftrace_init'', ''early_trace_init'', ''sched_init'', ''preempt_disable''] s;
          s = (if irqs_on s
               then local_irq_disable (pr ''Interrupts were enabled *very* early, fixing it'' s) else s)
      in callfs E [''radix_tree_init'', ''housekeeping_init'', ''workqueue_init_early'', ''rcu_init'',
           ''trace_init''] s)"

text \<open>Without tracepoints \<open>initcall_debug_enable\<close> is empty.\<close>

definition initcall_debug_enable :: "start \<Rightarrow> start" where
  "initcall_debug_enable s = s"

definition start_irqs :: "start_env \<Rightarrow> start \<Rightarrow> start" where
  "start_irqs E s =
     (let s = (if initcall_debugging s then initcall_debug_enable s else s);
          s = callfs E [''context_tracking_init'', ''early_irq_init'', ''init_IRQ'', ''tick_init'',
                ''rcu_init_nohz'', ''init_timers'', ''hrtimers_init'', ''softirq_init'',
                ''timekeeping_init'', ''rand_initialize'', ''add_latent_entropy'',
                ''add_device_randomness'', ''boot_init_stack_canary'', ''time_init'',
                ''printk_safe_init'', ''perf_event_init'', ''profile_init'', ''call_function_init''] s;
          s = (if irqs_on s then pr ''Interrupts were enabled early'' s else s);
          s = s\<lparr>early_boot_irqs_disabled := False\<rparr>;
          s = local_irq_enable s
      in callf E ''kmem_cache_init_late'' s)"

definition start_console :: "start_env \<Rightarrow> start \<Rightarrow> start res" where
  "start_console E s =
     (let s = callf E ''console_init'' s in
      if panic_later (params s) \<noteq> None then Inl BugOn
      else Inr (callfs E [''lockdep_init'', ''locking_selftest'', ''mem_encrypt_init''] s))"

definition check_initrd :: "start_env \<Rightarrow> start \<Rightarrow> start" where
  "check_initrd E s =
     (if initrd_start s \<noteq> 0 \<and> \<not> initrd_below_start_ok s \<and> pfn_of E (initrd_start s) < min_low_pfn s
      then (pr ''initrd overwritten (0x%08lx < 0x%08lx) - disabling it.'' s)\<lparr>initrd_start := 0\<rparr>
      else s)"

definition start_late :: "start_env \<Rightarrow> start \<Rightarrow> start" where
  "start_late E s =
     (let s = callfs E [''kmemleak_init'', ''setup_per_cpu_pageset'', ''numa_policy_init'',
                ''acpi_early_init''] s;
          s = (if late_time_init s then callf E ''late_time_init'' s else s);
          s = callfs E [''sched_clock_init'', ''calibrate_delay'', ''pid_idr_init'', ''anon_vma_init''] s;
          s = (if efi_runtime E s then callf E ''efi_enter_virtual_mode'' s else s)
      in callfs E [''thread_stack_cache_init'', ''cred_init'', ''fork_init'', ''proc_caches_init'',
           ''uts_ns_init'', ''buffer_init'', ''key_init'', ''security_init'', ''dbg_late_init'',
           ''vfs_caches_init'', ''pagecache_init'', ''signals_init'', ''seq_file_init'',
           ''proc_root_init'', ''nsfs_init'', ''cpuset_init'', ''cgroup_init'',
           ''taskstats_init_early'', ''delayacct_init'', ''poking_init'', ''check_bugs'',
           ''acpi_subsystem_init'', ''arch_post_acpi_subsys_init'', ''sfi_init_late''] s)"

text \<open>The last call is \<open>rest_init\<close>, which does not return.\<close>

definition start_kernel :: "start_env \<Rightarrow> start \<Rightarrow> start res" where
  "start_kernel E s =
     andThen (start_early E s) (\<lambda>s.
     andThen (start_parse E s) (\<lambda>s.
     andThen (start_console E (start_irqs E (start_sched E s))) (\<lambda>s.
     Inr (callf E ''arch_call_rest_init'' (start_late E (check_initrd E s))))))"

end
