(* ===== verification/Startup_Props.thy ===== *)
theory Startup_Props
  imports Startup
begin

text \<open>
  What the start of the kernel guarantees whatever the functions it calls do: the order of the
  calls is the one its comments ask for, the copies of the command line stay in their buffers,
  and too many boot arguments end in a panic, which comes once the console is up.
\<close>

section \<open>The calls made\<close>

lemma trace_simps [simp]:
  "trace (callf E f s) = trace s @ [f]" "trace (callfs E fs s) = trace s @ fs"
  "trace (note_call f s) = trace s @ [f]" "trace (pr m s) = trace s"
  "trace (local_irq_disable s) = trace s @ [''local_irq_disable'']"
  "trace (local_irq_enable s) = trace s @ [''local_irq_enable'']"
  "trace (check_initrd E s) = trace s"
proof -
  show "trace (callfs E fs s) = trace s @ fs"
    by (induction fs arbitrary: s) (simp_all add: callfs_def callf_def)
qed (simp_all add: callf_def note_call_def pr_def local_irq_disable_def local_irq_enable_def
    check_initrd_def)

lemma boot_alloc_trace: "boot_alloc s = Inr s' \<Longrightarrow> trace s' = trace s"
  by (auto simp: boot_alloc_def split: list.splits if_splits)

lemma setup_command_line_trace: "setup_command_line c s = Inr s' \<Longrightarrow> trace s' = trace s"
  by (auto simp: setup_command_line_def andThen_eq_Inr Let_def dest!: boot_alloc_trace)

lemma parse_trace: "parse E d u p s = Inr (r, s') \<Longrightarrow> trace s' = trace s @ [''parse_args: '' @ d]"
  by (auto simp: parse_def andThen_eq_Inr)

definition early_calls :: "string list" where
  "early_calls = [''set_task_stack_end_magic'', ''smp_setup_processor_id'', ''debug_objects_early_init'',
     ''cgroup_init_early'', ''local_irq_disable'', ''boot_cpu_init'', ''page_address_init'', ''setup_arch'',
     ''mm_init_cpumask'', ''setup_command_line'', ''setup_nr_cpu_ids'', ''setup_per_cpu_areas'',
     ''smp_prepare_boot_cpu'', ''boot_cpu_hotplug_init'', ''build_all_zonelists'', ''page_alloc_init'',
     ''jump_label_init'']"

lemma start_early_trace: "start_early E s = Inr s' \<Longrightarrow> trace s' = trace s @ early_calls"
  by (auto simp: start_early_def andThen_eq_Inr Let_def early_calls_def dest!: setup_command_line_trace)

text \<open>The early parse is skipped when the architecture has made it, the last one without a double dash.\<close>

lemma start_parse_trace:
  assumes "start_parse E s = Inr s'"
  shows "\<exists>e d. trace s' = trace s @ (if e then [''parse_args: early options''] else [])
    @ ''parse_args: Booting kernel'' # (if d then [''parse_args: Setting init args''] else [])"
proof -
  have early: "\<exists>e. trace s1 = trace s @ (if e then [''parse_args: early options''] else [])"
    if e: "parse_early_param E s = Inr s1" for s1
  proof (cases "early_done s")
    case True
    then have "s1 = s" using e by (simp add: parse_early_param_def)
    then show ?thesis by (intro exI[of _ False]) simp
  next
    case False
    obtain r s2 where p: "parse E ''early options'' (early_callback E) 0 (s\<lparr>params := (params s)\<lparr>cmdline :=
        take (COMMAND_LINE_SIZE E - 1) (boot_command_line s) @ [NUL]\<rparr>\<rparr>) = Inr (r, s2)" "trace s1 = trace s2"
      using e False by (auto simp: parse_early_param_def parse_early_options_def andThen_eq_Inr)
    show ?thesis using parse_trace[OF p(1)] p(2) by (intro exI[of _ True]) simp
  qed
  obtain s1 r s2 where s: "parse_early_param E s = Inr s1"
    "parse E ''Booting kernel'' (unknown_bootoption (boot_params E)) 0 s1 = Inr (r, s2)"
    "(case r of Dashes p \<Rightarrow> andThen (parse E ''Setting init args'' (set_init_arg (boot_params E)) p s2)
        (\<lambda>(_, s). Inr s) | _ \<Rightarrow> Inr s2) = Inr s'"
    using assms by (auto simp: start_parse_def andThen_eq_Inr)
  have "\<exists>d. trace s' = trace s2 @ (if d then [''parse_args: Setting init args''] else [])"
  proof (cases r)
    case (Dashes p)
    then obtain q where "parse E ''Setting init args'' (set_init_arg (boot_params E)) p s2 = Inr (q, s')"
      using s(3) by (auto simp: andThen_eq_Inr)
    from parse_trace[OF this] show ?thesis by (intro exI[of _ True]) simp
  qed (use s(3) in \<open>auto intro: exI[of _ False]\<close>)
  moreover obtain e where "trace s1 = trace s @ (if e then [''parse_args: early options''] else [])"
    using early[OF s(1)] by blast
  moreover have "trace s2 = trace s1 @ [''parse_args: Booting kernel'']"
    using parse_trace[OF s(2)] by simp
  ultimately show ?thesis by (metis append.assoc append_Cons append_Nil)
qed

definition sched_calls :: "bool \<Rightarrow> string list" where
  "sched_calls fix_irqs = [''setup_log_buf'', ''vfs_caches_init_early'', ''sort_main_extable'', ''trap_init'',
     ''page_ext_init_flatmem'', ''mem_init'', ''kmem_cache_init'', ''pgtable_init'',
     ''debug_objects_mem_init'', ''vmalloc_init'', ''ioremap_huge_init'', ''init_espfix_bsp'',
     ''pti_init'', ''pgd_cache_init'', ''ftrace_init'', ''early_trace_init'', ''sched_init'',
     ''preempt_disable''] @ (if fix_irqs then [''local_irq_disable''] else [])
     @ [''radix_tree_init'', ''housekeeping_init'', ''workqueue_init_early'', ''rcu_init'', ''trace_init'']"

lemma start_sched_trace: "\<exists>f. trace (start_sched E s) = trace s @ sched_calls f"
  by (auto simp: start_sched_def mm_init_def sched_calls_def Let_def intro: exI[of _ True] exI[of _ False])

definition irq_calls :: "string list" where
  "irq_calls = [''context_tracking_init'', ''early_irq_init'', ''init_IRQ'', ''tick_init'', ''rcu_init_nohz'',
     ''init_timers'', ''hrtimers_init'', ''softirq_init'', ''timekeeping_init'', ''rand_initialize'',
     ''add_latent_entropy'', ''add_device_randomness'', ''boot_init_stack_canary'', ''time_init'',
     ''printk_safe_init'', ''perf_event_init'', ''profile_init'', ''call_function_init'',
     ''local_irq_enable'', ''kmem_cache_init_late'']"

lemma start_irqs_trace: "trace (start_irqs E s) = trace s @ irq_calls"
  by (simp add: start_irqs_def Let_def irq_calls_def initcall_debug_enable_def)

lemma start_console_trace:
  "start_console E s = Inr s' \<Longrightarrow> trace s' = trace s @ [''console_init'', ''lockdep_init'', ''locking_selftest'', ''mem_encrypt_init'']"
  by (auto simp: start_console_def Let_def split: if_splits)

lemma start_late_trace: "\<exists>es. trace (start_late E s) = trace s @ es"
  by (auto simp: start_late_def Let_def)

section \<open>The documented order\<close>

text \<open>The first call of \<open>f\<close> is made, and before any of \<open>g\<close>.\<close>

fun precedes :: "string \<Rightarrow> string \<Rightarrow> string list \<Rightarrow> bool" where
  "precedes f g [] = False"
| "precedes f g (x # xs) = (x = f \<or> (x \<noteq> g \<and> precedes f g xs))"

lemma precedes_iff: "precedes f g xs \<longleftrightarrow> f \<in> set xs \<and> g \<notin> set (takeWhile (\<lambda>x. x \<noteq> f) xs)"
  by (induction xs) auto

lemma precedes_append: "precedes f g (xs @ ys) \<longleftrightarrow> precedes f g xs \<or> (g \<notin> set xs \<and> precedes f g ys)"
  by (induction xs) auto

lemma precedes_optional:
  "precedes f g ((if c then [x] else []) @ xs) = (if c \<and> x = f then True else if c \<and> x = g then False else precedes f g xs)"
  "precedes f g (y # (if c then [x] else []) @ xs) = (y = f \<or> y \<noteq> g \<and> precedes f g ((if c then [x] else []) @ xs))"
  by simp_all

text \<open>
  What the comments of \<open>start_kernel\<close> and \<open>mm_init\<close> ask for, in their order. Threads other than
  the first, the initcalls, which set up PCI and the devices, \<open>workqueue_init\<close> and the idle loop
  all start from \<open>arch_call_rest_init\<close>.
\<close>

definition documented_order :: "(string \<times> string) list" where
  "documented_order =
     \<comment> \<open>interrupts are still disabled: do the necessary set-ups, then enable them\<close>
     [(''local_irq_disable'', ''boot_cpu_init''), (''boot_cpu_init'', ''local_irq_enable''),
      (''page_address_init'', ''local_irq_enable''), (''setup_arch'', ''local_irq_enable''),
      \<comment> \<open>parameters may set static keys\<close>
      (''jump_label_init'', ''parse_args: early options''), (''jump_label_init'', ''parse_args: Booting kernel''),
      \<comment> \<open>these use large bootmem allocations and must precede \<open>kmem_cache_init\<close>\<close>
      (''setup_log_buf'', ''kmem_cache_init''), (''vfs_caches_init_early'', ''kmem_cache_init''),
      (''sort_main_extable'', ''kmem_cache_init''), (''trap_init'', ''kmem_cache_init''),
      \<comment> \<open>before the first thread is created; after espfix64 is set up\<close>
      (''init_espfix_bsp'', ''arch_call_rest_init''), (''init_espfix_bsp'', ''pti_init''),
      \<comment> \<open>the scheduler prior to starting any interrupts; no preemption until the first idle loop\<close>
      (''sched_init'', ''local_irq_enable''), (''preempt_disable'', ''arch_call_rest_init''),
      \<comment> \<open>housekeeping before workqueues; work items are queued early and run after \<open>workqueue_init\<close>\<close>
      (''housekeeping_init'', ''workqueue_init_early''), (''workqueue_init_early'', ''arch_call_rest_init''),
      \<comment> \<open>some links before \<open>init_ISA_irqs\<close>\<close>
      (''early_irq_init'', ''init_IRQ''),
      \<comment> \<open>the stack canary after each source of entropy; \<open>rand_initialize\<close> uses the clock\<close>
      (''setup_arch'', ''boot_init_stack_canary''), (''timekeeping_init'', ''boot_init_stack_canary''),
      (''timekeeping_init'', ''rand_initialize''), (''rand_initialize'', ''boot_init_stack_canary''),
      (''add_latent_entropy'', ''boot_init_stack_canary''),
      (''add_device_randomness'', ''boot_init_stack_canary''),
      \<comment> \<open>the console before the PCI set-ups; the self-test when interrupts are enabled\<close>
      (''console_init'', ''arch_call_rest_init''), (''local_irq_enable'', ''locking_selftest''),
      \<comment> \<open>before any device performs DMA\<close>
      (''mem_encrypt_init'', ''arch_call_rest_init'')]"

lemma documented_in_prefix:
  "list_all (\<lambda>(f, g). precedes f g
     (early_calls @ (if e then [''parse_args: early options''] else [])
      @ ''parse_args: Booting kernel'' # (if d then [''parse_args: Setting init args''] else [])
      @ sched_calls x @ irq_calls
      @ [''console_init'', ''lockdep_init'', ''locking_selftest'', ''mem_encrypt_init''])) documented_order"
  by (simp add: documented_order_def early_calls_def sched_calls_def irq_calls_def precedes_optional
      del: if_split)

lemma start_kernel_trace:
  assumes "start_kernel E s = Inr s'"
  shows "\<exists>e d x es. trace s' = trace s @
     (early_calls @ (if e then [''parse_args: early options''] else [])
      @ ''parse_args: Booting kernel'' # (if d then [''parse_args: Setting init args''] else [])
      @ sched_calls x @ irq_calls
      @ [''console_init'', ''lockdep_init'', ''locking_selftest'', ''mem_encrypt_init'']) @ es"
proof -
  obtain s1 s2 s3 where s: "start_early E s = Inr s1" "start_parse E s1 = Inr s2"
    "start_console E (start_irqs E (start_sched E s2)) = Inr s3"
    "s' = callf E ''arch_call_rest_init'' (start_late E (check_initrd E s3))"
    using assms by (auto simp: start_kernel_def andThen_eq_Inr)
  obtain e d where 2: "trace s2 = trace s1 @ (if e then [''parse_args: early options''] else [])
      @ ''parse_args: Booting kernel'' # (if d then [''parse_args: Setting init args''] else [])"
    using start_parse_trace[OF s(2)] by blast
  obtain x where 3: "trace (start_sched E s2) = trace s2 @ sched_calls x"
    using start_sched_trace by blast
  obtain es where 4: "trace (start_late E (check_initrd E s3)) = trace s3 @ es"
    using start_late_trace[of E "check_initrd E s3"] by auto
  show ?thesis
    unfolding s(4) trace_simps 4 start_console_trace[OF s(3)] start_irqs_trace 3 2 start_early_trace[OF s(1)]
    by (intro exI[of _ e] exI[of _ d] exI[of _ x] exI[of _ "es @ [''arch_call_rest_init'']"])
      (simp only: append.assoc append_Cons append_Nil)
qed

section \<open>Properties\<close>

text \<open>
  A kernel whose functions do nothing, and a parser that hands over the first word as a parameter
  without a value; the table of parameters has one entry, which matches nothing.
\<close>

definition idle_env :: "bool \<Rightarrow> start_env" where
  "idle_env word =
     \<lparr>boot_params = \<lparr>limit = 0, table = [\<lparr>str = ''x'', early = False, setup_func = None\<rparr>],
        parameq = \<lambda>_ _. False, parameqn = \<lambda>_ _ _. False, get_option = \<lambda>_. (0, 0)\<rparr>,
      fx = \<lambda>_ s. s,
      parse_args = \<lambda>_ f p b. if word then andThen (f p None b) (\<lambda>b. Inr (Nothing, b)) else Inr (Nothing, b),
      arch_command_line = boot_command_line, pfn_of = \<lambda>p. p, efi_runtime = \<lambda>_. False,
      COMMAND_LINE_SIZE = 2048\<rparr>"

definition demo_start :: start where
  "demo_start = \<lparr>params = boot_start 0 [] 7, boot_command_line = ''a'', saved_command_line = None,
     initcall_room = None, alloc = [True, True, True], early_done = False, irqs_on = True,
     early_boot_irqs_disabled = False, initcall_debugging = False, late_time_init = False,
     initrd_start = 0, initrd_below_start_ok = False, min_low_pfn = 0, printed = [], trace = []\<rparr>"

lemma params_simps [simp]:
  "params (pr m s) = params s" "params (local_irq_disable s) = params s"
  "params (local_irq_enable s) = params s" "params (note_call f s) = params s"
  by (simp_all add: pr_def local_irq_disable_def local_irq_enable_def note_call_def)

lemma idle_early: "\<exists>s1. start_early (idle_env w) demo_start = Inr s1 \<and> \<not> early_done s1
    \<and> params s1 = (boot_start 0 [] 7)\<lparr>cmdline := ''a'' @ [NUL]\<rparr> \<and> boot_command_line s1 = ''a''"
  by (simp add: start_early_def setup_command_line_def boot_alloc_def strcpy_new_def callf_def
      callfs_def note_call_def pr_def local_irq_disable_def idle_env_def demo_start_def Let_def)

lemma idle_calls [simp]:
  "params (callf (idle_env w) f s) = params s" "params (callfs (idle_env w) fs s) = params s"
proof -
  show "params (callfs (idle_env w) fs s) = params s"
    by (induction fs arbitrary: s) (simp_all add: callfs_def callf_def idle_env_def)
qed (simp add: callf_def idle_env_def)

lemma idle_parse:
  assumes "start_early (idle_env False) demo_start = Inr s1"
  shows "\<exists>s2. start_parse (idle_env False) s1 = Inr s2 \<and> panic_later (params s2) = None"
proof -
  have "\<not> early_done s1" "panic_later (params s1) = None"
    using idle_early[of False] assms by (auto simp: boot_start_def)
  then show ?thesis
    by (simp add: start_parse_def parse_early_param_def parse_early_options_def parse_def
        note_call_def idle_env_def)
qed

lemma idle_starts: "\<exists>s'. start_kernel (idle_env False) demo_start = Inr s'"
proof -
  obtain s1 where s1: "start_early (idle_env False) demo_start = Inr s1"
    using idle_early by blast
  obtain s2 where s2: "start_parse (idle_env False) s1 = Inr s2" "panic_later (params s2) = None"
    using idle_parse[OF s1] by blast
  show ?thesis
    using s2(2) by (simp add: start_kernel_def s1 s2(1) start_console_def start_irqs_def start_sched_def
        mm_init_def initcall_debug_enable_def Let_def)
qed

text \<open>
  C23: the kernel starts in the order its comments ask for. Whatever the functions called do, and
  whatever the command line holds, when \<open>start_kernel\<close> reaches its last call, which is
  \<open>arch_call_rest_init\<close>, each of the documented constraints holds of the calls it made.
\<close>

theorem starts_in_documented_order:
  assumes "start_kernel E s = Inr s'" "trace s = []"
  shows "last (trace s') = ''arch_call_rest_init''
    \<and> list_all (\<lambda>(f, g). precedes f g (trace s')) documented_order"
proof
  show "last (trace s') = ''arch_call_rest_init''"
    using assms(1) by (auto simp: start_kernel_def andThen_eq_Inr)
  obtain e d x es where t: "trace s' = 
     (early_calls @ (if e then [''parse_args: early options''] else [])
      @ ''parse_args: Booting kernel'' # (if d then [''parse_args: Setting init args''] else [])
      @ sched_calls x @ irq_calls
      @ [''console_init'', ''lockdep_init'', ''locking_selftest'', ''mem_encrypt_init'']) @ es"
    using start_kernel_trace[OF assms(1)] assms(2) by auto
  show "list_all (\<lambda>(f, g). precedes f g (trace s')) documented_order"
    unfolding t precedes_append[of _ _ _ es]
    by (rule list.pred_mono_strong[OF documented_in_prefix[of e d x]]) auto
qed

theorem starts_in_documented_order_witness:
  "\<exists>s'. start_kernel (idle_env False) demo_start = Inr s'
    \<and> precedes ''mem_encrypt_init'' ''arch_call_rest_init'' (trace s')"
proof -
  obtain s' where s': "start_kernel (idle_env False) demo_start = Inr s'"
    using idle_starts by blast
  have "list_all (\<lambda>(f, g). precedes f g (trace s')) documented_order"
    using starts_in_documented_order[OF s'] by (simp add: demo_start_def)
  then show ?thesis using s' by (simp add: documented_order_def)
qed

text \<open>The parameters are the file's own; the kernel functions leave them alone.\<close>

definition keeps_params :: "start_env \<Rightarrow> bool" where
  "keeps_params E \<longleftrightarrow> (\<forall>f s. params (fx E f s) = params s)"

lemma params_kept:
  assumes "keeps_params E"
  shows "params (callf E f s) = params s" "params (callfs E fs s) = params s"
proof -
  show c: "params (callf E f s) = params s" for f s
    using assms by (simp add: callf_def keeps_params_def)
  show "params (callfs E fs s) = params s"
    unfolding callfs_def by (induction fs arbitrary: s) (simp_all add: c)
qed

lemma full_at_once:
  assumes "limit E = 0" "\<not> same p"
  shows "free_slot E same False 0 [Some p, None] = Inr (True, 1)"
  using assms by (subst free_slot.simps) (simp add: free_slot.simps[of _ _ _ "Suc 0"])

lemma idle_parser:
  "parse_args (idle_env True) d f p b = andThen (f p None b) (\<lambda>b. Inr (Nothing, b))"
  "COMMAND_LINE_SIZE (idle_env True) = 2048"
  by (simp_all add: idle_env_def)

lemma one_word:
  assumes "\<not> early_done s1" "params s1 = (boot_start 0 [] 7)\<lparr>cmdline := ''a'' @ [NUL]\<rparr>"
    "boot_command_line s1 = ''a''"
  shows "\<exists>s2. start_parse (idle_env True) s1 = Inr s2 \<and> panic_later (params s2) = Some ''init''"
proof -
  let ?b = "(boot_start 0 [] 7)\<lparr>cmdline := ''a'' @ [NUL]\<rparr>"
  have e: "do_early_param (boot_params (idle_env True)) 0 None (?b\<lparr>cmdline := m\<rparr>) = Inr (0, ?b\<lparr>cmdline := m\<rparr>)" for m
    by (simp add: do_early_param_def idle_env_def)
  have u: "\<exists>b. unknown_bootoption (boot_params (idle_env True)) 0 None ?b = Inr b \<and> panic_later b = Some ''init''"
    by (simp add: unknown_bootoption_def repair_env_string_def obsolete_checksetup_def idle_env_def
        strchr_def str_at_def boot_start_def full_at_once NUL_def)
  let ?s = "(note_call ''parse_args: early options'' s1)\<lparr>early_done := True\<rparr>"
  have "parse_early_options (idle_env True) (''a'' @ [NUL]) s1 = Inr (note_call ''parse_args: early options'' s1)"
    unfolding parse_early_options_def parse_def early_callback_def
    using assms(2) by (simp add: e[simplified] idle_parser note_call_def)
  then have early: "parse_early_param (idle_env True) s1 = Inr ?s"
    using assms(1,3) by (simp add: parse_early_param_def idle_parser)
  obtain b where b: "unknown_bootoption (boot_params (idle_env True)) 0 None ?b = Inr b"
    "panic_later b = Some ''init''"
    using u by blast
  have "parse (idle_env True) ''Booting kernel'' (unknown_bootoption (boot_params (idle_env True))) 0 ?s
      = Inr (Nothing, note_call (''parse_args: '' @ ''Booting kernel'') (?s\<lparr>params := b\<rparr>))"
    unfolding parse_def using assms(2) b(1) by (simp add: idle_parser note_call_def)
  then show ?thesis
    unfolding start_parse_def early using b(2) by (simp add: note_call_def)
qed

text \<open>
  C27: too many boot arguments end in a panic, and nothing else after the parse does. When the
  command line has been copied and parsed and the kernel functions leave the parameters alone,
  \<open>start_kernel\<close> panics exactly when the parse has left a \<open>panic_later\<close>.
\<close>

theorem panics_iff_panic_later:
  assumes "keeps_params E" "start_early E s = Inr s1" "start_parse E s1 = Inr s2"
  shows "(case start_kernel E s of
      Inl e \<Rightarrow> e = BugOn \<and> panic_later (params s2) \<noteq> None
    | Inr s' \<Rightarrow> panic_later (params s2) = None \<and> ''console_init'' \<in> set (trace s'))"
proof -
  let ?s = "start_irqs E (start_sched E s2)"
  have p: "params (callf E ''console_init'' ?s) = params s2"
    by (simp add: start_irqs_def start_sched_def mm_init_def initcall_debug_enable_def
        params_kept[OF assms(1)] Let_def)
  have k: "start_kernel E s = andThen (start_console E ?s)
      (\<lambda>s. Inr (callf E ''arch_call_rest_init'' (start_late E (check_initrd E s))))"
    using assms(2,3) by (simp add: start_kernel_def)
  show ?thesis
  proof (cases "panic_later (params s2)")
    case None
    then obtain s3 where s3: "start_console E ?s = Inr s3"
      by (simp add: start_console_def p Let_def)
    obtain es where "trace (start_late E (check_initrd E s3)) = trace s3 @ es"
      using start_late_trace[of E "check_initrd E s3"] by auto
    then show ?thesis
      using None start_console_trace[OF s3] by (simp add: k s3)
  qed (simp add: k start_console_def p Let_def)
qed

text \<open>One word is too many when the limit is 0.\<close>

theorem panics_iff_panic_later_witness:
  "start_kernel (idle_env True) demo_start = Inl BugOn"
proof -
  obtain s1 where s1: "start_early (idle_env True) demo_start = Inr s1" "\<not> early_done s1"
    "params s1 = (boot_start 0 [] 7)\<lparr>cmdline := ''a'' @ [NUL]\<rparr>" "boot_command_line s1 = ''a''"
    using idle_early by blast
  obtain s2 where s2: "start_parse (idle_env True) s1 = Inr s2" "panic_later (params s2) = Some ''init''"
    using one_word[OF s1(2-4)] by blast
  have "keeps_params (idle_env True)" by (simp add: keeps_params_def idle_env_def)
  from panics_iff_panic_later[OF this s1(1) s2(1)] show ?thesis
    using s2(2) by (auto split: sum.splits)
qed

text \<open>
  The copies of the command line. They are made when three allocations succeed and the line
  the architecture returns is no longer than the one the boot loader passed; then the untouched
  line is kept and the buffer to be parsed holds the other, followed by null bytes. A longer one
  is written past its buffer, a failed allocation is a panic.
\<close>

theorem command_line_copies:
  assumes "length (alloc s) \<ge> 3"
  shows "(case setup_command_line c s of
      Inr s' \<Rightarrow> list_all id (take 3 (alloc s)) \<and> length c \<le> length (boot_command_line s)
        \<and> saved_command_line s' = Some (boot_command_line s)
        \<and> initcall_room s' = Some (length (boot_command_line s) + 1)
        \<and> (\<exists>n > 0. cmdline (params s') = c @ replicate n NUL)
    | Inl e \<Rightarrow> e = (if list_all id (take 3 (alloc s)) then OutOfBounds else BugOn)
        \<and> (e = BugOn \<or> length (boot_command_line s) < length c))"
proof -
  obtain a b d r where s: "alloc s = a # b # d # r"
    using assms by (auto simp: numeral_3_eq_3 Suc_le_length_iff)
  show ?thesis
    by (cases a; cases b; cases d)
      (auto simp: setup_command_line_def boot_alloc_def strcpy_new_def s numeral_3_eq_3 Let_def)
qed

theorem command_line_copies_witness:
  "(\<exists>n > 0. cmdline (params (projr (setup_command_line ''a'' demo_start))) = ''a'' @ replicate n NUL)
   \<and> setup_command_line ''ab'' demo_start = Inl OutOfBounds"
proof -
  have a: "3 \<le> length (alloc demo_start)" "list_all id (take 3 (alloc demo_start))"
    "boot_command_line demo_start = ''a''"
    by (simp_all add: demo_start_def numeral_3_eq_3)
  show ?thesis
    using command_line_copies[OF a(1), of "''a''"] command_line_copies[OF a(1), of "''ab''"] a(2,3)
    by (auto split: sum.splits if_splits)
qed

end
