(* ===== verification/Handover.thy ===== *)
theory Handover
  imports Initcalls Transitions
begin

text \<open>
  The two threads at the end of the start in \<^verbatim>\<open>project 2/main.c\<close>: the boot thread runs \<open>rest_init\<close>,
  which creates the init thread and \<open>kthreadd\<close> and then idles; the init thread runs
  \<open>kernel_init\<close>, which waits for \<open>kthreadd_done\<close> first. A step is one statement of either
  thread, in any interleaving.

  A kernel call that has no part in the hand-over is \<open>Call\<close>. A call of the init thread may create
  a kernel thread, which wakes \<open>kthreadd_task\<close>; that pointer must be set then (\<open>Kcalls\<close>). The
  completion \<open>kthreadd_done\<close> is \<^verbatim>\<open>__initdata\<close>, so \<open>complete\<close> and \<open>wait_for_completion\<close> need the
  init memory. \<open>kernel_thread\<close> succeeds and gives the next process number, the first being 1.
  What the init thread does between the wait and the first program is in \<open>Initcalls\<close>; here it
  is the list of the calls.
\<close>

section \<open>The statements of the two threads\<close>

datatype act =
    Call string
  | Kcalls string
  | Spawn_init | Pin_init | Spawn_kthreadd | Publish_kthreadd
  | Set_state sys_state
  | Complete | Wait
  | Free_initmem

definition rest_init_code :: "act list" where
  "rest_init_code =
     [Call ''rcu_scheduler_starting'', Spawn_init,
      Call ''rcu_read_lock'', Pin_init, Call ''rcu_read_unlock'',
      Call ''numa_default_policy'', Spawn_kthreadd,
      Call ''rcu_read_lock'', Publish_kthreadd, Call ''rcu_read_unlock'',
      Set_state SYSTEM_SCHEDULING, Complete,
      Call ''schedule_preempt_disabled'', Call ''cpu_startup_entry'']"

definition kernel_init_code :: "act list" where
  "kernel_init_code =
     [Wait, Kcalls ''set_mems_allowed'', Kcalls ''smp_prepare_cpus'', Kcalls ''workqueue_init'',
      Kcalls ''init_mm_internals'', Kcalls ''do_pre_smp_initcalls'', Kcalls ''lockup_detector_init'',
      Kcalls ''smp_init'', Kcalls ''sched_init_smp'', Kcalls ''page_alloc_init_late'',
      Kcalls ''page_ext_init'', Kcalls ''do_basic_setup'', Kcalls ''ksys_open'', Kcalls ''ksys_dup'',
      Kcalls ''ksys_dup'', Kcalls ''early_user_space'',
      Kcalls ''async_synchronize_full'', Kcalls ''ftrace_free_init_mem'', Free_initmem,
      Kcalls ''mark_readonly'', Kcalls ''pti_finalize'', Set_state SYSTEM_RUNNING,
      Kcalls ''numa_default_policy'', Kcalls ''rcu_end_inkernel_boot'', Kcalls ''start_init'']"

record world =
  boot_left :: "act list"
  init_left :: "act list option"     \<comment> \<open>\<open>None\<close> before the thread exists\<close>
  next_pid :: nat
  init_pid :: "nat option"
  kthreadd_pid :: "nat option"
  kthreadd_task :: "nat option"
  kthreadd_done :: nat               \<comment> \<open>the counter of the completion\<close>
  state_now :: sys_state
  init_memory :: bool

definition boot_world :: world where
  "boot_world = \<lparr>boot_left = rest_init_code, init_left = None, next_pid = 1, init_pid = None,
     kthreadd_pid = None, kthreadd_task = None, kthreadd_done = 0, state_now = SYSTEM_BOOTING,
     init_memory = True\<rparr>"

text \<open>\<open>find_task_by_pid_ns\<close>: a task is known by its number.\<close>

definition find_task :: "nat option \<Rightarrow> world \<Rightarrow> nat option" where
  "find_task pid w = (if pid \<noteq> None \<and> (pid = init_pid w \<or> pid = kthreadd_pid w) then pid else None)"

text \<open>The effect of a statement; \<open>None\<close> when the thread sleeps.\<close>

fun exec_act :: "act \<Rightarrow> world \<Rightarrow> world res option" where
  "exec_act (Call f) w = Some (Inr w)"
| "exec_act (Kcalls f) w = Some (if kthreadd_task w = None then Inl BadPointer else Inr w)"
| "exec_act Spawn_init w = Some (Inr (w\<lparr>init_left := Some kernel_init_code,
     init_pid := Some (next_pid w), next_pid := next_pid w + 1\<rparr>))"
| "exec_act Pin_init w = Some (if find_task (init_pid w) w = None then Inl BadPointer else Inr w)"
| "exec_act Spawn_kthreadd w = Some (Inr (w\<lparr>kthreadd_pid := Some (next_pid w), next_pid := next_pid w + 1\<rparr>))"
| "exec_act Publish_kthreadd w = Some (Inr (w\<lparr>kthreadd_task := find_task (kthreadd_pid w) w\<rparr>))"
| "exec_act (Set_state st) w = Some (Inr (w\<lparr>state_now := st\<rparr>))"
| "exec_act Complete w =
     Some (if init_memory w then Inr (w\<lparr>kthreadd_done := kthreadd_done w + 1\<rparr>) else Inl BadPointer)"
| "exec_act Wait w =
     (if \<not> init_memory w then Some (Inl BadPointer)
      else if kthreadd_done w = 0 then None
      else Some (Inr (w\<lparr>kthreadd_done := kthreadd_done w - 1\<rparr>)))"
| "exec_act Free_initmem w = Some (Inr (w\<lparr>init_memory := False\<rparr>))"

inductive hand_step :: "world \<Rightarrow> world \<Rightarrow> bool" where
  boot_moves: "boot_left w = a # r \<Longrightarrow> exec_act a w = Some (Inr w') \<Longrightarrow> hand_step w (w'\<lparr>boot_left := r\<rparr>)"
| init_moves: "init_left w = Some (a # r) \<Longrightarrow> exec_act a w = Some (Inr w') \<Longrightarrow>
     hand_step w (w'\<lparr>init_left := Some r\<rparr>)"

inductive_cases hand_stepE: "hand_step w w'"

definition hand_reach :: "world \<Rightarrow> bool" where
  "hand_reach w \<longleftrightarrow> hand_step\<^sup>*\<^sup>* boot_world w"

definition faulty :: "world \<Rightarrow> bool" where
  "faulty w \<longleftrightarrow>
     (case boot_left w of [] \<Rightarrow> False | a # _ \<Rightarrow> (\<exists>e. exec_act a w = Some (Inl e)))
     \<or> (case init_left w of Some (a # _) \<Rightarrow> (\<exists>e. exec_act a w = Some (Inl e)) | _ \<Rightarrow> False)"

definition handed_over :: "world \<Rightarrow> bool" where
  "handed_over w \<longleftrightarrow> boot_left w = [] \<and> init_left w = Some [] \<and> state_now w = SYSTEM_RUNNING
     \<and> \<not> init_memory w"

section \<open>The invariant\<close>

text \<open>
  What the statements a thread has behind it say about the shared state. \<open>d\<close> and \<open>e\<close> are those of
  the boot thread and of the init thread.
\<close>

definition agrees :: "act list \<Rightarrow> act list \<Rightarrow> world \<Rightarrow> bool" where
  "agrees d e w \<longleftrightarrow>
     rest_init_code = d @ boot_left w
   \<and> (case init_left w of None \<Rightarrow> e = [] \<and> Spawn_init \<notin> set d
      | Some l \<Rightarrow> kernel_init_code = e @ l \<and> Spawn_init \<in> set d)
   \<and> next_pid w = 1 + (if Spawn_init \<in> set d then 1 else 0) + (if Spawn_kthreadd \<in> set d then 1 else 0)
   \<and> init_pid w = (if Spawn_init \<in> set d then Some 1 else None)
   \<and> kthreadd_pid w = (if Spawn_kthreadd \<in> set d then Some 2 else None)
   \<and> kthreadd_task w = (if Publish_kthreadd \<in> set d then Some 2 else None)
   \<and> kthreadd_done w = (if Complete \<in> set d \<and> e = [] then 1 else 0)
   \<and> (e \<noteq> [] \<longrightarrow> Complete \<in> set d)
   \<and> state_now w = (if Set_state SYSTEM_RUNNING \<in> set e then SYSTEM_RUNNING
        else if Set_state SYSTEM_SCHEDULING \<in> set d then SYSTEM_SCHEDULING else SYSTEM_BOOTING)
   \<and> (init_memory w \<longleftrightarrow> Free_initmem \<notin> set e)"

text \<open>Where a statement stands in its thread: with what is behind it.\<close>

fun positions :: "'a list \<Rightarrow> ('a list \<times> 'a) list" where
  "positions [] = []"
| "positions (x # xs) = ([], x) # map (\<lambda>(d, a). (x # d, a)) (positions xs)"

lemma in_positions: "(d, a) \<in> set (positions (d @ a # r))"
  by (induction d) (auto intro: rev_image_eqI)

lemma at_position: "code = d @ a # r \<Longrightarrow> list_all (\<lambda>(d, a). P d a) (positions code) \<Longrightarrow> P d a"
  using in_positions[of d a r] by (auto simp: list_all_iff)

definition boot_order :: "act list \<Rightarrow> act \<Rightarrow> bool" where
  "boot_order d a \<longleftrightarrow>
     (case a of
        Call f \<Rightarrow> Complete \<in> set d \<longrightarrow> Publish_kthreadd \<in> set d
      | Spawn_init \<Rightarrow> Spawn_init \<notin> set d \<and> Spawn_kthreadd \<notin> set d \<and> Complete \<notin> set d
      | Pin_init \<Rightarrow> Spawn_init \<in> set d \<and> Complete \<notin> set d
      | Spawn_kthreadd \<Rightarrow> Spawn_init \<in> set d \<and> Spawn_kthreadd \<notin> set d \<and> Complete \<notin> set d
      | Publish_kthreadd \<Rightarrow> Spawn_kthreadd \<in> set d \<and> Complete \<notin> set d
      | Set_state st \<Rightarrow> st = SYSTEM_SCHEDULING \<and> Complete \<notin> set d
      | Complete \<Rightarrow> Publish_kthreadd \<in> set d \<and> Complete \<notin> set d
      | _ \<Rightarrow> False)"

definition init_order :: "act list \<Rightarrow> act \<Rightarrow> bool" where
  "init_order e a \<longleftrightarrow>
     (case a of
        Kcalls f \<Rightarrow> e \<noteq> []
      | Wait \<Rightarrow> e = []
      | Free_initmem \<Rightarrow> e \<noteq> []
      | Set_state st \<Rightarrow> st = SYSTEM_RUNNING \<and> e \<noteq> []
      | _ \<Rightarrow> False)"

lemma boot_positions: "rest_init_code = d @ a # r \<Longrightarrow> boot_order d a"
proof (rule at_position[where P = boot_order])
  show "list_all (\<lambda>(d, a). boot_order d a) (positions rest_init_code)"
    by (simp add: rest_init_code_def boot_order_def)
qed

lemma init_positions: "kernel_init_code = e @ a # r \<Longrightarrow> init_order e a"
proof (rule at_position[where P = init_order])
  show "list_all (\<lambda>(e, a). init_order e a) (positions kernel_init_code)"
    by (simp add: kernel_init_code_def init_order_def)
qed

lemma completed_published:
  assumes "rest_init_code = d @ r" "Complete \<in> set d"
  shows "Publish_kthreadd \<in> set d"
proof (cases r)
  case Nil
  then show ?thesis using assms by (auto simp: rest_init_code_def)
next
  case (Cons a q)
  then have "boot_order d a" using assms(1) boot_positions by simp
  then show ?thesis using assms(2) by (cases a) (simp_all add: boot_order_def)
qed

lemma spawn_init_inv:
  assumes "agrees d e w" "boot_left w = Spawn_init # r" "exec_act Spawn_init w = Some (Inr w')"
    and "boot_order d Spawn_init"
  shows "agrees (d @ [Spawn_init]) e (w'\<lparr>boot_left := r\<rparr>)"
proof -
  have o: "Spawn_init \<notin> set d" "Spawn_kthreadd \<notin> set d" "Complete \<notin> set d"
    using assms(4) by (simp_all add: boot_order_def)
  then have "init_left w = None" "e = []"
    using assms(1) by (simp_all add: agrees_def split: option.splits)
  moreover have "w' = w\<lparr>init_left := Some kernel_init_code, init_pid := Some (next_pid w),
      next_pid := next_pid w + 1\<rparr>"
    using assms(3) by simp
  ultimately show ?thesis using assms(1,2) o by (simp add: agrees_def split del: if_split)
qed

lemma complete_inv:
  assumes "agrees d e w" "boot_left w = Complete # r" "exec_act Complete w = Some (Inr w')"
    and "boot_order d Complete"
  shows "agrees (d @ [Complete]) e (w'\<lparr>boot_left := r\<rparr>)"
proof -
  have e: "e = []" "Complete \<notin> set d"
    using assms(1,4) by (auto simp add: agrees_def boot_order_def)
  moreover have "w' = w\<lparr>kthreadd_done := kthreadd_done w + 1\<rparr>"
    using assms(1,3) e by (simp add: agrees_def)
  ultimately show ?thesis
    using assms(1,2) by (simp add: agrees_def numeral_2_eq_2 cong: option.case_cong if_cong split del: if_split)
qed

lemma boot_step_inv:
  assumes "agrees d e w" "boot_left w = a # r" "exec_act a w = Some (Inr w')"
  shows "agrees (d @ [a]) e (w'\<lparr>boot_left := r\<rparr>)"
proof -
  have c: "rest_init_code = d @ a # r" using assms(1,2) by (simp add: agrees_def boot_order_def)
  have p: "boot_order d a" by (rule boot_positions[OF c])
  show ?thesis
  proof (cases a)
    case (Call f)
    then show ?thesis using assms p by (simp add: agrees_def boot_order_def cong: option.case_cong)
  next
    case Spawn_init
    then show ?thesis using spawn_init_inv[of d e w r w'] assms p by simp
  next
    case Pin_init
    then show ?thesis
      using assms p by (simp add: agrees_def boot_order_def split: if_splits cong: option.case_cong)
  next
    case Spawn_kthreadd
    then have "Spawn_init \<in> set d" "Spawn_kthreadd \<notin> set d"
      using p by (simp_all add: boot_order_def)
    moreover have "w' = w\<lparr>kthreadd_pid := Some (next_pid w), next_pid := next_pid w + 1\<rparr>"
      using Spawn_kthreadd assms(3) by simp
    ultimately show ?thesis using Spawn_kthreadd assms(1,2) by (simp add: agrees_def numeral_2_eq_2 cong: option.case_cong if_cong split del: if_split)
  next
    case Publish_kthreadd
    then have "Spawn_kthreadd \<in> set d" using p by (simp add: boot_order_def)
    then have "find_task (kthreadd_pid w) w = Some 2"
      using assms(1) by (simp add: agrees_def find_task_def)
    then have "w' = w\<lparr>kthreadd_task := Some 2\<rparr>" using Publish_kthreadd assms(3) by simp
    then show ?thesis using Publish_kthreadd assms(1,2) by (simp add: agrees_def numeral_2_eq_2 cong: option.case_cong if_cong split del: if_split)
  next
    case (Set_state st)
    then have "e = []" using assms(1) p by (simp add: agrees_def boot_order_def)
    moreover have st: "st = SYSTEM_SCHEDULING" using Set_state p by (simp add: boot_order_def)
    moreover have "w' = w\<lparr>state_now := SYSTEM_SCHEDULING\<rparr>" using Set_state st assms(3) by simp
    ultimately show ?thesis using Set_state assms(1,2) by (simp add: agrees_def numeral_2_eq_2 cong: option.case_cong if_cong split del: if_split)
  next
    case Complete
    then show ?thesis using complete_inv[of d e w r w'] assms p by simp
  qed (use p in \<open>simp_all add: boot_order_def\<close>)
qed

lemma init_step_inv:
  assumes "agrees d e w" "init_left w = Some (a # r)" "exec_act a w = Some (Inr w')"
  shows "agrees d (e @ [a]) (w'\<lparr>init_left := Some r\<rparr>)"
proof -
  have c: "kernel_init_code = e @ a # r" using assms(1,2) by (simp add: agrees_def init_order_def)
  have p: "init_order e a" by (rule init_positions[OF c])
  have l: "kernel_init_code = e @ a # r" "Spawn_init \<in> set d" using assms(1,2) by (simp_all add: agrees_def)
  show ?thesis
  proof (cases a)
    case (Kcalls f)
    then have "w' = w" "e \<noteq> []" using assms(3) p by (simp_all add: init_order_def split: if_splits)
    then show ?thesis using Kcalls assms(1) l by (simp add: agrees_def)
  next
    case Wait
    then have e: "e = []" using p by (simp add: init_order_def)
    then have "init_memory w" using assms(1) by (simp add: agrees_def)
    then have w: "kthreadd_done w \<noteq> 0" "w' = w\<lparr>kthreadd_done := kthreadd_done w - 1\<rparr>"
      using assms(3) Wait by (simp_all split: if_splits)
    then have "Complete \<in> set d" using assms(1) by (simp add: agrees_def split: if_splits)
    then show ?thesis using Wait assms(1) l e w(2) by (simp add: agrees_def)
  next
    case Free_initmem
    then have "w' = w\<lparr>init_memory := False\<rparr>" "e \<noteq> []" using assms(3) p by (simp_all add: init_order_def)
    then show ?thesis using Free_initmem assms(1) l by (simp add: agrees_def)
  next
    case (Set_state st)
    then have "w' = w\<lparr>state_now := SYSTEM_RUNNING\<rparr>" "st = SYSTEM_RUNNING" "e \<noteq> []"
      using assms(3) p by (simp_all add: init_order_def)
    then show ?thesis using Set_state assms(1) l by (simp add: agrees_def)
  qed (use p in \<open>simp_all add: init_order_def\<close>)
qed

lemma boot_agrees: "agrees [] [] boot_world"
  by (simp add: agrees_def boot_world_def)

lemma step_agrees: "hand_step w w' \<Longrightarrow> \<exists>d e. agrees d e w \<Longrightarrow> \<exists>d e. agrees d e w'"
  by (cases rule: hand_step.cases, assumption) (blast dest: boot_step_inv init_step_inv)+

lemma agrees_not_faulty:
  assumes "agrees d e w"
  shows "\<not> faulty w"
proof -
  have "exec_act a w \<noteq> Some (Inl f)" if "boot_left w = a # r" for a r f
  proof -
    have "rest_init_code = d @ a # r" using assms that by (simp add: agrees_def)
    then have "boot_order d a" by (rule boot_positions)
    then show ?thesis
      using assms by (cases a) (auto simp: agrees_def boot_order_def find_task_def)
  qed
  moreover have "exec_act a w \<noteq> Some (Inl f)" if i: "init_left w = Some (a # r)" for a r f
  proof -
    have c: "kernel_init_code = e @ a # r" using assms i by (simp add: agrees_def)
    then have "init_order e a" by (rule init_positions)
    moreover have "Complete \<in> set d \<longrightarrow> kthreadd_task w \<noteq> None"
      using assms completed_published[of d "boot_left w"] by (simp add: agrees_def)
    ultimately show ?thesis
      using assms by (cases a) (auto simp: agrees_def init_order_def)
  qed
  ultimately show ?thesis
    by (simp add: faulty_def split: list.split option.split)
qed

lemma agrees_stuck:
  assumes "agrees d e w" "\<not> (\<exists>w'. hand_step w w')"
  shows "handed_over w"
proof -
  note ok = agrees_not_faulty[OF assms(1)]
  have "boot_left w = []"
  proof (cases "boot_left w")
    case (Cons a r)
    then have "rest_init_code = d @ a # r" using assms(1) by (simp add: agrees_def)
    then have "boot_order d a" by (rule boot_positions)
    then obtain x where "exec_act a w = Some x" by (cases a) (auto simp: boot_order_def)
    moreover have "x \<noteq> Inl f" for f using ok Cons \<open>exec_act a w = Some x\<close> by (auto simp: faulty_def)
    ultimately obtain w' where "exec_act a w = Some (Inr w')" by (cases x) auto
    then show ?thesis using boot_moves[OF Cons] assms(2) by blast
  qed
  then have d: "d = rest_init_code" using assms(1) by (simp add: agrees_def)
  then obtain l where l: "init_left w = Some l" "kernel_init_code = e @ l"
    using assms(1) by (auto simp: agrees_def rest_init_code_def split: option.splits)
  have "l = []"
  proof (cases l)
    case (Cons a r)
    then have "init_order e a" using l(2) init_positions by simp
    moreover have "e = [] \<longrightarrow> kthreadd_done w = 1 \<and> init_memory w"
      using assms(1) d by (simp add: agrees_def rest_init_code_def)
    ultimately obtain x where x: "exec_act a w = Some x" by (cases a) (auto simp: init_order_def)
    moreover have "x \<noteq> Inl f" for f using ok l(1) Cons x by (auto simp: faulty_def split: list.splits)
    ultimately obtain w' where "exec_act a w = Some (Inr w')" by (cases x) auto
    then show ?thesis using init_moves[of w a r w'] l(1) Cons assms(2) by blast
  qed
  then show ?thesis
    using assms(1) l d \<open>boot_left w = []\<close>
    by (auto simp: handed_over_def agrees_def kernel_init_code_def)
qed

section \<open>Progress\<close>

text \<open>The statements still to be executed; the init thread's count even before it exists.\<close>

definition work_left :: "world \<Rightarrow> nat" where
  "work_left w = length (boot_left w) + (case init_left w of None \<Rightarrow> length kernel_init_code | Some l \<Rightarrow> length l)"

lemma step_work:
  assumes "agrees d e w" "hand_step w w'"
  shows "Suc (work_left w') = work_left w"
  using assms(2)
proof (cases rule: hand_step.cases)
  case (boot_moves a r v)
  have "boot_order d a"
    using assms(1) boot_moves(2) by (intro boot_positions[of d a r]) (simp add: agrees_def)
  then have "init_left v = init_left w \<or> (init_left w = None \<and> init_left v = Some kernel_init_code)"
    using boot_moves(3) assms(1)
    by (cases a) (auto simp: boot_order_def agrees_def split: if_splits option.splits)
  then show ?thesis using boot_moves by (auto simp: work_left_def)
next
  case (init_moves a r v)
  have "init_order e a"
    using assms(1) init_moves(2) by (intro init_positions[of e a r]) (simp add: agrees_def)
  then have "boot_left v = boot_left w"
    using init_moves(3) by (cases a) (auto simp: init_order_def split: if_splits)
  then show ?thesis using init_moves by (simp add: work_left_def)
qed

interpretation hand: progress hand_step "\<lambda>w. \<exists>d e. agrees d e w" work_left handed_over
  by unfold_locales (blast intro: step_agrees dest: step_work agrees_stuck)+

lemma reach_agrees: "hand_reach w \<Longrightarrow> \<exists>d e. agrees d e w"
  using hand.steps_keep[of boot_world w] boot_agrees by (auto simp: hand_reach_def)

section \<open>Properties\<close>

text \<open>The schedule that runs the boot thread whenever it can, and the init thread otherwise.\<close>

definition move_init :: "world \<Rightarrow> world" where
  "move_init w =
     (case init_left w of
        Some (a # r) \<Rightarrow> (case exec_act a w of Some (Inr v) \<Rightarrow> v\<lparr>init_left := Some r\<rparr> | _ \<Rightarrow> w)
      | _ \<Rightarrow> w)"

definition boot_first :: "world \<Rightarrow> world" where
  "boot_first w =
     (case boot_left w of
        a # r \<Rightarrow> (case exec_act a w of Some (Inr v) \<Rightarrow> v\<lparr>boot_left := r\<rparr> | _ \<Rightarrow> move_init w)
      | [] \<Rightarrow> move_init w)"

lemma move_init_moves: "hand_step w (move_init w) \<or> (move_init w = w
    \<and> \<not> (\<exists>a r v. init_left w = Some (a # r) \<and> exec_act a w = Some (Inr v)))"
  by (auto simp: move_init_def intro: init_moves split: option.split list.split sum.split)

lemma boot_first_moves: "moves_on hand_step w (boot_first w)"
proof -
  have stuck: "\<not> hand_step w v"
    if "\<not> (\<exists>a r v. init_left w = Some (a # r) \<and> exec_act a w = Some (Inr v))"
      "\<not> (\<exists>a r v. boot_left w = a # r \<and> exec_act a w = Some (Inr v))" for v
    using that by (auto elim!: hand_stepE)
  show ?thesis
  proof (cases "\<exists>a r v. boot_left w = a # r \<and> exec_act a w = Some (Inr v)")
    case True
    then show ?thesis by (auto simp: moves_on_def boot_first_def intro: boot_moves)
  next
    case False
    then have "boot_first w = move_init w"
      by (auto simp: boot_first_def split: list.split option.split sum.split)
    then show ?thesis using move_init_moves[of w] stuck False by (auto simp: moves_on_def)
  qed
qed

text \<open>
  C21: the hand-over always completes. From the start, under any schedule of the two threads,
  after as many moves as they have statements both have run to their end: the init thread has
  passed the wait, the init memory is freed and the system is running.
\<close>

theorem handover_completes:
  assumes "w 0 = boot_world" "\<And>n. moves_on hand_step (w n) (w (Suc n))"
  shows "handed_over (w (length rest_init_code + length kernel_init_code))"
proof -
  have "work_left (w 0) = length rest_init_code + length kernel_init_code"
    by (simp add: assms(1) work_left_def boot_world_def)
  moreover have "\<exists>d e. agrees d e (w 0)" using boot_agrees assms(1) by auto
  ultimately show ?thesis using hand.schedule_completes[of w, OF _ assms(2)] by simp
qed

theorem handover_completes_witness:
  "handed_over ((boot_first ^^ (length rest_init_code + length kernel_init_code)) boot_world)"
  by (rule handover_completes[of "\<lambda>n. (boot_first ^^ n) boot_world"]) (simp_all add: boot_first_moves)

text \<open>
  C22: no interleaving goes wrong. In every reachable state no statement that either thread may
  execute next uses a pointer to a task that is not there or the init memory after it is freed;
  the init thread has process number 1, and once it has passed the wait \<open>kthreadd_task\<close> is set.
\<close>

theorem handover_safe:
  assumes "hand_reach w"
  shows "\<not> faulty w \<and> init_pid w \<in> {None, Some 1}
    \<and> (init_left w \<in> {None, Some kernel_init_code} \<or> kthreadd_task w = Some 2)"
proof -
  obtain d e where a: "agrees d e w" using reach_agrees[OF assms] by blast
  then have "e \<noteq> [] \<longrightarrow> Publish_kthreadd \<in> set d"
    using completed_published[of d "boot_left w"] by (simp add: agrees_def)
  then show ?thesis
    using a agrees_not_faulty[OF a] by (cases e) (auto simp: agrees_def split: option.splits)
qed

theorem handover_safe_witness:
  "\<not> faulty (boot_first boot_world) \<and> init_pid (boot_first boot_world) \<in> {None, Some 1}"
proof -
  have "hand_reach (boot_first boot_world)"
    using boot_first_moves[of boot_world] by (auto simp: moves_on_def hand_reach_def)
  from handover_safe[OF this] show ?thesis by blast
qed

definition rank :: "sys_state \<Rightarrow> nat" where
  "rank st = (case st of SYSTEM_BOOTING \<Rightarrow> 0 | SYSTEM_SCHEDULING \<Rightarrow> 1 | SYSTEM_RUNNING \<Rightarrow> 2)"

text \<open>
  The state of the system only moves forward. \<open>rest_init\<close> sets SYSTEM_SCHEDULING and the init
  thread SYSTEM_RUNNING without a lock between them; no interleaving takes the state back.
\<close>

theorem system_state_forward:
  assumes "hand_reach w" "hand_step w w'"
  shows "rank (state_now w) \<le> rank (state_now w')"
proof -
  obtain d e where a: "agrees d e w" using reach_agrees[OF assms(1)] by blast
  show ?thesis
    using assms(2)
  proof (cases rule: hand_step.cases)
    case (boot_moves b r v)
    have "boot_order d b"
      using a boot_moves(2) by (intro boot_positions[of d b r]) (simp add: agrees_def)
    then show ?thesis
      using boot_moves a by (cases b) (auto simp: boot_order_def agrees_def rank_def split: if_splits)
  next
    case (init_moves b r v)
    have "init_order e b"
      using a init_moves(2) by (intro init_positions[of e b r]) (simp add: agrees_def)
    then show ?thesis
      using init_moves by (cases b) (auto simp: init_order_def rank_def split: if_splits sys_state.splits)
  qed
qed

theorem system_state_forward_witness:
  "rank (state_now boot_world) \<le> rank (state_now (boot_first boot_world))"
proof -
  have "hand_step boot_world (boot_first boot_world)"
  proof -
    have "boot_left boot_world = Call ''rcu_scheduler_starting'' # tl rest_init_code"
      by (simp add: boot_world_def rest_init_code_def)
    then show ?thesis using hand_step.boot_moves[of boot_world] by (simp add: boot_first_def)
  qed
  from system_state_forward[OF _ this] show ?thesis by (simp add: hand_reach_def)
qed

section \<open>The statements and the function\<close>

text \<open>
  What the statements of \<open>kernel_init_code\<close> do to the kernel's state of \<open>Initcalls\<close>; the assignments to
  \<open>gfp_allowed_mask\<close> and \<open>cad_pid\<close> stand with the call they are next to, and the warning about the
  console with the call that failed.
\<close>

definition init_act :: "'f kernel_env \<Rightarrow> act \<Rightarrow> 'f kern \<Rightarrow> 'f kern" where
  "init_act E a k =
     (case a of
        Wait \<Rightarrow> callk E ''wait_for_completion'' k
      | Free_initmem \<Rightarrow> free_initmem E k
      | Set_state st \<Rightarrow> k\<lparr>system_state := st\<rparr>
      | Kcalls f \<Rightarrow>
          if f = ''set_mems_allowed'' then
            (callk E f (k\<lparr>gfp_allowed_mask := GFP_BITS_MASK E\<rparr>))\<lparr>cad_pid := current_pid E\<rparr>
          else if f = ''do_pre_smp_initcalls'' then do_pre_smp_initcalls E k
          else if f = ''do_basic_setup'' then do_basic_setup E k
          else if f = ''ksys_open'' then
            (if ksys_open E ''/dev/console'' < 0
             then pr_err ''Warning: unable to open an initial console.'' [] 0 (callk E f k)
             else callk E f k)
          else if f = ''early_user_space'' then early_user_space E k
          else if f = ''mark_readonly'' then mark_readonly E k
          else callk E f k
      | _ \<Rightarrow> k)"

lemma calls_Cons [simp]: "calls E (f # fs) k = calls E fs (callk E f k)" "calls E [] k = k"
  by (simp_all add: calls_def)

lemma freeable_setup_acts: "freeable_setup E k = fold (init_act E) (take 15 kernel_init_code) k"
  by (simp add: kernel_init_code_def init_act_def freeable_setup_def Let_def)

lemma finish_boot_acts: "finish_boot E k = fold (init_act E) (take 8 (drop 16 kernel_init_code)) k"
  by (simp add: kernel_init_code_def init_act_def finish_boot_def Let_def)

text \<open>
  The list of statements whose interleavings are studied here is that of \<open>kernel_init\<close> in
  \<open>Initcalls\<close>, with the start of the first program last.
\<close>

lemma kernel_init_is_code:
  "kernel_init E k = start_init E (fold (init_act E) (butlast kernel_init_code) k)
   \<and> last kernel_init_code = Kcalls ''start_init''"
proof -
  have "butlast kernel_init_code = take 15 kernel_init_code @ Kcalls ''early_user_space'' # take 8 (drop 16 kernel_init_code)"
    by (simp add: kernel_init_code_def)
  moreover have "init_act E (Kcalls ''early_user_space'') k = early_user_space E k" for k
    by (simp add: init_act_def)
  ultimately show ?thesis
    unfolding kernel_init_def kernel_init_freeable_def freeable_setup_acts finish_boot_acts
    by (simp add: kernel_init_code_def)
qed

end
