(* ===== verification/Sandbox_Threads.thy ===== *)
theory Sandbox_Threads
  imports Sandbox_Runs Transitions
begin

text \<open>
  The system calls of \<^verbatim>\<open>proj2.c\<close> run by several threads at once. A thread executes one request at
  a time, statement by statement; its place in the code is a \<open>pc\<close>, and any thread may move next.
  A step is one statement that reads or writes the shared table or \<open>started\<close>, one operation on the
  lock, or one message. Two kinds of step are coarser than a single access: the test of a row
  (\<open>look\<close>), which reads the call number, then the slot, and for a count the counter, and the reset
  of a row in \<open>initalizeHash\<close> (\<open>reset_one\<close>), which stores the call number and the counter.
  \<open>mutex_lock\<close> sleeps while the lock is taken.
  Only the critical sections of the three system calls hold the lock: the set-up and \<open>findder\<close>
  run without it, as in the source.
\<close>

section \<open>One thread\<close>

datatype pc =
    P_start              \<comment> \<open>\<open>if (started == 0)\<close>\<close>
  | P_reset int          \<comment> \<open>row \<open>countm\<close> of \<open>initalizeHash\<close>\<close>
  | P_mark               \<comment> \<open>\<open>started = 1\<close>\<close>
  | P_cred               \<comment> \<open>who asks\<close>
  | P_lock
  | P_look               \<comment> \<open>the test of the row\<close>
  | P_bump               \<comment> \<open>\<open>call = call + 1\<close> for a pair already blocked\<close>
  | P_hash | P_call | P_count     \<comment> \<open>the three writes of a block\<close>
  | P_unset | P_clear    \<comment> \<open>the two writes of an unblock\<close>
  | P_unlock int "kmsg list"
  | P_say int "kmsg list"
  | P_find               \<comment> \<open>the test of \<open>findder\<close>\<close>
  | P_tally              \<comment> \<open>its read of the counter\<close>
  | P_tallied u64        \<comment> \<open>its write of the counter\<close>
  | P_done int

fun proc_of :: "sbx_req \<Rightarrow> u32" where
  "proc_of (Block uid proc nr) = proc"
| "proc_of (Unblock uid proc nr) = proc"
| "proc_of (Count uid proc nr) = proc"
| "proc_of (Find uid nr) = uid"

fun nr_of :: "sbx_req \<Rightarrow> u64" where
  "nr_of (Block uid proc nr) = nr"
| "nr_of (Unblock uid proc nr) = nr"
| "nr_of (Count uid proc nr) = nr"
| "nr_of (Find uid nr) = nr"

fun first_pc :: "sbx_req \<Rightarrow> pc" where
  "first_pc (Find uid nr) = P_find"
| "first_pc _ = P_start"

text \<open>The row of the request, and a write to it.\<close>

definition look_row :: "sbx_req \<Rightarrow> sbx \<Rightarrow> (sysTable \<Rightarrow> (pc \<times> sbx) res) \<Rightarrow> (pc \<times> sbx) res" where
  "look_row q s f = andThen (aget (permList s) (uint (nr_of q))) f"

definition write_row :: "sbx_req \<Rightarrow> pc \<Rightarrow> (sysTable \<Rightarrow> sysTable) \<Rightarrow> sbx \<Rightarrow> (pc \<times> sbx) res" where
  "write_row q pc f s = look_row q s (\<lambda>e. Inr (pc, put_row (nr_of q) (f e) s))"

definition write_slot :: "sbx_req \<Rightarrow> pc \<Rightarrow> u32 \<Rightarrow> sbx \<Rightarrow> (pc \<times> sbx) res" where
  "write_slot q pc v s =
     look_row q s (\<lambda>e. andThen (aset (hash e) (getHashs (proc_of q)) v) (\<lambda>h.
       Inr (pc, put_row (nr_of q) (e\<lparr>hash := h\<rparr>) s)))"

definition ask :: "sbx_req \<Rightarrow> sbx \<Rightarrow> pc \<times> sbx" where
  "ask q s =
     (case q of
        Count uid proc nr \<Rightarrow>
          if uid = 0 then
            (if proc \<noteq> 0 \<and> 0 < sint proc then (P_lock, s)
             else (P_done (- EINVAL), printk ''Error: Invalid process to check'' [] s))
          else (P_done (- EPERM), printk ''Error: Process needs to be root'' [] s)
      | Block uid proc nr \<Rightarrow>
          if uid = proc \<or> uid = 0 then (P_lock, s)
          else (P_done (- EPERM), printk ''Error: Process needs to be root to block other PID's calls'' [] s)
      | Unblock uid proc nr \<Rightarrow>
          if uid = proc \<or> uid = 0 then (P_lock, s)
          else (P_done (- EPERM), printk ''Error: Process needs to be root to block other PID's calls'' [] s)
      | Find uid nr \<Rightarrow> (P_find, s))"

definition row_test :: "sbx_req \<Rightarrow> sysTable \<Rightarrow> bool res" where
  "row_test q e =
     (if (case q of Block _ _ _ \<Rightarrow> call e \<noteq> 999 | _ \<Rightarrow> call e = nr_of q)
      then row_has e (getHashs (proc_of q)) (proc_of q) else Inr False)"

definition found :: "sbx_req \<Rightarrow> sysTable \<Rightarrow> sbx \<Rightarrow> pc \<times> sbx" where
  "found q e s =
     (case q of
        Block uid proc nr \<Rightarrow>
          (P_bump, printk ''Error: Proccess %d is already blocked for system call %ld'' [sint proc, uint nr] s)
      | Unblock uid proc nr \<Rightarrow>
          (P_unset, printk ''Proccess %d is now unblocked for system call %ld'' [sint proc, uint nr] s)
      | Count uid proc nr \<Rightarrow> (P_unlock (sint (ucast (count e) :: u32)) [], s)
      | Find uid nr \<Rightarrow> (P_tally, s))"

definition not_found :: "sbx_req \<Rightarrow> sbx \<Rightarrow> pc \<times> sbx" where
  "not_found q s =
     (case q of
        Block uid proc nr \<Rightarrow> (P_hash, s)
      | Unblock uid proc nr \<Rightarrow>
          (P_unlock (- EEXIST) [(''Error: Process %d is not blocked from using %ld'', [sint proc, uint nr])], s)
      | Count uid proc nr \<Rightarrow>
          (P_unlock (- EEXIST) [(''Error: Proccess %d is not found with %ld'', [sint proc, uint nr])], s)
      | Find uid nr \<Rightarrow>
          (P_done 0, printk ''UID %d is not blocked from using %ld'' [sint uid, uint nr] s))"

definition look :: "sbx_req \<Rightarrow> sbx \<Rightarrow> (pc \<times> sbx) res" where
  "look q s =
     look_row q s (\<lambda>e. andThen (row_test q e) (\<lambda>hit. Inr (if hit then found q e s else not_found q s)))"

definition reset_one :: "int \<Rightarrow> sbx \<Rightarrow> (pc \<times> sbx) res" where
  "reset_one countm s =
     (if countm \<le> 436 then
        andThen (aget (permList s) countm) (\<lambda>e.
        andThen (aset (permList s) countm (e\<lparr>call := 999, count := 0\<rparr>)) (\<lambda>t.
        Inr (P_reset (countm + 1), s\<lparr>permList := t\<rparr>)))
      else Inr (P_mark, s))"

text \<open>A step of a thread; \<open>None\<close> when it sleeps or has finished.\<close>

fun tstep :: "sbx_req \<Rightarrow> pc \<Rightarrow> sbx \<Rightarrow> (pc \<times> sbx) res option" where
  "tstep q P_start s = Some (Inr (if started s = 0 then P_reset 0 else P_cred, s))"
| "tstep q (P_reset k) s = Some (reset_one k s)"
| "tstep q P_mark s = Some (Inr (P_cred, s\<lparr>started := 1\<rparr>))"
| "tstep q P_cred s = Some (Inr (ask q s))"
| "tstep q P_lock s = (if lockTable s then None else Some (Inr (P_look, s\<lparr>lockTable := True\<rparr>)))"
| "tstep q P_look s = Some (look q s)"
| "tstep q P_bump s = Some (write_row q (P_unlock (- EEXIST) []) (\<lambda>e. e\<lparr>call := call e + 1\<rparr>) s)"
| "tstep q P_hash s = Some (write_slot q P_call (proc_of q) s)"
| "tstep q P_call s = Some (write_row q P_count (\<lambda>e. e\<lparr>call := nr_of q\<rparr>) s)"
| "tstep q P_count s = Some (write_row q (P_unlock 0 []) (\<lambda>e. e\<lparr>count := 0\<rparr>) s)"
| "tstep q P_unset s = Some (write_row q P_clear (\<lambda>e. e\<lparr>call := 999\<rparr>) s)"
| "tstep q P_clear s = Some (write_slot q (P_unlock 0 []) 0 s)"
| "tstep q (P_unlock r m) s = Some (Inr (P_say r m, s\<lparr>lockTable := False\<rparr>))"
| "tstep q (P_say r m) s = Some (Inr (P_done r, s\<lparr>klog := klog s @ m\<rparr>))"
| "tstep q P_find s = Some (look q s)"
| "tstep q P_tally s = Some (look_row q s (\<lambda>e. Inr (P_tallied (count e), s)))"
| "tstep q (P_tallied c) s =
     Some (andThen (write_row q (P_done 1) (\<lambda>e. e\<lparr>count := c + 1\<rparr>) s) (\<lambda>(p, s).
       Inr (p, printk ''UID %d is blocked from using %ld'' [sint (proc_of q), uint (nr_of q)] s)))"
| "tstep q (P_done r) s = None"

section \<open>All the threads\<close>

record sys =
  pcs :: "nat \<Rightarrow> pc"
  job :: "nat \<Rightarrow> sbx_req"
  tab :: sbx

definition sys_start :: "(nat \<Rightarrow> sbx_req) \<Rightarrow> sbx \<Rightarrow> sys" where
  "sys_start jobs s = \<lparr>pcs = \<lambda>i. first_pc (jobs i), job = jobs, tab = s\<rparr>"

inductive sys_step :: "sys \<Rightarrow> sys \<Rightarrow> bool" where
  thread: "tstep (job w i) (pcs w i) (tab w) = Some (Inr (p, s)) \<Longrightarrow>
    sys_step w (w\<lparr>pcs := (pcs w)(i := p), tab := s\<rparr>)"
| next_request: "pcs w i = P_done r \<Longrightarrow>
    sys_step w (w\<lparr>pcs := (pcs w)(i := first_pc q), job := (job w)(i := q)\<rparr>)"

inductive_cases sys_stepE: "sys_step w w'"

definition sys_steps :: "sys \<Rightarrow> sys \<Rightarrow> bool" where
  "sys_steps = sys_step\<^sup>*\<^sup>*"

lemma sys_steps_trans: "sys_steps v w \<Longrightarrow> sys_steps w x \<Longrightarrow> sys_steps v x"
  by (simp add: sys_steps_def)

lemma sys_steps_refl [simp]: "sys_steps w w"
  by (simp add: sys_steps_def)

lemma sys_steps_one: "sys_step w w' \<Longrightarrow> sys_steps w w'"
  by (simp add: sys_steps_def)

section \<open>A thread that runs alone\<close>

text \<open>\<open>n\<close> bounds the steps; \<open>None\<close> when they do not suffice or the thread sleeps.\<close>

fun solo :: "nat \<Rightarrow> sbx_req \<Rightarrow> pc \<Rightarrow> sbx \<Rightarrow> (int \<times> sbx) res option" where
  "solo 0 q pc s = None"
| "solo (Suc n) q pc s =
     (case pc of P_done r \<Rightarrow> Some (Inr (r, s))
      | _ \<Rightarrow> (case tstep q pc s of
                None \<Rightarrow> None
              | Some (Inl e) \<Rightarrow> Some (Inl e)
              | Some (Inr (p, s')) \<Rightarrow> solo n q p s'))"

declare solo.simps(2) [simp del]

definition then_solo :: "nat \<Rightarrow> sbx_req \<Rightarrow> (pc \<times> sbx) res \<Rightarrow> (int \<times> sbx) res option" where
  "then_solo n q m = (case m of Inl e \<Rightarrow> Some (Inl e) | Inr (p, s) \<Rightarrow> solo n q p s)"

lemma then_solo_simps [simp]:
  "then_solo n q (Inl e) = Some (Inl e)"
  "then_solo n q (Inr (p, s)) = solo n q p s"
  by (simp_all add: then_solo_def)

lemma solo_pcs [simp]:
  "solo (Suc n) q P_start s = solo n q (if started s = 0 then P_reset 0 else P_cred) s"
  "solo (Suc n) q (P_reset k) s = then_solo n q (reset_one k s)"
  "solo (Suc n) q P_mark s = solo n q P_cred (s\<lparr>started := 1\<rparr>)"
  "solo (Suc n) q P_cred s = then_solo n q (Inr (ask q s))"
  "solo (Suc n) q P_lock s = (if lockTable s then None else solo n q P_look (s\<lparr>lockTable := True\<rparr>))"
  "solo (Suc n) q P_look s = then_solo n q (look q s)"
  "solo (Suc n) q P_bump s = then_solo n q (write_row q (P_unlock (- EEXIST) []) (\<lambda>e. e\<lparr>call := call e + 1\<rparr>) s)"
  "solo (Suc n) q P_hash s = then_solo n q (write_slot q P_call (proc_of q) s)"
  "solo (Suc n) q P_call s = then_solo n q (write_row q P_count (\<lambda>e. e\<lparr>call := nr_of q\<rparr>) s)"
  "solo (Suc n) q P_count s = then_solo n q (write_row q (P_unlock 0 []) (\<lambda>e. e\<lparr>count := 0\<rparr>) s)"
  "solo (Suc n) q P_unset s = then_solo n q (write_row q P_clear (\<lambda>e. e\<lparr>call := 999\<rparr>) s)"
  "solo (Suc n) q P_clear s = then_solo n q (write_slot q (P_unlock 0 []) 0 s)"
  "solo (Suc n) q (P_unlock r m) s = solo n q (P_say r m) (s\<lparr>lockTable := False\<rparr>)"
  "solo (Suc n) q (P_say r m) s = solo n q (P_done r) (s\<lparr>klog := klog s @ m\<rparr>)"
  "solo (Suc n) q P_find s = then_solo n q (look q s)"
  "solo (Suc n) q P_tally s = then_solo n q (look_row q s (\<lambda>e. Inr (P_tallied (count e), s)))"
  "solo (Suc n) q (P_tallied c) s = then_solo n q (andThen (write_row q (P_done 1) (\<lambda>e. e\<lparr>count := c + 1\<rparr>) s)
     (\<lambda>(p, s). Inr (p, printk ''UID %d is blocked from using %ld'' [sint (proc_of q), uint (nr_of q)] s)))"
  "solo (Suc n) q (P_done r) s = Some (Inr (r, s))"
  by (simp_all add: solo.simps(2) then_solo_def split: sum.split)

lemmas thread_defs = look_def look_row_def row_test_def found_def not_found_def write_row_def write_slot_def
  put_row_def printk_def mutex_lock_def mutex_unlock_def

lemma aget_again:
  fixes nr :: u64
  assumes "aget xs (uint nr) = Inr e"
  shows "aget (xs[unat nr := x]) (uint nr) = Inr x"
proof -
  have "nat (uint nr) = unat nr" by simp
  moreover from this have "unat nr < length xs \<longleftrightarrow> uint nr < int (length xs)"
    by (metis nat_less_iff uint_ge_0)
  ultimately show ?thesis using assms by (auto simp: aget_def split: if_splits)
qed

lemma row_all [simp]: "e\<lparr>hash := h, call := c, count := n\<rparr> = \<lparr>call = c, count = n, hash = h\<rparr>"
  by (cases e) simp

lemma solo_block:
  assumes "\<not> lockTable s" "q = Block uid proc nr"
  shows "solo (Suc (Suc (Suc (Suc (Suc (Suc (Suc (Suc n)))))))) q P_lock s = Some (block_entry proc nr s)"
proof (cases "aget (permList s) (uint nr)")
  case (Inl e)
  then show ?thesis using assms by (simp add: thread_defs block_entry_def Let_def)
next
  case (Inr e)
  note again = aget_again[OF Inr]
  show ?thesis
    using assms Inr
    by (cases "row_has e (getHashs proc) proc"; cases "aset (hash e) (getHashs proc) proc")
      (auto simp: thread_defs block_entry_def Let_def again)
qed

lemma solo_unblock:
  assumes "\<not> lockTable s" "q = Unblock uid proc nr"
  shows "solo (Suc (Suc (Suc (Suc (Suc (Suc (Suc (Suc n)))))))) q P_lock s = Some (unblock_entry proc nr s)"
proof (cases "aget (permList s) (uint nr)")
  case (Inl e)
  then show ?thesis using assms by (simp add: thread_defs unblock_entry_def Let_def)
next
  case (Inr e)
  note again = aget_again[OF Inr]
  show ?thesis
    using assms Inr
    by (cases "row_has e (getHashs proc) proc"; cases "aset (hash e) (getHashs proc) 0")
      (auto simp: thread_defs unblock_entry_def Let_def again)
qed

lemma solo_count:
  assumes "\<not> lockTable s" "q = Count uid proc nr"
  shows "solo (Suc (Suc (Suc (Suc (Suc (Suc n)))))) q P_lock s =
    Some (andThen (mutex_lock s) (\<lambda>s. andThen (aget (permList s) (uint nr)) (\<lambda>e.
      andThen (if call e = nr then row_has e (getHashs proc) proc else Inr False) (\<lambda>hit.
      if hit then Inr (sint (ucast (count e) :: u32), mutex_unlock s)
      else Inr (- EEXIST, printk ''Error: Proccess %d is not found with %ld''
             [sint proc, uint nr] (mutex_unlock s))))))"
  using assms
  by (cases "aget (permList s) (uint nr)"; cases "row_has (projr (aget (permList s) (uint nr))) (getHashs proc) proc")
    (auto simp: thread_defs)

lemma solo_find:
  assumes "q = Find uid nr"
  shows "solo (Suc (Suc (Suc (Suc n)))) q P_find s = Some (findder uid nr s)"
proof (cases "aget (permList s) (uint nr)")
  case (Inl e)
  then show ?thesis using assms by (simp add: thread_defs findder_def Let_def)
next
  case (Inr e)
  then show ?thesis
    using assms by (cases "row_has e (getHashs uid) uid") (auto simp: thread_defs findder_def Let_def)
qed

text \<open>The loop of the set-up.\<close>

lemma solo_reset_from:
  assumes "0 \<le> k" "k \<le> 437"
  shows "solo (nat (437 - k) + Suc (Suc n)) q (P_reset k) s =
    (case init_rows k (permList s) of Inl e \<Rightarrow> Some (Inl e)
     | Inr t \<Rightarrow> solo n q P_cred (s\<lparr>permList := t, started := 1\<rparr>))"
  using assms
proof (induction "nat (437 - k)" arbitrary: k s)
  case 0
  then have "k = 437" by simp
  then show ?case by (simp add: reset_one_def init_rows.simps)
next
  case (Suc m)
  then have k: "k \<le> 436" and m: "m = nat (437 - (k + 1))" "nat (437 - k) = Suc m" by auto
  show ?case
  proof (cases "aget (permList s) k")
    case (Inl e)
    then show ?thesis using k by (simp add: m(2) reset_one_def init_rows.simps[of k])
  next
    case (Inr e)
    let ?e = "e\<lparr>call := 999, count := 0\<rparr>"
    show ?thesis
    proof (cases "aset (permList s) k ?e")
      case (Inl f)
      then show ?thesis using Inr k by (simp add: m(2) reset_one_def init_rows.simps[of k])
    next
      case (Inr t)
      then show ?thesis
        using \<open>aget (permList s) k = Inr e\<close> k Suc.hyps(1)[OF m(1), of "s\<lparr>permList := t\<rparr>"] Suc.prems
        by (cases "init_rows (k + 1) t") (simp_all add: m reset_one_def init_rows.simps[of k])
    qed
  qed
qed

lemma solo_start:
  "\<exists>m. solo m q P_start s = (case sbx_start s of Inl e \<Rightarrow> Some (Inl e)
    | Inr s' \<Rightarrow> solo n q P_cred s')"
proof (cases "started s = 0")
  case True
  have "solo (Suc (nat (437 - 0) + Suc (Suc n))) q P_start s = solo (nat (437 - 0) + Suc (Suc n)) q (P_reset 0) s"
    by (subst solo_pcs(1)) (simp only: True if_True simp_thms)
  also have "\<dots> = (case init_rows 0 (permList s) of Inl e \<Rightarrow> Some (Inl e)
     | Inr t \<Rightarrow> solo n q P_cred (s\<lparr>permList := t, started := 1\<rparr>))"
    by (rule solo_reset_from) simp_all
  also have "\<dots> = (case sbx_start s of Inl e \<Rightarrow> Some (Inl e) | Inr s' \<Rightarrow> solo n q P_cred s')"
    using True by (cases "init_rows 0 (permList s)") (simp_all add: sbx_start_def initalizeHash_def)
  finally show ?thesis by blast
next
  case False
  then show ?thesis by (intro exI[of _ "Suc n"]) (simp add: sbx_start_def)
qed

lemma started_lock: "sbx_start s = Inr s' \<Longrightarrow> lockTable s' = lockTable s"
  by (auto simp: sbx_start_def initalizeHash_def andThen_eq_Inr split: if_splits)

lemma solo_handler:
  assumes "\<not> lockTable s"
  shows "\<exists>n. solo n q (first_pc q) s = Some (sbx_do q s)"
proof (cases q)
  case (Find uid nr)
  then have "solo (Suc (Suc (Suc (Suc 0)))) q (first_pc q) s = Some (sbx_do q s)"
    using solo_find[OF Find] by (simp del: solo_pcs)
  then show ?thesis by blast
next
  case (Block uid proc nr)
  let ?n = "Suc (Suc (Suc (Suc (Suc (Suc (Suc (Suc (Suc 0))))))))"
  obtain m where m: "solo m q P_start s = (case sbx_start s of Inl e \<Rightarrow> Some (Inl e)
    | Inr s' \<Rightarrow> solo ?n q P_cred s')" using solo_start by blast
  show ?thesis
    using Block m solo_block[of _ q] started_lock assms
    by (intro exI[of _ m]; cases "sbx_start s") (simp_all add: sbx421_block_def ask_def)
next
  case (Unblock uid proc nr)
  let ?n = "Suc (Suc (Suc (Suc (Suc (Suc (Suc (Suc (Suc 0))))))))"
  obtain m where m: "solo m q P_start s = (case sbx_start s of Inl e \<Rightarrow> Some (Inl e)
    | Inr s' \<Rightarrow> solo ?n q P_cred s')" using solo_start by blast
  show ?thesis
    using Unblock m solo_unblock[of _ q] started_lock assms
    by (intro exI[of _ m]; cases "sbx_start s") (simp_all add: sbx421_unblock_def ask_def)
next
  case (Count uid proc nr)
  let ?n = "Suc (Suc (Suc (Suc (Suc (Suc (Suc 0))))))"
  obtain m where m: "solo m q P_start s = (case sbx_start s of Inl e \<Rightarrow> Some (Inl e)
    | Inr s' \<Rightarrow> solo ?n q P_cred s')" using solo_start by blast
  show ?thesis
    using Count m solo_count[of _ q] started_lock assms
    by (intro exI[of _ m]; cases "sbx_start s") (simp_all add: sbx421_count_def ask_def)
qed

text \<open>
  C6: a thread that runs alone does exactly what its system call does. With the lock free, the
  statements of a request executed one after the other, however many the set-up needs, end with
  the result, the table and the messages of the whole operation, or with its fault.
\<close>

theorem alone_is_handler:
  assumes "\<not> lockTable s"
  shows "\<exists>n. solo n q (first_pc q) s = Some (sbx_do q s)"
  by (rule solo_handler[OF assms])

theorem alone_is_handler_witness:
  "\<exists>n. solo n (Count 5 1 0) P_start sbx_boot = Some (sbx421_count 5 1 0 sbx_boot)"
  using alone_is_handler[of sbx_boot "Count 5 1 0"] by (simp add: sbx_boot_def)

text \<open>So a thread left alone takes its request to the end in the whole system.\<close>

lemma solo_steps:
  assumes "solo n (job w i) (pcs w i) (tab w) = Some (Inr (r, s'))"
  shows "sys_steps w (w\<lparr>pcs := (pcs w)(i := P_done r), tab := s'\<rparr>)"
  using assms
proof (induction n arbitrary: w)
  case (Suc n)
  show ?case
  proof (cases "\<exists>r. pcs w i = P_done r")
    case True
    then have "w\<lparr>pcs := (pcs w)(i := P_done r), tab := s'\<rparr> = w"
      using Suc.prems by (auto simp: fun_upd_idem)
    then show ?thesis by (simp only: sys_steps_refl)
  next
    case False
    then obtain p t where t: "tstep (job w i) (pcs w i) (tab w) = Some (Inr (p, t))"
      "solo n (job w i) p t = Some (Inr (r, s'))"
      using Suc.prems by (auto simp: solo.simps(2) split: pc.splits option.splits sum.splits prod.splits)
    let ?w = "w\<lparr>pcs := (pcs w)(i := p), tab := t\<rparr>"
    have "sys_steps w ?w" using t(1) by (intro sys_steps_one thread)
    moreover have "sys_steps ?w (w\<lparr>pcs := (pcs w)(i := P_done r), tab := s'\<rparr>)"
    proof -
      have same: "?w\<lparr>pcs := (pcs ?w)(i := P_done r), tab := s'\<rparr> = w\<lparr>pcs := (pcs w)(i := P_done r), tab := s'\<rparr>"
        by (simp add: fun_upd_def cong: if_cong)
      have "solo n (job ?w i) (pcs ?w i) (tab ?w) = Some (Inr (r, s'))" using t(2) by simp
      from Suc.IH[OF this] show ?thesis unfolding same .
    qed
    ultimately show ?thesis by (rule sys_steps_trans)
  qed
qed simp

section \<open>The lock\<close>

fun holds :: "pc \<Rightarrow> bool" where
  "holds P_look = True" | "holds P_bump = True" | "holds P_hash = True" | "holds P_call = True"
| "holds P_count = True" | "holds P_unset = True" | "holds P_clear = True"
| "holds (P_unlock r m) = True" | "holds _ = False"

text \<open>A thread is only where its own request takes it.\<close>

fun is_find :: "sbx_req \<Rightarrow> bool" where
  "is_find (Find u n) = True" | "is_find _ = False"

fun at_home :: "sbx_req \<Rightarrow> pc \<Rightarrow> bool" where
  "at_home q P_find = is_find q" | "at_home q P_tally = is_find q" | "at_home q (P_tallied c) = is_find q"
| "at_home q (P_done r) = True" | "at_home q (P_reset k) = (\<not> is_find q \<and> 0 \<le> k)"
| "at_home q _ = (\<not> is_find q)"

definition lock_step :: "pc \<Rightarrow> sbx \<Rightarrow> pc \<Rightarrow> sbx \<Rightarrow> bool" where
  "lock_step p s p' s' \<longleftrightarrow> (lockTable s' \<longleftrightarrow> (if holds p then holds p' else lockTable s \<or> holds p'))
     \<and> (\<not> holds p \<and> holds p' \<longrightarrow> \<not> lockTable s)"

lemma sbx_locks:
  "lockTable (put_row n e s) = lockTable s" "lockTable (printk f a s) = lockTable s"
  by (simp_all add: put_row_def printk_def)

lemma reset_lock:
  assumes "reset_one k s = Inr (p', s')" "at_home q (P_reset k)"
  shows "at_home q p' \<and> lockTable s' = lockTable s \<and> \<not> holds p'"
  using assms by (auto simp: reset_one_def andThen_eq_Inr split: if_splits)

lemma look_lock:
  assumes "look q s = Inr (p', s')"
  shows "at_home q p' \<and> lockTable s' = lockTable s \<and> holds p' = (\<not> is_find q)"
  using assms
  by (cases q) (auto simp: look_def look_row_def andThen_eq_Inr found_def not_found_def sbx_locks
      split: if_splits)

lemma write_lock:
  "write_row q p f s = Inr (p', s') \<Longrightarrow> p' = p \<and> lockTable s' = lockTable s"
  "write_slot q p v s = Inr (p', s') \<Longrightarrow> p' = p \<and> lockTable s' = lockTable s"
  "look_row q s (\<lambda>e. Inr (P_tallied (c e), s)) = Inr (p', s') \<Longrightarrow> (\<exists>c. p' = P_tallied c) \<and> s' = s"
  by (auto simp: write_row_def write_slot_def look_row_def andThen_eq_Inr sbx_locks)

lemma ask_lock:
  assumes "ask q s = (p', s')" "\<not> is_find q"
  shows "at_home q p' \<and> lockTable s' = lockTable s \<and> \<not> holds p'"
  using assms by (cases q) (auto simp: ask_def sbx_locks split: if_splits)

lemma tstep_lock:
  assumes "tstep q p s = Some (Inr (p', s'))" "at_home q p" "holds p \<longrightarrow> lockTable s"
  shows "at_home q p' \<and> lock_step p s p' s'"
  using assms
  by (cases p) (auto simp: lock_step_def andThen_eq_Inr sbx_locks split: if_splits
      dest: reset_lock[where q = q] look_lock write_lock ask_lock)

text \<open>The lock is taken exactly when some thread is in a critical section, and then one thread is.\<close>

definition lock_inv :: "sys \<Rightarrow> bool" where
  "lock_inv w \<longleftrightarrow> (\<forall>i. at_home (job w i) (pcs w i))
     \<and> (lockTable (tab w) \<longleftrightarrow> (\<exists>i. holds (pcs w i)))
     \<and> (\<forall>i j. holds (pcs w i) \<and> holds (pcs w j) \<longrightarrow> i = j)"

lemma first_home [simp]: "at_home q (first_pc q)" "\<not> holds (first_pc q)"
  by (cases q; simp)+

lemma lock_inv_start: "\<not> lockTable s \<Longrightarrow> lock_inv (sys_start jobs s)"
  by (simp add: lock_inv_def sys_start_def)

lemma lock_inv_step:
  assumes "sys_step w w'" "lock_inv w"
  shows "lock_inv w'"
  using assms(1)
proof (cases rule: sys_step.cases)
  case (thread i p s)
  have "holds (pcs w i) \<longrightarrow> lockTable (tab w)" using assms(2) by (auto simp: lock_inv_def)
  then have "at_home (job w i) p \<and> lock_step (pcs w i) (tab w) p s"
    using thread(2) assms(2) by (intro tstep_lock) (auto simp: lock_inv_def)
  then show ?thesis
    using assms(2) thread(1) unfolding lock_inv_def lock_step_def by (auto split: if_splits)
next
  case (next_request i r q)
  then have "holds (pcs w j) \<longrightarrow> j \<noteq> i" for j by auto
  then show ?thesis using next_request(1) assms(2) unfolding lock_inv_def by auto
qed

interpretation locked: invariant sys_step lock_inv
  by unfold_locales (rule lock_inv_step)

lemma lock_inv_steps: "sys_steps w w' \<Longrightarrow> lock_inv w \<Longrightarrow> lock_inv w'"
  unfolding sys_steps_def by (rule locked.steps_keep)

end
