(* ===== verification/Sandbox_Threads_Props.thy ===== *)
theory Sandbox_Threads_Props
  imports Sandbox_Threads Sandbox_Props
begin

text \<open>
  What holds and what fails when the sandbox's system calls run at once: mutual exclusion and
  freedom from deadlock for arguments inside the table; and, since the set-up and \<open>findder\<close> run
  without the lock and a bad argument faults inside the critical section, a start that wipes a
  successful block, a refusal that is not counted, and a lock that is never released.
\<close>

section \<open>Sizes\<close>

definition rows_ok :: "sbx \<Rightarrow> bool" where
  "rows_ok s \<longleftrightarrow> length (permList s) = 437 \<and> (\<forall>e \<in> set (permList s). wf_row e)"

definition valid_job :: "sbx_req \<Rightarrow> bool" where
  "valid_job q \<longleftrightarrow> valid_id (proc_of q) \<and> valid_nr (nr_of q)"

lemma wf_rows_ok: "wf_sbx s \<Longrightarrow> rows_ok s"
  unfolding wf_sbx_def rows_ok_def by blast

lemma rows_ok_lens: "rows_ok s \<Longrightarrow> length (permList s) = 437" "rows_ok s \<Longrightarrow> valid_nr nr \<Longrightarrow> length (hash (row s nr)) = 32"
proof -
  assume r: "rows_ok s"
  then show l: "length (permList s) = 437" by (simp only: rows_ok_def)
  assume "valid_nr nr"
  then have "row s nr \<in> set (permList s)" using l by (simp add: row_def valid_nr_def)
  then show "length (hash (row s nr)) = 32" using r by (simp add: rows_ok_def wf_row_def)
qed

lemma rows_ok_cong [simp]:
  "rows_ok (s\<lparr>lockTable := b\<rparr>) = rows_ok s" "rows_ok (s\<lparr>klog := l\<rparr>) = rows_ok s"
  "rows_ok (s\<lparr>started := x\<rparr>) = rows_ok s" "rows_ok (printk f a s) = rows_ok s"
  by (simp_all add: rows_ok_def printk_def)

lemma rows_ok_put: "rows_ok s \<Longrightarrow> wf_row e \<Longrightarrow> rows_ok (put_row nr e s)"
  unfolding rows_ok_def put_row_def by (auto dest: set_update_subset_insert [THEN subsetD])

lemma aget_wf_row: "rows_ok s \<Longrightarrow> aget (permList s) k = Inr e \<Longrightarrow> wf_row e"
  by (auto simp: rows_ok_def aget_def split: if_splits)

lemma reset_rows:
  assumes "rows_ok s" "reset_one k s = Inr (p', s')"
  shows "rows_ok s'"
proof (cases "k \<le> 436")
  case True
  then obtain e t where t: "aget (permList s) k = Inr e" "aset (permList s) k (e\<lparr>call := 999, count := 0\<rparr>) = Inr t"
    "s' = s\<lparr>permList := t\<rparr>"
    using assms(2) by (auto simp: reset_one_def andThen_eq_Inr)
  have "wf_row (e\<lparr>call := 999, count := 0\<rparr>)" using aget_wf_row[OF assms(1) t(1)] by (simp add: wf_row_def)
  then show ?thesis
    using assms(1) t(2,3) unfolding rows_ok_def
    by (auto simp: aset_def split: if_splits dest: set_update_subset_insert [THEN subsetD])
qed (use assms in \<open>simp add: reset_one_def\<close>)

lemma look_rows: "rows_ok s \<Longrightarrow> look q s = Inr (p', s') \<Longrightarrow> rows_ok s'"
  by (cases q) (auto simp: look_def look_row_def andThen_eq_Inr found_def not_found_def split: if_splits)

lemma write_rows:
  assumes "rows_ok s"
  shows "(\<And>e. hash (f e) = hash e) \<Longrightarrow> write_row q p f s = Inr (p', s') \<Longrightarrow> rows_ok s'"
    "write_slot q p v s = Inr (p', s') \<Longrightarrow> rows_ok s'"
    "look_row q s (\<lambda>e. Inr (P_tallied (c e), s)) = Inr (p', s') \<Longrightarrow> rows_ok s'"
proof -
  show "rows_ok s'" if "\<And>e. hash (f e) = hash e" "write_row q p f s = Inr (p', s')"
    using that assms aget_wf_row[OF assms]
    by (auto simp: write_row_def look_row_def andThen_eq_Inr wf_row_def intro!: rows_ok_put)
  show "rows_ok s'" if "write_slot q p v s = Inr (p', s')"
    using that assms aget_wf_row[OF assms]
    by (auto simp: write_slot_def look_row_def andThen_eq_Inr wf_row_def intro!: rows_ok_put dest: aset_length)
  show "rows_ok s'" if "look_row q s (\<lambda>e. Inr (P_tallied (c e), s)) = Inr (p', s')"
    using that assms by (auto simp: look_row_def andThen_eq_Inr)
qed

lemma ask_rows: "ask q s = (p', s') \<Longrightarrow> rows_ok s' = rows_ok s"
  by (cases q) (auto simp: ask_def split: if_splits)

lemma tstep_rows:
  assumes "tstep q p s = Some (Inr (p', s'))" "rows_ok s"
  shows "rows_ok s'"
  using assms
  by (cases p) (auto simp: andThen_eq_Inr split: if_splits dest: reset_rows look_rows ask_rows write_rows(2,3)
      write_rows(1)[rotated 2] intro: write_rows(1))

interpretation sized: invariant sys_step "\<lambda>w. rows_ok (tab w)"
  by unfold_locales (auto elim!: sys_stepE dest: tstep_rows)

lemma rows_steps: "sys_steps w w' \<Longrightarrow> rows_ok (tab w) \<Longrightarrow> rows_ok (tab w')"
  unfolding sys_steps_def by (rule sized.steps_keep)

section \<open>Steps that cannot fail\<close>

lemma look_ok:
  assumes "rows_ok s" "valid_job q"
  shows "\<exists>x. look q s = Inr x"
proof -
  have "row_test q (row s (nr_of q)) \<noteq> Inl f" for f
    using assms rows_ok_lens(1)[OF assms(1)] rows_ok_lens(2)[OF assms(1), of "nr_of q"] by (simp add: row_test_def valid_job_def)
  then obtain hit where "row_test q (row s (nr_of q)) = Inr hit"
    by (cases "row_test q (row s (nr_of q))") auto
  then show ?thesis
    using assms rows_ok_lens(1)[OF assms(1)] by (simp add: look_def look_row_def valid_job_def)
qed

lemma write_ok:
  assumes "rows_ok s" "valid_job q"
  shows "\<exists>s'. write_row q p f s = Inr (p, s')" "\<exists>s'. write_slot q p v s = Inr (p, s')"
    "\<exists>c. look_row q s (\<lambda>e. Inr (P_tallied (count e), s)) = Inr (P_tallied c, s)"
  using assms rows_ok_lens(1)[OF assms(1)] rows_ok_lens(2)[OF assms(1), of "nr_of q"]
  by (simp_all add: write_row_def write_slot_def look_row_def valid_job_def)

lemma reset_ok:
  assumes "rows_ok s" "0 \<le> k"
  shows "\<exists>x. reset_one k s = Inr x"
  using assms rows_ok_lens(1)[OF assms(1)] by (auto simp: reset_one_def)

text \<open>A thread inside the table moves, unless it has finished or waits for the lock.\<close>

lemma tstep_ok:
  assumes "rows_ok s" "valid_job q" "at_home q p"
  shows "(\<exists>r. p = P_done r) \<or> (p = P_lock \<and> lockTable s) \<or> (\<exists>x. tstep q p s = Some (Inr x))"
proof (cases p)
  case (P_reset k)
  then show ?thesis using reset_ok[OF assms(1)] assms(3) by simp
next
  case (P_tallied c)
  then show ?thesis using write_ok(1)[OF assms(1,2), where p = "P_done 1" and f = "\<lambda>e. e\<lparr>count := c + 1\<rparr>"] by auto
qed (use look_ok[OF assms(1,2)] write_ok[OF assms(1,2)] in \<open>auto, blast+\<close>)

text \<open>A request under way, and a system in which the next step of some such request is possible.\<close>

definition under_way :: "sys \<Rightarrow> nat \<Rightarrow> bool" where
  "under_way w i \<longleftrightarrow> \<not> (\<exists>r. pcs w i = P_done r)"

definition can_move :: "sys \<Rightarrow> nat \<Rightarrow> bool" where
  "can_move w i \<longleftrightarrow> (\<exists>x. tstep (job w i) (pcs w i) (tab w) = Some (Inr x))"

text \<open>A given interleaving: the threads that move, in order.\<close>

fun play :: "nat list \<Rightarrow> sys \<Rightarrow> sys option" where
  "play [] w = Some w"
| "play (i # is) w =
     (case tstep (job w i) (pcs w i) (tab w) of
        Some (Inr (p, s)) \<Rightarrow> play is (w\<lparr>pcs := (pcs w)(i := p), tab := s\<rparr>)
      | _ \<Rightarrow> None)"

lemma play_steps: "play is w = Some w' \<Longrightarrow> sys_steps w w'"
proof (induction "is" arbitrary: w)
  case Nil
  then show ?case by simp
next
  case (Cons i "is")
  then obtain p s where t: "tstep (job w i) (pcs w i) (tab w) = Some (Inr (p, s))"
    "play is (w\<lparr>pcs := (pcs w)(i := p), tab := s\<rparr>) = Some w'"
    by (auto split: option.splits sum.splits)
  have "sys_steps w (w\<lparr>pcs := (pcs w)(i := p), tab := s\<rparr>)"
    using t(1) by (intro sys_steps_one thread)
  then show ?case using Cons.IH[OF t(2)] by (rule sys_steps_trans)
qed

lemma one_holder:
  assumes "sys_steps (sys_start jobs s) w" "\<not> lockTable s" "holds (pcs w i)"
  shows "lockTable (tab w) \<and> {j. holds (pcs w j)} = {i}"
  using lock_inv_steps[OF assms(1) lock_inv_start[OF assms(2)]] assms(3)
  by (auto simp: lock_inv_def)

section \<open>Properties\<close>

text \<open>
  C7: at most one thread is in a critical section, and the lock is taken exactly while one is.
  From any table with its lock free, in every state the threads can reach: if the lock is taken,
  there is one thread between its lock and its unlock and no other; if it is free, there is none.
\<close>

theorem mutual_exclusion:
  assumes "sys_steps (sys_start jobs s) w" "\<not> lockTable s"
  shows "if lockTable (tab w) then \<exists>i. {j. holds (pcs w j)} = {i} else {j. holds (pcs w j)} = {}"
  using lock_inv_steps[OF assms(1) lock_inv_start[OF assms(2)]] by (auto simp: lock_inv_def)

text \<open>
  C8: the threads never deadlock as long as their arguments are inside the table. In any state
  reached from a well-formed table in which every thread's request names an id and a call number
  of the table, if some request is under way then some request under way can make its next step.
\<close>

theorem no_deadlock:
  assumes "sys_steps (sys_start jobs s) w" "wf_sbx s" "\<And>i. valid_job (job w i)" "under_way w i"
  shows "\<exists>j. under_way w j \<and> can_move w j"
proof -
  have inv: "lock_inv w"
    using lock_inv_steps[OF assms(1) lock_inv_start] assms(2) by simp
  have rows: "rows_ok (tab w)"
    using rows_steps[OF assms(1)] wf_rows_ok[OF assms(2)] by (simp add: sys_start_def)
  have ok: "(\<exists>r. pcs w j = P_done r) \<or> (pcs w j = P_lock \<and> lockTable (tab w)) \<or> can_move w j" for j
    unfolding can_move_def using inv by (intro tstep_ok[OF rows assms(3)]) (simp add: lock_inv_def)
  show ?thesis
  proof (cases "can_move w i")
    case False
    then have "lockTable (tab w)" using ok[of i] assms(4) by (auto simp: under_way_def)
    then obtain j where j: "holds (pcs w j)" using inv by (auto simp: lock_inv_def)
    then have "under_way w j" "pcs w j \<noteq> P_lock" by (auto simp: under_way_def)
    then show ?thesis using ok[of j] by (auto simp: under_way_def)
  qed (use assms(4) in blast)
qed

text \<open>Two requests of the same id, started from a table that is set up.\<close>

definition demo_two :: sys where
  "demo_two = sys_start (\<lambda>i. if i = 0 then Block 5 5 1 else Find 5 1) (sbx_begun sbx_boot)"

lemma demo_two_start: "wf_sbx (sbx_begun sbx_boot)" "\<not> lockTable (sbx_begun sbx_boot)" "started (sbx_begun sbx_boot) \<noteq> 0"
  by simp_all

lemma demo_two_locked: "\<exists>w. play [0, 0, 0] demo_two = Some w \<and> lockTable (tab w) \<and> pcs w 0 = P_look"
  using demo_two_start(2,3) by (simp add: demo_two_def sys_start_def ask_def)

theorem mutual_exclusion_witness:
  "{j. holds (pcs demo_two j)} = {} \<and> (\<exists>w. sys_steps demo_two w \<and> {j. holds (pcs w j)} = {0})"
proof -
  obtain w where w: "play [0, 0, 0] demo_two = Some w" "lockTable (tab w)" "pcs w 0 = P_look"
    using demo_two_locked by blast
  note two = mutual_exclusion[of "\<lambda>i. if i = 0 then Block 5 5 1 else Find 5 1" "sbx_begun sbx_boot",
      OF _ demo_two_start(2), folded demo_two_def]
  obtain i where i: "{j. holds (pcs w j)} = {i}" using two[OF play_steps[OF w(1)]] w(2) by auto
  have "0 \<in> {j. holds (pcs w j)}" using w(3) by simp
  then have "{j. holds (pcs w j)} = {0}" unfolding i by simp
  moreover have "sys_steps demo_two demo_two" by simp
  from two[OF this] have "{j. holds (pcs demo_two j)} = {}"
    using demo_two_start(2) by (simp add: demo_two_def sys_start_def)
  ultimately show ?thesis using play_steps[OF w(1)] by blast
qed

theorem no_deadlock_witness: "\<exists>j. under_way demo_two j \<and> can_move demo_two j"
proof (rule no_deadlock)
  show "sys_steps (sys_start (\<lambda>i. if i = 0 then Block 5 5 1 else Find 5 1) (sbx_begun sbx_boot)) demo_two"
    by (simp add: demo_two_def)
  show "under_way demo_two 0" by (simp add: under_way_def demo_two_def sys_start_def)
  show "valid_job (job demo_two i)" for i
    by (simp add: demo_two_def sys_start_def valid_job_def valid_nr_def valid_id_nonneg)
qed (rule demo_two_start)

text \<open>A thread whose access faults stays where it is.\<close>

lemma stuck_thread:
  assumes "sys_step v t" "pcs v 0 = P_look" "job v 0 = Block u u nr" "rows_ok (tab v)" "\<not> valid_nr nr"
  shows "pcs t 0 = P_look \<and> job t 0 = Block u u nr"
  using assms(1)
proof (cases rule: sys_step.cases)
  case (thread i p s)
  have "tstep (job v 0) (pcs v 0) (tab v) = Some (Inl OutOfBounds)"
    using assms rows_ok_lens(1)[OF assms(4)] by (simp add: look_def look_row_def)
  then have "i \<noteq> 0" using thread(2) by (metis option.inject sum.distinct(1))
  then show ?thesis using thread(1) assms(2,3) by simp
next
  case (next_request i r q)
  then have "i \<noteq> 0" using assms(2) by (cases "i = 0") simp_all
  then show ?thesis using next_request(1) assms(2,3) by simp
qed

text \<open>
  C10: one bad call number hangs the sandbox. Any user may ask to block itself from a call number
  the table has no row for; the access faults between the lock and the unlock, and if that stops
  the thread no other request ever enters a critical section again.
\<close>

theorem bad_number_hangs:
  assumes "jobs 0 = Block u u nr" "\<not> valid_nr nr" "wf_sbx s" "started s \<noteq> 0"
  shows "\<exists>w. sys_steps (sys_start jobs s) w
    \<and> (\<forall>w'. sys_steps w w' \<longrightarrow> {i. holds (pcs w' i)} = {0})"
proof -
  have "\<exists>w. play [0, 0, 0] (sys_start jobs s) = Some w \<and> pcs w 0 = P_look \<and> job w 0 = Block u u nr"
    using assms(1,3,4) by (simp add: sys_start_def ask_def)
  then obtain w where w: "play [0, 0, 0] (sys_start jobs s) = Some w" "pcs w 0 = P_look" "job w 0 = Block u u nr"
    by blast
  note reach = play_steps[OF w(1)]
  let ?stuck = "\<lambda>w. pcs w 0 = P_look \<and> job w 0 = Block u u nr \<and> rows_ok (tab w)"
  have stuck: "?stuck t" if "sys_step v t" "?stuck v" for v t
    using stuck_thread[OF that(1), of u nr] that assms(2) sized.step_keeps[OF that(1)] by simp
  have "?stuck w"
    using w(2,3) rows_steps[OF reach] wf_rows_ok[OF assms(3)] by (simp add: sys_start_def)
  then have stay: "?stuck w'" if "sys_steps w w'" for w'
    using invariant.steps_keep[of sys_step ?stuck w w'] that stuck
    unfolding sys_steps_def invariant_def by blast
  have "{i. holds (pcs w' i)} = {0}" if s: "sys_steps w w'" for w'
    using one_holder[of jobs s w' 0] sys_steps_trans[OF reach s] stay[OF s] assms(3) by simp
  then show ?thesis using reach by blast
qed

theorem bad_number_hangs_witness:
  "\<exists>w. sys_steps (sys_start (\<lambda>_. Block 5 5 437) (sbx_begun sbx_boot)) w
    \<and> (\<forall>w'. sys_steps w w' \<longrightarrow> {i. holds (pcs w' i)} = {0})"
  by (rule bad_number_hangs[of _ 5 437]) (simp_all add: valid_nr_def)

text \<open>
  A refusal can go uncounted. Two processes of a refused id ask at once; both are told that
  the call is refused, and the counter grows by one.
\<close>

theorem tally_lost:
  assumes "wf_sbx s" "valid_nr nr" "valid_id u" "refuses s u nr" "jobs 0 = Find u nr" "jobs 1 = Find u nr"
  shows "\<exists>w. sys_steps (sys_start jobs s) w \<and> pcs w 0 = P_done 1 \<and> pcs w 1 = P_done 1
    \<and> count (row (tab w) nr) = count (row s nr) + 1"
proof -
  note row = aget_row[OF wf_lens(1)[OF assms(1)] assms(2)]
  have hit: "row_test (Find u nr) (row s nr) = Inr True"
    using assms by (simp add: row_test_def refuses_def)
  let ?e = "(row s nr)\<lparr>count := count (row s nr) + 1\<rparr>"
  have twice: "count (row (put_row nr (x\<lparr>count := c\<rparr>) t) nr) = c" if "length (permList t) = 437" for x c t
    using that assms(2) by simp
  have again: "aget (permList (put_row nr ?e s)) (uint nr) = Inr ?e"
    using row aget_again[OF row] by (simp add: put_row_def)
  have "\<exists>w. play [0, 1, 0, 1, 0, 1] (sys_start jobs s) = Some w \<and> pcs w 0 = P_done 1 \<and> pcs w 1 = P_done 1
    \<and> count (row (tab w) nr) = count (row s nr) + 1"
    using assms(1,2,5,6) again
    by (simp add: sys_start_def look_def look_row_def row hit found_def write_row_def)
  then show ?thesis using play_steps by blast
qed

theorem tally_lost_witness:
  "\<exists>w. sys_steps (sys_start (\<lambda>_. Find 1000 1) demo) w \<and> pcs w 0 = P_done 1 \<and> pcs w 1 = P_done 1
    \<and> count (row (tab w) 1) = 1"
  using tally_lost[of demo 1 1000 "\<lambda>_. Find 1000 1"] by (simp add: valid_nr_def)

text \<open>
  C9: the first system calls after the boot race with each other. While one thread is about to
  set the table up, another may set it up too and block a call, with success; the first then
  clears the rows again and the block is gone, although no one has lifted it. The first need
  not be permitted to do anything.
\<close>

theorem start_race_wipes_block:
  assumes "valid_id u" "valid_nr nr" "jobs 0 = Block u u nr" "jobs 1 = Block x y n" "x \<noteq> y" "x \<noteq> 0"
  shows "\<exists>w. sys_steps (sys_start jobs sbx_boot) w \<and> pcs w 0 = P_done 0 \<and> pcs w 1 = P_done (- EPERM)
    \<and> \<not> refuses (tab w) u nr"
proof -
  let ?w0 = "sys_start jobs sbx_boot"
  define s1 where "s1 = after nr \<lparr>call = nr, count = 0, hash = (hash (row sbx_boot nr))[bucket u := u]\<rparr> []
    (sbx_begun sbx_boot)"
  have len: "length (permList s1) = 437" by (simp add: s1_def wf_lens)
  have "started sbx_boot = 0" by (simp add: sbx_boot_def)
  then have "\<exists>w. play [1] ?w0 = Some w \<and> w = ?w0\<lparr>pcs := (pcs ?w0)(1 := P_reset 0)\<rparr>"
    using assms(4) by (simp add: sys_start_def)
  then have w1: "sys_steps ?w0 (?w0\<lparr>pcs := (pcs ?w0)(1 := P_reset 0)\<rparr>)"
    using play_steps by blast
  let ?w1 = "?w0\<lparr>pcs := (pcs ?w0)(1 := P_reset 0)\<rparr>"
  have b: "sbx421_block u u nr sbx_boot = Inr (0, s1)"
    using assms(1,2) \<open>started sbx_boot = 0\<close> by (simp add: block_run row_block_def row_begun sbx_boot_rows reset_row_def
        block_log_def s1_def)
  obtain m where "solo m (Block u u nr) P_start sbx_boot = Some (Inr (0, s1))"
    using solo_handler[of sbx_boot "Block u u nr"] b by (auto simp: sbx_boot_def)
  then have w2: "sys_steps ?w1 (?w1\<lparr>pcs := (pcs ?w1)(0 := P_done 0), tab := s1\<rparr>)"
    using assms(3) by (intro solo_steps[of m]) (simp add: sys_start_def)
  let ?w2 = "?w1\<lparr>pcs := (pcs ?w1)(0 := P_done 0), tab := s1\<rparr>"
  let ?t = "printk ''Error: Process needs to be root to block other PID's calls'' []
    (s1\<lparr>permList := map reset_row (permList s1), started := 1\<rparr>)"
  have "solo (nat (437 - 0) + Suc (Suc (Suc (Suc 0)))) (Block x y n) (P_reset 0) s1 = Some (Inr (- EPERM, ?t))"
    using assms(5,6) len
    by (subst solo_reset_from) (simp_all add: init_rows_from ask_def)
  then have w3: "sys_steps ?w2 (?w2\<lparr>pcs := (pcs ?w2)(1 := P_done (- EPERM)), tab := ?t\<rparr>)"
    using assms(4) by (intro solo_steps[of "nat (437 - 0) + Suc (Suc (Suc (Suc 0)))"])
      (simp add: sys_start_def del: solo_pcs)
  have open_now: "\<not> refuses ?t u nr"
    using len assms(2) by (auto simp: refuses_def row_def reset_row_def valid_nr_def)
  let ?w3 = "?w2\<lparr>pcs := (pcs ?w2)(1 := P_done (- EPERM)), tab := ?t\<rparr>"
  have "sys_steps ?w0 ?w3" by (rule sys_steps_trans[OF w1 sys_steps_trans[OF w2 w3]])
  moreover have "pcs ?w3 0 = P_done 0" "pcs ?w3 1 = P_done (- EPERM)" by simp_all
  moreover have "\<not> refuses (tab ?w3) u nr" using open_now by simp
  ultimately show ?thesis by blast
qed

theorem start_race_wipes_block_witness:
  "\<exists>w. sys_steps (sys_start (\<lambda>i. if i = 0 then Block 5 5 1 else Block 1 2 1) sbx_boot) w
    \<and> pcs w 0 = P_done 0 \<and> \<not> refuses (tab w) 5 1"
  using start_race_wipes_block[of 5 1 "\<lambda>i. if i = 0 then Block 5 5 1 else Block 1 2 1" 1 2 1]
  by (auto simp: valid_nr_def valid_id_nonneg)

end
