(* ===== verification/Draft.thy ===== *)
theory Draft
  imports Prelude
begin

text \<open>
  The superseded draft of the sandbox, \<^verbatim>\<open>project 2/proj2/kernel/proj2_copy.c\<close>: an array of pointers
  to structures with a kernel hash table each, where \<^verbatim>\<open>proj2.c\<close> has rows with a fixed array.

  The file does not build; it is read as follows. \<open>getTableMain(nr)\<close> gives the structure
  \<open>permList[nr]\<close> points to, and the hash-table macros work on its \<open>h_hash_list\<close>. \<open>hashTable\<close> in
  \<open>kmalloc(sizeof(hashTable))\<close> is \<open>sysTable\<close>, \<open>porc\<close> is \<open>proc\<close>, and the undeclared key \<open>proc\<close> of
  \<open>findder_draft\<close> is its argument \<open>uid\<close>. Nothing allocates the structures, so at the boot every pointer
  is null. \<^verbatim>\<open>DEFINE_HASHTABLE\<close> in \<open>initalizeHash_draft\<close> declares a local array, which is dead when the
  function returns. The macros of \<^verbatim>\<open>linux/hashtable.h\<close> are parameters (\<open>hash_api\<close>): the entries
  \<open>hash_for_each_possible\<close> visits for a key, \<open>hash_add\<close> and \<open>hash_del\<close>.
\<close>

section \<open>State\<close>

record entry =
  proc :: u32
  call :: u64
  count :: u64

datatype 'h table_ptr = NullTable | DeadTable | Live 'h

record 'h top =
  top_call :: u64
  h_hash_list :: "'h table_ptr"

record 'h draft =
  started :: int
  permList :: "'h top option list"
  lockTable :: bool
  memory :: "bool list"            \<comment> \<open>whether the next calls of \<open>kmalloc\<close> succeed\<close>
  klog :: "kmsg list"

record 'h hash_api =
  possible :: "'h \<Rightarrow> u32 \<Rightarrow> entry list"
  hash_add :: "'h \<Rightarrow> entry \<Rightarrow> u32 \<Rightarrow> 'h"
  hash_del :: "'h \<Rightarrow> entry \<Rightarrow> 'h"

definition draft_boot :: "bool list \<Rightarrow> 'h draft" where
  "draft_boot mem = \<lparr>started = 0, permList = replicate 437 None, lockTable = False, memory = mem, klog = []\<rparr>"

definition printk :: "string \<Rightarrow> int list \<Rightarrow> 'h draft \<Rightarrow> 'h draft" where
  "printk fmt args s = s\<lparr>klog := klog s @ [(fmt, args)]\<rparr>"

definition mutex_lock :: "'h draft \<Rightarrow> 'h draft res" where
  "mutex_lock s = (if lockTable s then Inl Deadlock else Inr (s\<lparr>lockTable := True\<rparr>))"

definition mutex_unlock :: "'h draft \<Rightarrow> 'h draft" where
  "mutex_unlock s = s\<lparr>lockTable := False\<rparr>"

section \<open>The tables\<close>

definition deref :: "'a option \<Rightarrow> 'a res" where
  "deref p = (case p of None \<Rightarrow> Inl BadPointer | Some x \<Rightarrow> Inr x)"

definition getTableMain :: "u64 \<Rightarrow> 'h draft \<Rightarrow> 'h top res" where
  "getTableMain index s = andThen (aget (permList s) (uint index)) deref"

definition live :: "'h top \<Rightarrow> 'h res" where
  "live t = (case h_hash_list t of Live h \<Rightarrow> Inr h | _ \<Rightarrow> Inl BadPointer)"

function init_tops :: "int \<Rightarrow> 'h top option list \<Rightarrow> 'h top option list res" where
  "init_tops countm ps =
     (if countm \<le> 436 then
        andThen (aget ps countm) (\<lambda>p.
        andThen (deref p) (\<lambda>t.
        andThen (aset ps countm (Some (t\<lparr>h_hash_list := DeadTable\<rparr>))) (\<lambda>ps.
        init_tops (countm + 1) ps)))
      else Inr ps)"
  by pat_completeness auto
termination
  by (relation "measure (\<lambda>(countm, ps). nat (437 - countm))") auto

declare init_tops.simps [simp del]

definition initalizeHash_draft :: "'h draft \<Rightarrow> 'h draft res" where
  "initalizeHash_draft s = andThen (init_tops 0 (permList s)) (\<lambda>ps. Inr (s\<lparr>permList := ps\<rparr>))"

definition draft_start :: "'h draft \<Rightarrow> 'h draft res" where
  "draft_start s =
     (if started s = 0 then andThen (initalizeHash_draft s) (\<lambda>s. Inr (s\<lparr>started := 1\<rparr>)) else Inr s)"

definition put_table :: "u64 \<Rightarrow> 'h top \<Rightarrow> 'h \<Rightarrow> 'h draft \<Rightarrow> 'h draft" where
  "put_table nr t h s =
     s\<lparr>permList := (permList s)[unat nr := Some (t\<lparr>h_hash_list := Live h\<rparr>)]\<rparr>"

text \<open>The first entry the loop over the bucket of \<open>p\<close> stops at.\<close>

definition matches :: "u32 \<Rightarrow> u64 \<Rightarrow> entry \<Rightarrow> bool" where
  "matches p nr c \<longleftrightarrow> proc c = p \<and> call c = nr"

section \<open>The system calls\<close>

text \<open>\<open>kmalloc\<close>\<close>

definition kmalloc :: "'h draft \<Rightarrow> bool \<times> 'h draft" where
  "kmalloc s = (case memory s of [] \<Rightarrow> (False, s) | ok # ms \<Rightarrow> (ok, s\<lparr>memory := ms\<rparr>))"

text \<open>The body of both permitted branches of \<open>sbx421_block_draft\<close>, with the last \<open>return\<close>.\<close>

definition block_body :: "'h hash_api \<Rightarrow> u32 \<Rightarrow> u64 \<Rightarrow> 'h draft \<Rightarrow> (int \<times> 'h draft) res" where
  "block_body A p nr s =
     andThen (mutex_lock s) (\<lambda>s.
     andThen (getTableMain nr s) (\<lambda>t.
     andThen (live t) (\<lambda>h.
     case find (matches p nr) (possible A h p) of
       Some c \<Rightarrow>
         Inr (- EEXIST, mutex_unlock
           (printk ''Error: Proccess %d is already blocked for system call %ld'' [sint p, uint nr] s))
     | None \<Rightarrow>
         (let (ok, s) = kmalloc s in
          if \<not> ok then Inr (- ENOMEM, printk ''Error: Unable to allocate memeory'' [] s)
          else Inr (- EPERM, mutex_unlock
                 (put_table nr t (hash_add A h \<lparr>proc = p, call = nr, count = 0\<rparr> p) s))))))"

definition sbx421_block_draft :: "'h hash_api \<Rightarrow> u32 \<Rightarrow> u32 \<Rightarrow> u64 \<Rightarrow> 'h draft \<Rightarrow> (int \<times> 'h draft) res" where
  "sbx421_block_draft A uid p nr s =
     andThen (draft_start s) (\<lambda>s.
     if uid = p then block_body A p nr s
     else if uid = 0 then block_body A p nr s
     else Inr (- EPERM, printk ''Error: Process needs to be root to block other PID's calls'' [] s))"

definition unblock_body :: "'h hash_api \<Rightarrow> u32 \<Rightarrow> u64 \<Rightarrow> 'h draft \<Rightarrow> (int \<times> 'h draft) res" where
  "unblock_body A p nr s =
     andThen (mutex_lock s) (\<lambda>s.
     andThen (getTableMain nr s) (\<lambda>t.
     andThen (live t) (\<lambda>h.
     case find (matches p nr) (possible A h p) of
       Some c \<Rightarrow>
         Inr (0, mutex_unlock (put_table nr t (hash_del A h c)
           (printk ''Process %d can now use %ld'' [sint p, uint nr] s)))
     | None \<Rightarrow>
         Inr (- ENOENT, printk ''Error: Process %d is not blocked from using %ld'' [sint p, uint nr]
           (mutex_unlock s)))))"

definition sbx421_unblock_draft :: "'h hash_api \<Rightarrow> u32 \<Rightarrow> u32 \<Rightarrow> u64 \<Rightarrow> 'h draft \<Rightarrow> (int \<times> 'h draft) res" where
  "sbx421_unblock_draft A uid p nr s =
     andThen (draft_start s) (\<lambda>s.
     if uid = p then unblock_body A p nr s
     else if uid = 0 then unblock_body A p nr s
     else Inr (- EPERM, printk ''Error: Process needs to be root to block other PID's calls'' [] s))"

definition sbx421_count_draft :: "'h hash_api \<Rightarrow> u32 \<Rightarrow> u32 \<Rightarrow> u64 \<Rightarrow> 'h draft \<Rightarrow> (int \<times> 'h draft) res" where
  "sbx421_count_draft A uid p nr s =
     andThen (draft_start s) (\<lambda>s.
     if uid = 0 then
       (if p \<noteq> 0 then
          andThen (mutex_lock s) (\<lambda>s.
          andThen (getTableMain nr s) (\<lambda>t.
          andThen (live t) (\<lambda>h.
          case find (matches p nr) (possible A h p) of
            Some c \<Rightarrow>
              Inr (sint (count c), mutex_unlock
                (printk ''Process %d called systemcall %ld: %d times'' [sint p, uint nr, uint (count c)] s))
          | None \<Rightarrow>
              Inr (- EEXIST, printk ''Error: Proccess %d is not found with %ld'' [sint p, uint nr]
                (mutex_unlock s)))))
        else Inr (- EINVAL, printk ''Error: Invalid process to check'' [] s))
     else Inr (- EPERM, printk ''Error: Process needs to be root'' [] s))"

text \<open>The loop of \<open>findder_draft\<close> asks the structure, not the entry, for its call number.\<close>

definition findder_draft :: "'h hash_api \<Rightarrow> u32 \<Rightarrow> u64 \<Rightarrow> 'h draft \<Rightarrow> (int \<times> 'h draft) res" where
  "findder_draft A uid nr s =
     andThen (draft_start s) (\<lambda>s.
     andThen (getTableMain nr s) (\<lambda>t.
     andThen (live t) (\<lambda>h.
     if list_ex (\<lambda>c. nr = top_call t) (possible A h uid)
     then Inr (1, printk ''Error: UID %d is blocked from using %ld'' [sint uid, uint nr] s)
     else Inr (0, printk ''UID %d is not blocked from using %ld'' [sint uid, uint nr] s))))"

section \<open>Requests\<close>

datatype draft_req =
    D_Block u32 u32 u64
  | D_Unblock u32 u32 u64
  | D_Count u32 u32 u64
  | D_Find u32 u64

fun draft_do :: "'h hash_api \<Rightarrow> draft_req \<Rightarrow> 'h draft \<Rightarrow> (int \<times> 'h draft) res" where
  "draft_do A (D_Block uid p nr) s = sbx421_block_draft A uid p nr s"
| "draft_do A (D_Unblock uid p nr) s = sbx421_unblock_draft A uid p nr s"
| "draft_do A (D_Count uid p nr) s = sbx421_count_draft A uid p nr s"
| "draft_do A (D_Find uid nr) s = findder_draft A uid nr s"

text \<open>Whether the caller may ask, and the call number asked about.\<close>

fun permitted :: "draft_req \<Rightarrow> bool" where
  "permitted (D_Block uid p nr) = (uid = p \<or> uid = 0)"
| "permitted (D_Unblock uid p nr) = (uid = p \<or> uid = 0)"
| "permitted (D_Count uid p nr) = (uid = 0 \<and> p \<noteq> 0)"
| "permitted (D_Find uid nr) = True"

fun locks :: "draft_req \<Rightarrow> bool" where
  "locks (D_Find uid nr) = False"
| "locks q = permitted q"

fun asked :: "draft_req \<Rightarrow> u64" where
  "asked (D_Block uid p nr) = nr"
| "asked (D_Unblock uid p nr) = nr"
| "asked (D_Count uid p nr) = nr"
| "asked (D_Find uid nr) = nr"

section \<open>The set-up leaves no table\<close>

definition dead :: "'h top option \<Rightarrow> bool" where
  "dead p \<longleftrightarrow> (\<exists>t. p = Some t \<and> h_hash_list t = DeadTable)"

lemma init_tops_dead:
  assumes "init_tops k ps = Inr ps'" "0 \<le> k" "length ps = 437" "list_all dead (take (nat k) ps)"
  shows "length ps' = 437 \<and> list_all dead ps'"
  using assms
proof (induction k ps rule: init_tops.induct)
  case (1 k ps)
  show ?case
  proof (cases "k \<le> 436")
    case True
    then obtain p t ps1 where s: "aget ps k = Inr p" "deref p = Inr t"
      "aset ps k (Some (t\<lparr>h_hash_list := DeadTable\<rparr>)) = Inr ps1" "init_tops (k + 1) ps1 = Inr ps'"
      using "1.prems"(1) by (subst (asm) init_tops.simps) (auto simp: andThen_eq_Inr)
    have ps1: "ps1 = ps[nat k := Some (t\<lparr>h_hash_list := DeadTable\<rparr>)]"
      using s(3) by (auto simp: aset_def split: if_splits)
    have "nat (k + 1) = Suc (nat k)" "nat k < length ps" using True "1.prems"(2,3) by auto
    then have "take (nat (k + 1)) ps1 = take (nat k) ps @ [Some (t\<lparr>h_hash_list := DeadTable\<rparr>)]"
      by (simp add: ps1 take_Suc_conv_app_nth)
    moreover have "dead (Some (t\<lparr>h_hash_list := DeadTable\<rparr>))" by (simp add: dead_def)
    ultimately have "list_all dead (take (nat (k + 1)) ps1)"
      using "1.prems"(4) by simp
    then show ?thesis
      using "1.IH"[OF True s(1,2,3) s(4)] "1.prems"(2,3) by (simp add: ps1)
  next
    case False
    then have "ps' = ps" "take (nat k) ps = ps" using "1.prems" by (simp_all add: init_tops.simps[of k])
    then show ?thesis using "1.prems" by simp
  qed
qed

lemma init_tops_fault:
  assumes "init_tops k ps = Inl e" "0 \<le> k" "length ps = 437"
  shows "e = BadPointer"
  using assms
proof (induction k ps rule: init_tops.induct)
  case (1 k ps)
  then have k: "k \<le> 436" by (auto simp: init_tops.simps[of k ps] split: if_splits)
  then have "aget ps k = Inr (ps ! nat k)" using "1.prems" by simp
  show ?case
  proof (cases "ps ! nat k")
    case None
    then show ?thesis
      using "1.prems" k \<open>aget ps k = _\<close> by (simp add: init_tops.simps[of k ps] deref_def)
  next
    case (Some t)
    let ?ps = "ps[nat k := Some (t\<lparr>h_hash_list := DeadTable\<rparr>)]"
    have "aset ps k (Some (t\<lparr>h_hash_list := DeadTable\<rparr>)) = Inr ?ps" using k "1.prems" by simp
    then show ?thesis
      using "1.IH"[OF k \<open>aget ps k = _\<close>, of t ?ps] "1.prems" k Some \<open>aget ps k = _\<close>
      by (simp add: init_tops.simps[of k ps] deref_def)
  qed
qed

lemma start_dead:
  assumes "started s = 0" "length (permList s) = 437"
  shows "draft_start s = Inl BadPointer \<or> (\<exists>s'. draft_start s = Inr s' \<and> length (permList s') = 437
    \<and> list_all dead (permList s') \<and> lockTable s' = lockTable s)"
proof (cases "init_tops 0 (permList s)")
  case (Inl e)
  then show ?thesis
    using assms init_tops_fault[OF Inl] by (simp add: draft_start_def initalizeHash_draft_def)
next
  case (Inr ps)
  then show ?thesis
    using assms init_tops_dead[OF Inr] by (simp add: draft_start_def initalizeHash_draft_def)
qed

lemma dead_table:
  assumes "list_all dead (permList s)" "length (permList s) = 437" "unat nr < 437"
  shows "\<exists>t. getTableMain nr s = Inr t \<and> live t = Inl BadPointer"
proof -
  have "uint nr < 437" using assms(3) by (metis of_nat_less_iff of_nat_numeral uint_nat)
  moreover have "dead (permList s ! unat nr)" using assms by (simp add: list_all_length)
  ultimately show ?thesis
    using assms(2) by (auto simp: getTableMain_def dead_def deref_def live_def)
qed

section \<open>Properties\<close>

text \<open>A table of one bucket, for the examples.\<close>

definition list_api :: "entry list hash_api" where
  "list_api = \<lparr>possible = \<lambda>h k. h, hash_add = \<lambda>h e k. e # h, hash_del = \<lambda>h e. remove1 e h\<rparr>"

definition demo_draft :: "entry list draft" where
  "demo_draft = \<lparr>started = 1, permList = [Some \<lparr>top_call = 0, h_hash_list = Live []\<rparr>], lockTable = False,
     memory = [False], klog = []\<rparr>"

text \<open>
  C28: the draft never works. Whatever the pointers of its table are, and so from the boot on too,
  the first permitted request about a call number of the table follows a null pointer in the
  set-up or, had the structures been there, the dead table the set-up has put into them.
\<close>

theorem draft_never_works:
  assumes "started s = 0" "length (permList s) = 437" "\<not> lockTable s" "permitted q" "unat (asked q) < 437"
  shows "draft_do A q s = Inl BadPointer"
proof (cases "draft_start s")
  case (Inl e)
  then show ?thesis
    using start_dead[OF assms(1,2)]
    by (cases q) (auto simp: sbx421_block_draft_def sbx421_unblock_draft_def sbx421_count_draft_def findder_draft_def)
next
  case (Inr s1)
  then have s1: "length (permList s1) = 437" "list_all dead (permList s1)" "\<not> lockTable s1"
    using start_dead[OF assms(1,2)] assms(3) by auto
  have d: "\<exists>t. getTableMain (asked q) (s1\<lparr>lockTable := b\<rparr>) = Inr t \<and> live t = Inl BadPointer" for b
    using dead_table[of "s1\<lparr>lockTable := b\<rparr>" "asked q"] s1 assms(5) by simp
  obtain t where "getTableMain (asked q) (s1\<lparr>lockTable := True\<rparr>) = Inr t" "live t = Inl BadPointer"
    using d by blast
  moreover obtain u where "getTableMain (asked q) s1 = Inr u" "live u = Inl BadPointer"
    using dead_table[OF s1(2,1) assms(5)] by blast
  ultimately show ?thesis
    using assms(4) s1(3) Inr
    by (cases q) (auto simp: sbx421_block_draft_def sbx421_unblock_draft_def sbx421_count_draft_def findder_draft_def
        block_body_def unblock_body_def mutex_lock_def)
qed

theorem draft_never_works_witness:
  "draft_do list_api (D_Block 5 5 1) (draft_boot []) = Inl BadPointer"
  by (rule draft_never_works) (simp_all add: draft_boot_def)

text \<open>
  In the draft running out of memory is final. When a block reports that there is no memory,
  it has kept the lock, and every later request that needs the lock waits for it for ever.
\<close>

theorem draft_enomem_keeps_lock:
  assumes "sbx421_block_draft A uid p nr s = Inr (- ENOMEM, s')" "locks q"
  shows "draft_do A q s' = Inl Deadlock"
proof -
  obtain s1 where s1: "draft_start s = Inr s1" "block_body A p nr s1 = Inr (- ENOMEM, s')"
    using assms(1) by (auto simp: sbx421_block_draft_def andThen_eq_Inr errno_defs split: if_splits)
  have st: "started s1 \<noteq> 0"
    using s1(1) by (auto simp: draft_start_def andThen_eq_Inr split: if_splits)
  have "lockTable s' \<and> started s' = started s1"
    using s1(2)
    by (auto simp: block_body_def andThen_eq_Inr kmalloc_def mutex_lock_def mutex_unlock_def printk_def
        errno_defs split: if_splits option.splits list.splits)
  then show ?thesis
    using assms(2) st
    by (cases q) (auto simp: sbx421_block_draft_def sbx421_unblock_draft_def sbx421_count_draft_def block_body_def
        unblock_body_def mutex_lock_def draft_start_def)
qed

theorem draft_enomem_keeps_lock_witness:
  "\<exists>s'. sbx421_block_draft list_api 5 5 0 demo_draft = Inr (- ENOMEM, s')
    \<and> draft_do list_api (D_Unblock 5 5 0) s' = Inl Deadlock"
proof -
  obtain s' where s': "sbx421_block_draft list_api 5 5 0 demo_draft = Inr (- ENOMEM, s')"
    by (simp add: sbx421_block_draft_def draft_start_def block_body_def mutex_lock_def getTableMain_def deref_def
        live_def kmalloc_def demo_draft_def list_api_def printk_def)
  then show ?thesis using draft_enomem_keeps_lock[OF s', of "D_Unblock 5 5 0"] by simp
qed

text \<open>
  A block of the draft never reports success: whatever happens, its result is an error, also
  when the entry has been added.
\<close>

theorem draft_block_reports_error:
  assumes "sbx421_block_draft A uid p nr s = Inr (r, s')"
  shows "r \<in> {- EEXIST, - ENOMEM, - EPERM}"
  using assms
  by (auto simp: sbx421_block_draft_def block_body_def andThen_eq_Inr Let_def case_prod_beta
      split: if_splits option.splits)

theorem draft_block_reports_error_witness:
  "fst (projr (sbx421_block_draft list_api 5 5 0 (demo_draft\<lparr>memory := [True]\<rparr>))) \<in> {- EEXIST, - ENOMEM, - EPERM}"
proof -
  obtain r s' where s': "sbx421_block_draft list_api 5 5 0 (demo_draft\<lparr>memory := [True]\<rparr>) = Inr (r, s')"
    by (simp add: sbx421_block_draft_def draft_start_def block_body_def mutex_lock_def getTableMain_def deref_def
        live_def kmalloc_def demo_draft_def list_api_def printk_def)
  then show ?thesis using draft_block_reports_error[OF s'] by simp
qed

end
