(* ===== verification/Mailbox_Spec.thy ===== *)
theory Mailbox_Spec
  imports Mailbox_Props
begin

text \<open>
  What the mailbox module implements, without its lists: a table from mailbox ids to the number
  of waiting messages and the set of allowed processes, with a system call for each of the ten
  requests. The handlers of \<open>Mailbox\<close> refine it over any lists with the laws of \<open>kernel_list\<close>: from a
  state the table stands for, each answers what the table answers, crashes where the table says
  so, and leaves a state the new table stands for. The table keeps the module's own oddities (the
  first mailbox cannot be made, a shutdown leaves lists nobody can walk), because they are what
  the handlers do. The states it stands for include those with mailboxes, which the module as
  loaded never reaches (see \<open>Mailbox_Props\<close>): the refinement is about the handlers, not the start.
\<close>

section \<open>The table\<close>

record abox =
  waiting :: nat
  allowed :: "u32 set"

record spec =
  started :: bool
  memory :: "bool list"          \<comment> \<open>whether each coming allocation succeeds\<close>
  walkable :: bool               \<comment> \<open>the list of mailboxes has not been shut down\<close>
  table :: "u64 \<rightharpoonup> abox"

definition spec_boot :: "bool list \<Rightarrow> spec" where
  "spec_boot al = \<lparr>started = False, memory = al, walkable = True, table = Map.empty\<rparr>"

definition take_memory :: "spec \<Rightarrow> bool \<times> spec" where
  "take_memory S = (case memory S of [] \<Rightarrow> (False, S) | b # bs \<Rightarrow> (b, S\<lparr>memory := bs\<rparr>))"

definition spec_init :: "u32 \<Rightarrow> spec \<Rightarrow> (int \<times> spec) res" where
  "spec_init uid S = Inr (if started S then - EEXIST else if uid \<noteq> 0 then - EPERM else - EINVAL, S)"

definition spec_shutdown :: "u32 \<Rightarrow> spec \<Rightarrow> (int \<times> spec) res" where
  "spec_shutdown uid S =
     (if uid \<noteq> 0 then Inr (- EPERM, S)
      else if \<not> walkable S \<or> table S \<noteq> Map.empty then Inl BadPointer
      else Inr (0, S\<lparr>started := False, walkable := False\<rparr>))"

definition spec_create :: "u32 \<Rightarrow> u64 \<Rightarrow> spec \<Rightarrow> (int \<times> spec) res" where
  "spec_create uid i S =
     (if \<not> started S then Inr (- ENOENT, S)
      else if i < MAXID then Inr (- EFAULT, S)
      else if uid \<noteq> 0 then Inr (- EPERM, S)
      else if table S i \<noteq> None then Inr (- EEXIST, S)
      else
        (let (ok, S) = take_memory S in
         if table S = Map.empty then Inr (- ENOMEM, S)
         else if \<not> ok then Inl BadPointer
         else Inr (0, S\<lparr>table := (table S)(i \<mapsto> \<lparr>waiting = 0, allowed = {}\<rparr>)\<rparr>)))"

definition spec_destroy :: "u32 \<Rightarrow> u64 \<Rightarrow> spec \<Rightarrow> (int \<times> spec) res" where
  "spec_destroy uid i S =
     (if \<not> started S then Inr (- ENOENT, S)
      else if uid \<noteq> 0 then Inr (- EPERM, S)
      else
        (case table S i of
           None \<Rightarrow> Inr (- ENOENT, S)
         | Some b \<Rightarrow> if waiting b \<noteq> 0 then Inr (- EINVAL, S) else Inr (0, S\<lparr>table := (table S)(i := None)\<rparr>)))"

definition spec_count :: "u64 \<Rightarrow> spec \<Rightarrow> (int \<times> spec) res" where
  "spec_count i S =
     (if \<not> walkable S then Inl BadPointer
      else Inr (if table S i = None then - EEXIST else 0, S))"

text \<open>Sending and receiving are one case: the caller's id never equals a mailbox id.\<close>

definition spec_transfer :: "u64 \<Rightarrow> spec \<Rightarrow> (int \<times> spec) res" where
  "spec_transfer i S = Inr (if \<not> started S then - ENOENT else if i < MAXID then - EFAULT else - EPERM, S)"

definition spec_length :: "spec \<Rightarrow> (int \<times> spec) res" where
  "spec_length S =
     (if \<not> walkable S then Inl BadPointer
      else Inr (if \<exists>b\<in>ran (table S). waiting b = 0 then - EINVAL else 0, S))"

definition spec_acl_add :: "u32 \<Rightarrow> u64 \<Rightarrow> u32 \<Rightarrow> spec \<Rightarrow> (int \<times> spec) res" where
  "spec_acl_add uid i p S =
     (if uid \<noteq> 0 then Inr (- EPERM, S)
      else if \<not> walkable S then Inl BadPointer
      else
        (case table S i of
           None \<Rightarrow> Inr (- EINVAL, S)
         | Some b \<Rightarrow>
             if p \<in> allowed b then Inr (- EINVAL, S)
             else
               (let (ok, S) = take_memory S in
                if \<not> ok then Inr (- ENOMEM, S)
                else Inr (0, S\<lparr>table := (table S)(i \<mapsto> b\<lparr>allowed := insert p (allowed b)\<rparr>)\<rparr>))))"

definition spec_acl_remove :: "u32 \<Rightarrow> u64 \<Rightarrow> u32 \<Rightarrow> spec \<Rightarrow> (int \<times> spec) res" where
  "spec_acl_remove uid i p S =
     (if uid \<noteq> 0 then Inr (- EPERM, S)
      else if \<not> walkable S then Inl BadPointer
      else
        (case table S i of
           None \<Rightarrow> Inr (- EINVAL, S)
         | Some b \<Rightarrow>
             if p \<notin> allowed b then Inr (- EINVAL, S)
             else Inr (0, S\<lparr>table := (table S)(i \<mapsto> b\<lparr>allowed := allowed b - {p}\<rparr>)\<rparr>)))"

fun spec_do :: "mbx_req \<Rightarrow> spec \<Rightarrow> (int \<times> spec) res" where
  "spec_do (Init u ptrs prob) S = spec_init u S"
| "spec_do (Shutdown u) S = spec_shutdown u S"
| "spec_do (Create u i) S = spec_create u i S"
| "spec_do (Destroy u i) S = spec_destroy u i S"
| "spec_do (Count u i) S = spec_count i S"
| "spec_do (Send u i len) S = spec_transfer i S"
| "spec_do (Recv u i) S = spec_transfer i S"
| "spec_do (Length u i) S = spec_length S"
| "spec_do (Acl_add u i p) S = spec_acl_add u i p S"
| "spec_do (Acl_remove u i p) S = spec_acl_remove u i p S"

fun spec_run :: "mbx_req list \<Rightarrow> spec \<Rightarrow> (int list \<times> spec) res" where
  "spec_run [] S = Inr ([], S)"
| "spec_run (q # qs) S =
     andThen (spec_do q S) (\<lambda>(r, S).
     andThen (spec_run qs S) (\<lambda>(rs, S). Inr (r # rs, S)))"

section \<open>The states a table stands for\<close>

text \<open>A mailbox in memory: its address, and the addresses of its messages and access entries.\<close>

type_synonym place = "nat \<times> nat list \<times> nat list"

fun box_ok :: "('l \<Rightarrow> loc \<Rightarrow> loc list \<Rightarrow> bool) \<Rightarrow> 'l mbx \<Rightarrow> place \<Rightarrow> bool" where
  "box_ok ring s (a, ms, cs) \<longleftrightarrow>
     unat (box_count (the (boxes s a))) = length ms
     \<and> ring (lists s) (BoxMsgs a) (map MsgNode ms)
     \<and> ring (lists s) (BoxAcl a) (map AclNode cs)
     \<and> set cs \<subseteq> dom (acls s) \<and> inj_on (acls s) (set cs)"

fun entry_of :: "'l mbx \<Rightarrow> place \<Rightarrow> u64 \<times> abox" where
  "entry_of s (a, ms, cs) = (id_of s a, \<lparr>waiting = length ms, allowed = (the \<circ> acls s) ` set cs\<rparr>)"

definition entries :: "place list \<Rightarrow> nat list" where
  "entries L = concat (map (snd \<circ> snd) L)"

definition layout :: "('l \<Rightarrow> loc \<Rightarrow> loc list \<Rightarrow> bool) \<Rightarrow> 'l mbx \<Rightarrow> place list \<Rightarrow> bool" where
  "layout ring s L \<longleftrightarrow> box_list ring s (map fst L) \<and> list_all (box_ok ring s) L
     \<and> distinct (map (id_of s \<circ> fst) L) \<and> distinct (entries L)"

text \<open>The blocks \<open>kmalloc\<close> will give are not in use.\<close>

definition fresh :: "'l mbx \<Rightarrow> place list \<Rightarrow> bool" where
  "fresh s L \<longleftrightarrow> distinct (map the (filter (\<lambda>x. x \<noteq> None) (kmallocs s)))
     \<and> (\<forall>a. Some a \<in> set (kmallocs s) \<longrightarrow> a \<notin> set (map fst L) \<union> set (entries L))"

definition models ::
  "'l list_api \<Rightarrow> ('l \<Rightarrow> loc \<Rightarrow> loc list \<Rightarrow> bool) \<Rightarrow> 'l mbx \<Rightarrow> spec \<Rightarrow> bool" where
  "models A ring s S \<longleftrightarrow>
     started S = (MAILBOXC s \<noteq> 0) \<and> memory S = map (\<lambda>x. x \<noteq> None) (kmallocs s)
     \<and> (if walkable S then \<exists>L. layout ring s L \<and> fresh s L \<and> table S = map_of (map (entry_of s) L)
        else next_loc A Mail (lists s) = Inr Poison1 \<and> \<not> started S)"

definition matches ::
  "'l list_api \<Rightarrow> ('l \<Rightarrow> loc \<Rightarrow> loc list \<Rightarrow> bool) \<Rightarrow> ('a \<times> 'l mbx) res \<Rightarrow> ('a \<times> spec) res \<Rightarrow> bool" where
  "matches A ring x X \<longleftrightarrow>
     (case X of Inl e \<Rightarrow> x = Inl e | Inr (r, S) \<Rightarrow> \<exists>s. x = Inr (r, s) \<and> models A ring s S)"

lemma matches_simps [simp]:
  "matches A ring x (Inl e) \<longleftrightarrow> x = Inl e"
  "matches A ring x (Inr (r, S)) \<longleftrightarrow> (\<exists>s. x = Inr (r, s) \<and> models A ring s S)"
  by (simp_all add: matches_def)

text \<open>The log does not matter.\<close>

lemma entry_of_cong:
  "boxes s' = boxes s \<Longrightarrow> acls s' = acls s \<Longrightarrow> entry_of s' = entry_of s"
  by (auto simp: fun_eq_iff id_of_def)

lemma log_models [simp]:
  "id_of (s\<lparr>mlog := l\<rparr>) = id_of s" "entry_of (s\<lparr>mlog := l\<rparr>) = entry_of s"
  "box_ok ring (s\<lparr>mlog := l\<rparr>) = box_ok ring s" "layout ring (s\<lparr>mlog := l\<rparr>) = layout ring s"
  "fresh (s\<lparr>mlog := l\<rparr>) = fresh s" "models A ring (s\<lparr>mlog := l\<rparr>) = models A ring s"
proof -
  show 1: "id_of (s\<lparr>mlog := l\<rparr>) = id_of s" by (simp add: fun_eq_iff id_of_def)
  show 2: "entry_of (s\<lparr>mlog := l\<rparr>) = entry_of s" by (rule entry_of_cong) simp_all
  show 3: "box_ok ring (s\<lparr>mlog := l\<rparr>) = box_ok ring s" by (auto simp: fun_eq_iff)
  show 4: "layout ring (s\<lparr>mlog := l\<rparr>) = layout ring s"
    by (simp add: fun_eq_iff layout_def box_list_def 1 3)
  show 5: "fresh (s\<lparr>mlog := l\<rparr>) = fresh s" by (simp add: fun_eq_iff fresh_def)
  show "models A ring (s\<lparr>mlog := l\<rparr>) = models A ring s" by (simp add: fun_eq_iff models_def 2 4 5)
qed

lemma say_models [simp]:
  "box_ok ring (say f xs s) = box_ok ring s" "layout ring (say f xs s) = layout ring s"
  "fresh (say f xs s) = fresh s" "entry_of (say f xs s) = entry_of s"
  "models A ring (say f xs s) = models A ring s"
  by (simp_all add: say_def)

text \<open>An id is in the table exactly when a mailbox in memory has it.\<close>

lemma layout_addresses: "layout ring s L \<Longrightarrow> fst x = a \<Longrightarrow> x \<in> set L \<Longrightarrow> a \<in> dom (boxes s)"
  by (auto simp: layout_def box_list_def)

lemma fst_entry_of [simp]: "fst (entry_of s x) = id_of s (fst x)"
  by (cases x) simp

lemma table_None:
  "map_of (map (entry_of s) L) i = None \<longleftrightarrow> i \<notin> id_of s ` set (map fst L)"
  by (auto simp: map_of_eq_None_iff image_iff)

lemma table_Some:
  assumes "layout ring s L" "map_of (map (entry_of s) L) i = Some b"
  obtains pre a ms cs post where "L = pre @ (a, ms, cs) # post" "id_of s a = i"
    "i \<notin> id_of s ` set (map fst (pre @ post))" "b = \<lparr>waiting = length ms, allowed = (the \<circ> acls s) ` set cs\<rparr>"
proof -
  obtain x where x: "x \<in> set L" "entry_of s x = (i, b)"
    using map_of_SomeD[OF assms(2)] by auto
  obtain a ms cs where e: "x = (a, ms, cs)" by (cases x) blast
  obtain pre post where L: "L = pre @ x # post" using split_list[OF x(1)] by blast
  have "i \<notin> id_of s ` set (map fst (pre @ post))"
    using assms(1) x(2) e unfolding L layout_def by (auto simp: image_iff)
  then show ?thesis using that L e x(2) by auto
qed

section \<open>Walks\<close>

text \<open>A state that differs in the log only.\<close>

definition logged :: "'l mbx \<Rightarrow> 'l mbx \<Rightarrow> bool" where
  "logged s t \<longleftrightarrow> (\<exists>ms. t = s\<lparr>mlog := mlog s @ ms\<rparr>)"

lemma logged_intros [intro]:
  "logged s s" "logged s (say f xs s)" "logged s t \<Longrightarrow> logged t u \<Longrightarrow> logged s u"
proof -
  show "logged s s" unfolding logged_def by (rule exI[of _ "[]"]) simp
qed (auto simp: logged_def say_def)

lemma logged_same:
  "logged s t \<Longrightarrow> lists t = lists s \<and> boxes t = boxes s \<and> acls t = acls s \<and> models A ring t = models A ring s"
  by (auto simp: logged_def)

text \<open>A body that looks for the mailbox \<open>i\<close> passes over the others.\<close>

definition skips :: "('r, 'l) body \<Rightarrow> 'l mbx \<Rightarrow> u64 \<Rightarrow> place list \<Rightarrow> bool" where
  "skips body s i L \<longleftrightarrow> (\<forall>a\<in>set (map fst L). id_of s a \<noteq> i \<longrightarrow> body (BoxNode a) s = Inr (None, s))"

lemma box_skips:
  assumes "layout ring s L"
  shows "skips (create_box i) s i L" "skips (destroy_box A i) s i L" "skips (count_box u i) s i L"
    "skips (acl_add_box A i p) s i L" "skips (acl_remove_box A i p) s i L"
proof -
  have "box_at (BoxNode a) s = Inr (a, the (boxes s a))" if "a \<in> set (map fst L)" for a
    by (rule box_list_at[of ring s "map fst L"]) (use assms that in \<open>simp_all add: layout_def\<close>)
  then show "skips (create_box i) s i L" "skips (destroy_box A i) s i L" "skips (count_box u i) s i L"
    "skips (acl_add_box A i p) s i L" "skips (acl_remove_box A i p) s i L"
    by (simp_all add: skips_def body_defs id_of_def del: set_map list.set_map)
qed

lemma layout_ring: "layout ring s L \<Longrightarrow> ring (lists s) Mail (map BoxNode (map fst L))"
  by (simp add: layout_def box_list_def)

lemma layout_ok: "layout ring s L \<Longrightarrow> x \<in> set L \<Longrightarrow> box_ok ring s x"
  by (simp add: layout_def list_all_iff)

lemma layout_box:
  assumes "layout ring s L" "L = pre @ (a, ms, cs) # post"
  shows "box_at (BoxNode a) s = Inr (a, the (boxes s a))" "box_ok ring s (a, ms, cs)"
    "boxes s a = Some (the (boxes s a))"
  using assms box_list_at[of ring s "map fst L" a] by (auto simp: layout_def box_list_def)

context kernel_list begin

lemma walk_missing:
  assumes "layout ring s L" "i \<notin> id_of s ` set (map fst L)" "skips body s i L"
  shows "for_each A Mail body s = Inr (None, s)"
  by (rule walk_all[OF layout_ring[OF assms(1)]]) (use assms(2,3) in \<open>auto simp: skips_def\<close>)

lemma walk_found:
  assumes "layout ring s L" "L = pre @ (a, ms, cs) # post" "i \<notin> id_of s ` set (map fst (pre @ post))"
    and "skips body s i L" "body (BoxNode a) s = Inr (Some r, s')"
  shows "for_each A Mail body s = Inr (Some r, s')"
proof -
  have "body z s = Inr (None, s)" if z: "z \<in> set (map BoxNode (map fst pre))" for z
  proof -
    obtain b where b: "z = BoxNode b" "b \<in> set (map fst pre)" using z unfolding set_map by blast
    have "id_of s b \<noteq> i" "b \<in> set (map fst L)" using b(2) assms(2,3) by auto
    then show ?thesis using assms(4) b(1) unfolding skips_def by blast
  qed
  then show ?thesis
    using walk_to[of s Mail "map BoxNode (map fst pre)" "BoxNode a" "map BoxNode (map fst post)" body]
      layout_ring[OF assms(1)] assms(2,5) by simp
qed

lemma walk_safe_all_from:
  assumes "ring (lists s) h (ws @ xs)" "\<And>z. z \<in> set xs \<Longrightarrow> body z s = Inr (None, s)"
  shows "for_each_safe_from A h body (hd (xs @ [h])) s = Some (Inr (None, s))"
  using assms
proof (induction xs arbitrary: ws)
  case Nil
  then show ?case using next_head[of "lists s" h ws] by (subst for_each_safe_from.simps) simp
next
  case (Cons z xs)
  have "z \<noteq> h" using ring_distinct[OF Cons.prems(1)] by auto
  moreover have "next_loc A z (lists s) = Inr (hd (xs @ [h]))"
    using next_elem[of "lists s" h ws z xs] Cons.prems(1) by simp
  moreover have "body z s = Inr (None, s)" using Cons.prems(2) by simp
  moreover have "for_each_safe_from A h body (hd (xs @ [h])) s = Some (Inr (None, s))"
    using Cons.IH[of "ws @ [z]"] Cons.prems by simp
  ultimately show ?case by (subst for_each_safe_from.simps) simp
qed

lemma walk_safe_all:
  assumes "ring (lists s) h xs" "\<And>z. z \<in> set xs \<Longrightarrow> body z s = Inr (None, s)"
  shows "for_each_safe A h body s = Inr (None, s)"
  using walk_safe_all_from[of s h "[]" xs body] next_head[OF assms(1)] assms by (simp add: for_each_safe_def)

lemma walk_safe_missing:
  assumes "layout ring s L" "i \<notin> id_of s ` set (map fst L)" "skips body s i L"
  shows "for_each_safe A Mail body s = Inr (None, s)"
  by (rule walk_safe_all[OF layout_ring[OF assms(1)]]) (use assms(2,3) in \<open>auto simp: skips_def\<close>)

text \<open>A walk whose turns only log, over the elements \<open>f x\<close>; it ends at the first that stops.\<close>

lemma walk_logging_from:
  assumes "ring (lists s) h (ws @ map f xs)"
    and "\<And>x t. x \<in> set xs \<Longrightarrow> logged s t \<Longrightarrow>
      \<exists>t'. body (f x) t = Inr (if stop x then Some r else None, t') \<and> logged t t'"
  shows "\<exists>t. for_each_from A h body (hd (map f xs @ [h])) s
    = Some (Inr (if \<exists>x\<in>set xs. stop x then Some r else None, t)) \<and> logged s t"
  using assms
proof (induction xs arbitrary: ws s)
  case (Cons x xs)
  have "f x \<noteq> h" using ring_distinct[OF Cons.prems(1)] by auto
  obtain s1 where s1: "body (f x) s = Inr (if stop x then Some r else None, s1)" "logged s s1"
    using Cons.prems(2)[of x s] by auto
  have "next_loc A (f x) (lists s1) = Inr (hd (map f xs @ [h]))"
    using next_elem[of "lists s" h ws "f x" "map f xs"] Cons.prems(1) logged_same[OF s1(2)] by simp
  then have step: "for_each_from A h body (f x) s = (if stop x then Some (Inr (Some r, s1))
      else for_each_from A h body (hd (map f xs @ [h])) s1)"
    using \<open>f x \<noteq> h\<close> s1 by (subst for_each_from.simps) simp
  have "\<exists>t. for_each_from A h body (hd (map f xs @ [h])) s1
      = Some (Inr (if \<exists>x\<in>set xs. stop x then Some r else None, t)) \<and> logged s1 t"
  proof (rule Cons.IH[of s1 "ws @ [f x]"])
    show "ring (lists s1) h ((ws @ [f x]) @ map f xs)" using Cons.prems(1) logged_same[OF s1(2)] by simp
    show "\<exists>t'. body (f y) t = Inr (if stop y then Some r else None, t') \<and> logged t t'"
      if "y \<in> set xs" "logged s1 t" for y t
      using Cons.prems(2)[of y t] logged_intros(3)[OF s1(2) that(2)] that(1) by simp
  qed
  then show ?case using step s1(2) by auto
next
  case Nil
  have "for_each_from A h body h s = Some (Inr (None, s))" by (subst for_each_from.simps) simp
  then show ?case by auto
qed

lemma walk_logging:
  assumes "ring (lists s) h (map f xs)"
    and "\<And>x t. x \<in> set xs \<Longrightarrow> logged s t \<Longrightarrow>
      \<exists>t'. body (f x) t = Inr (if stop x then Some r else None, t') \<and> logged t t'"
  shows "\<exists>t. for_each A h body s = Inr (if \<exists>x\<in>set xs. stop x then Some r else None, t) \<and> logged s t"
  using walk_logging_from[of s h "[]" f xs body stop r] assms next_head[OF assms(1)]
  by (auto simp: for_each_def)

end

end
