(* ===== verification/Mailbox_Sim.thy ===== *)
theory Mailbox_Sim
  imports Mailbox_Spec
begin

text \<open>
  The simulation of the calls that change no mailbox, of creation and of destruction: one lemma
  per system call shows that the handler answers what the table of \<open>Mailbox_Spec\<close> answers and leaves
  a state the new table stands for.
\<close>

section \<open>Calls that change no mailbox\<close>

lemma models_started: "models A ring s S \<Longrightarrow> started S \<longleftrightarrow> MAILBOXC s \<noteq> 0"
  by (simp add: models_def)

lemma id_invalid: "i = 0 \<or> i < MAXID \<longleftrightarrow> i < MAXID" for i :: u64
  by (auto simp: MAXID_def)

lemma mbx_sim_init:
  assumes "models A ring s S"
  shows "matches A ring (mbx421_init uid ptrs prob s) (spec_init uid S)"
  using init_fails[of uid ptrs prob s] assms models_started[OF assms]
  by (auto simp: spec_init_def)

lemma mbx_sim_transfer:
  assumes "models A ring s S"
  shows "matches A ring (mbx421_send A copied uid i len s) (spec_transfer i S)"
    "matches A ring (mbx421_recv A uid i s) (spec_transfer i S)"
proof -
  have "ucast uid \<noteq> i" if "\<not> i < MAXID"
    by (rule user_id_no_mailbox_id[OF that])
  then show "matches A ring (mbx421_send A copied uid i len s) (spec_transfer i S)"
    "matches A ring (mbx421_recv A uid i s) (spec_transfer i S)"
    using assms models_started[OF assms]
    by (auto simp: mbx421_send_def mbx421_recv_def spec_transfer_def Let_def id_invalid)
qed

text \<open>Where the list has been shut down, its walks fault.\<close>

lemma not_walkable:
  assumes "models A ring s S" "\<not> walkable S" "lists t = lists s"
  shows "for_each A Mail (shutdown_box A) t = Inl BadPointer"
    "for_each A Mail (count_box uid i) t = Inl BadPointer"
    "for_each A Mail (length_box A uid i) t = Inl BadPointer"
    "for_each A Mail (acl_add_box A i p) t = Inl BadPointer"
    "for_each A Mail (acl_remove_box A i p) t = Inl BadPointer"
proof -
  have "next_loc A Mail (lists t) = Inr Poison1" using assms by (simp add: models_def)
  note walk = poisoned_walk[OF this]
  show "for_each A Mail (shutdown_box A) t = Inl BadPointer"
    "for_each A Mail (count_box uid i) t = Inl BadPointer"
    "for_each A Mail (length_box A uid i) t = Inl BadPointer"
    "for_each A Mail (acl_add_box A i p) t = Inl BadPointer"
    "for_each A Mail (acl_remove_box A i p) t = Inl BadPointer"
    by (rule walk; simp add: body_defs)+
qed

lemma modelsI:
  "layout ring s L \<Longrightarrow> fresh s L \<Longrightarrow> map_of (map (entry_of s) L) = table S \<Longrightarrow> walkable S \<Longrightarrow>
   started S = (MAILBOXC s \<noteq> 0) \<Longrightarrow> memory S = map (\<lambda>x. x \<noteq> None) (kmallocs s) \<Longrightarrow> models A ring s S"
  by (auto simp: models_def)

lemma models_layout:
  assumes "models A ring s S" "walkable S"
  obtains L where "layout ring s L" "fresh s L" "table S = map_of (map (entry_of s) L)"
  using assms by (auto simp: models_def)

context kernel_list begin

lemma mbx_sim_count:
  assumes "models A ring s S"
  shows "matches A ring (mbx421_count A uid i s) (spec_count i S)"
proof (cases "walkable S")
  case False
  then show ?thesis
    using not_walkable(2)[OF assms False, of s] by (simp add: mbx421_count_def spec_count_def)
next
  case True
  obtain L where L: "layout ring s L" "table S = map_of (map (entry_of s) L)"
    using models_layout[OF assms True] by metis
  show ?thesis
  proof (cases "table S i")
    case None
    then have "for_each A Mail (count_box uid i) s = Inr (None, s)"
      using walk_missing[OF L(1)] box_skips(3)[OF L(1)] unfolding L(2) table_None by blast
    then show ?thesis using None True assms by (simp add: mbx421_count_def spec_count_def)
  next
    case (Some b)
    obtain pre a ms cs post where at: "L = pre @ (a, ms, cs) # post" "id_of s a = i"
      "i \<notin> id_of s ` set (map fst (pre @ post))"
      using table_Some[OF L(1) Some[unfolded L(2)]] by metis
    obtain f ys where "count_box uid i (BoxNode a) s = Inr (Some 0, say f ys s)"
      using layout_box(1)[OF L(1) at(1)] at(2) by (simp add: count_box_def id_of_def) metis
    then have "for_each A Mail (count_box uid i) s = Inr (Some 0, say f ys s)"
      by (rule walk_found[OF L(1) at(1,3) box_skips(3)[OF L(1)]])
    then show ?thesis using Some True assms by (simp add: mbx421_count_def spec_count_def)
  qed
qed

lemma length_turn:
  assumes "layout ring s L" "L = pre @ (a, ms, cs) # post" "logged s t"
  shows "\<exists>t'. length_box A uid i (BoxNode a) t = Inr (if ms = [] then Some (- EINVAL) else None, t') \<and> logged t t'"
proof -
  have t: "lists t = lists s" "boxes t = boxes s" using logged_same[OF assms(3)] by auto
  have b: "box_at (BoxNode a) t = Inr (a, the (boxes s a))"
    using layout_box(1)[OF assms(1,2)] t by simp
  have ok: "unat (box_count (the (boxes s a))) = length ms" "ring (lists s) (BoxMsgs a) (map MsgNode ms)"
    using layout_box(2)[OF assms(1,2)] by simp_all
  then have "box_count (the (boxes s a)) = 0 \<longleftrightarrow> ms = []"
    by (metis length_0_conv unat_eq_0)
  moreover have "next_loc A (BoxMsgs a) (lists s) = Inr (hd (map MsgNode ms @ [BoxMsgs a]))"
    by (rule next_head[OF ok(2)])
  ultimately show ?thesis
    using b t by (cases ms) (auto simp: length_box_def Let_def)
qed

lemma length_walk:
  assumes "layout ring s L"
  shows "\<exists>t. for_each A Mail (length_box A uid i) s
    = Inr (if \<exists>x\<in>set L. fst (snd x) = [] then Some (- EINVAL) else None, t) \<and> logged s t"
proof (rule walk_logging[where f = "BoxNode \<circ> fst"])
  show "ring (lists s) Mail (map (BoxNode \<circ> fst) L)" using layout_ring[OF assms] by simp
  show "\<exists>t'. length_box A uid i ((BoxNode \<circ> fst) x) t
      = Inr (if fst (snd x) = [] then Some (- EINVAL) else None, t') \<and> logged t t'"
    if x: "x \<in> set L" and t: "logged s t" for x t
  proof -
    obtain a ms cs where e: "x = (a, ms, cs)" by (cases x) blast
    obtain pre post where "L = pre @ (a, ms, cs) # post" using split_list[OF x] e by auto
    from length_turn[OF assms this t, of uid i] show ?thesis by (simp add: e)
  qed
qed

lemma mbx_sim_length:
  assumes "models A ring s S"
  shows "matches A ring (mbx421_length A uid i s) (spec_length S)"
proof (cases "walkable S")
  case False
  then show ?thesis
    using not_walkable(3)[OF assms False, of s] by (simp add: mbx421_length_def spec_length_def)
next
  case True
  obtain L where L: "layout ring s L" "table S = map_of (map (entry_of s) L)"
    using models_layout[OF assms True] by metis
  have "distinct (map fst (map (entry_of s) L))" using L(1) by (simp add: layout_def comp_def)
  then have "ran (table S) = snd ` set (map (entry_of s) L)" unfolding L(2) by (rule ran_distinct)
  then have "(\<exists>b\<in>ran (table S). waiting b = 0) \<longleftrightarrow> (\<exists>x\<in>set L. fst (snd x) = [])"
    by (auto simp: image_iff) force+
  moreover obtain t where t: "for_each A Mail (length_box A uid i) s
    = Inr (if \<exists>x\<in>set L. fst (snd x) = [] then Some (- EINVAL) else None, t)" "logged s t"
    using length_walk[OF L(1)] by blast
  moreover have "models A ring t S" using assms logged_same[OF t(2)] by simp
  ultimately show ?thesis using True by (simp add: mbx421_length_def spec_length_def)
qed

lemma mbx_sim_shutdown:
  assumes "models A ring s S"
  shows "matches A ring (mbx421_shutdown A uid s) (spec_shutdown uid S)"
proof (cases "uid = 0")
  case False
  then show ?thesis using assms by (simp add: mbx421_shutdown_def spec_shutdown_def Let_def)
next
  case uid: True
  show ?thesis
  proof (cases "walkable S")
    case False
    then show ?thesis
      using uid not_walkable(1)[OF assms False]
      by (simp add: mbx421_shutdown_def spec_shutdown_def Let_def)
  next
    case True
    obtain L where L: "layout ring s L" "table S = map_of (map (entry_of s) L)"
      using models_layout[OF assms True] by metis
    show ?thesis
    proof (cases L)
      case Nil
      then have "box_list ring s []" using L(1) by (simp add: layout_def)
      then obtain s' where "mbx421_shutdown A 0 s = Inr (0, s')" "next_loc A Mail (lists s') = Inr Poison1"
        "MAILBOXC s' = 0" "kmallocs s' = kmallocs s"
        using shutdown_empty by blast
      then show ?thesis
        using uid True L(2) Nil assms by (simp add: spec_shutdown_def models_def)
    next
      case (Cons x L')
      obtain a ms cs where x: "x = (a, ms, cs)" by (cases x) blast
      note ok = layout_box(2)[OF L(1), of "[]" a ms cs L']
      have "mbx421_shutdown A 0 s = Inl BadPointer"
        by (rule shutdown_stops[of s a "map fst L'" "map MsgNode ms" "map AclNode cs"])
          (use L(1) Cons x ok in \<open>auto simp: layout_def\<close>)
      moreover have "table S \<noteq> Map.empty" using L(2) Cons x by simp
      ultimately show ?thesis using uid True by (simp add: spec_shutdown_def)
    qed
  qed
qed

end

section \<open>Calls that change a mailbox\<close>

text \<open>What the change of a list leaves of a mailbox elsewhere.\<close>

lemma box_keeps:
  assumes "box_ok ring s (b, ms, cs)"
    and "\<forall>g zs. ring (lists s) g zs \<longrightarrow> set (g # zs) \<inter> X = {} \<longrightarrow> ring (lists s') g zs"
    and "insert (BoxMsgs b) (insert (BoxAcl b) (MsgNode ` set ms \<union> AclNode ` set cs)) \<inter> X = {}"
    and "box_id (the (boxes s' b)) = box_id (the (boxes s b))"
    and "box_count (the (boxes s' b)) = box_count (the (boxes s b))"
    and "\<And>c. c \<in> set cs \<Longrightarrow> acls s' c = acls s c"
  shows "box_ok ring s' (b, ms, cs)" "entry_of s' (b, ms, cs) = entry_of s (b, ms, cs)"
proof -
  have "set (BoxMsgs b # map MsgNode ms) \<inter> X = {}" "set (BoxAcl b # map AclNode cs) \<inter> X = {}"
    using assms(3) by (simp; blast)+
  then have "ring (lists s') (BoxMsgs b) (map MsgNode ms)" "ring (lists s') (BoxAcl b) (map AclNode cs)"
    using assms(1,2) by (simp_all del: list.set)
  moreover have "inj_on (acls s') (set cs)" "set cs \<subseteq> dom (acls s')"
    using assms(1,6) by (auto simp: inj_on_def dom_def)
  ultimately show "box_ok ring s' (b, ms, cs)" using assms(1,5) by simp
  show "entry_of s' (b, ms, cs) = entry_of s (b, ms, cs)"
    using assms(4,6) by (simp add: id_of_def)
qed

lemma layout_append:
  assumes "layout ring s L" "box_list ring s' (map fst L @ [a])" "a \<notin> set (map fst L)"
    and "boxes s' = (boxes s)(a \<mapsto> \<lparr>aclC = None, box_id = i, box_count = 0\<rparr>)"
    and "ring (lists s') (BoxMsgs a) []" "ring (lists s') (BoxAcl a) []"
    and "leaves ring ({Mail, BoxMsgs a, BoxAcl a} \<union> BoxNode ` set (a # map fst L)) s s'"
    and "i \<notin> id_of s ` set (map fst L)"
  shows "layout ring s' (L @ [(a, [], [])])"
    "map (entry_of s') (L @ [(a, [], [])]) = map (entry_of s) L @ [(i, \<lparr>waiting = 0, allowed = {}\<rparr>)]"
proof -
  let ?X = "{Mail, BoxMsgs a, BoxAcl a} \<union> BoxNode ` set (a # map fst L)"
  have keep: "box_ok ring s' x \<and> entry_of s' x = entry_of s x" if x: "x \<in> set L" for x
  proof -
    obtain b ms cs where e: "x = (b, ms, cs)" by (cases x) blast
    then have "b \<noteq> a" using assms(3) x by force
    then have same: "boxes s' b = boxes s b" using assms(4) by simp
    have ok: "box_ok ring s (b, ms, cs)" using layout_ok[OF assms(1) x] unfolding e .
    have apart: "insert (BoxMsgs b) (insert (BoxAcl b) (MsgNode ` set ms \<union> AclNode ` set cs)) \<inter> ?X = {}"
      using \<open>b \<noteq> a\<close> by auto
    have frame: "\<forall>g zs. ring (lists s) g zs \<longrightarrow> set (g # zs) \<inter> ?X = {} \<longrightarrow> ring (lists s') g zs"
      and "acls s' = acls s" using assms(7) unfolding leaves_def by blast+
    then show ?thesis using box_keeps[OF ok frame apart] same unfolding e by metis
  qed
  have ids: "id_of s' b = (if b = a then i else id_of s b)" for b by (simp add: id_of_def assms(4))
  have new: "map (id_of s' \<circ> fst) (L @ [(a, [], [])]) = map (id_of s \<circ> fst) L @ [i]"
    using assms(3) ids by force
  have "i \<notin> set (map (id_of s \<circ> fst) L)" using assms(8) by auto
  then have "distinct (map (id_of s' \<circ> fst) (L @ [(a, [], [])]))"
    unfolding new using assms(1) by (simp add: layout_def)
  moreover have "distinct (entries (L @ [(a, [], [])]))"
    using assms(1) by (simp add: layout_def entries_def)
  moreover have "list_all (box_ok ring s') (L @ [(a, [], [])])"
    using keep assms(4-6) by (simp add: list_all_iff)
  moreover have "box_list ring s' (map fst (L @ [(a, [], [])]))" using assms(2) by simp
  ultimately show "layout ring s' (L @ [(a, [], [])])" unfolding layout_def by blast
  show "map (entry_of s') (L @ [(a, [], [])]) = map (entry_of s) L @ [(i, \<lparr>waiting = 0, allowed = {}\<rparr>)]"
    using keep ids by simp
qed

text \<open>Allocation.\<close>

lemma fresh_next:
  assumes "fresh s L" "kmallocs s = Some a # al"
  shows "a \<notin> set (map fst L)" "a \<notin> set (entries L)"
  using assms by (auto simp: fresh_def)

lemma fresh_taken:
  assumes "fresh s L" "kmallocs s = Some a # al" "kmallocs s' = al"
    and "set (map fst L') \<union> set (entries L') \<subseteq> insert a (set (map fst L) \<union> set (entries L))"
  shows "fresh s' L'"
proof -
  have "Some a \<notin> set al" using assms(1,2) by (force simp: fresh_def)
  moreover have "\<forall>b. Some b \<in> set al \<longrightarrow> b \<notin> set (map fst L) \<union> set (entries L)"
    using assms(1,2) by (simp add: fresh_def)
  moreover have "distinct (map the (filter (\<lambda>x. x \<noteq> None) al))" using assms(1,2) by (simp add: fresh_def)
  ultimately show ?thesis using assms(3,4) unfolding fresh_def by blast
qed

lemma fresh_less:
  assumes "fresh s L" "kmallocs s' = kmallocs s \<or> kmallocs s' = tl (kmallocs s)"
    and "set (map fst L') \<union> set (entries L') \<subseteq> set (map fst L) \<union> set (entries L)"
  shows "fresh s' L'"
proof -
  have "\<forall>b. Some b \<in> set (kmallocs s') \<longrightarrow> Some b \<in> set (kmallocs s)"
    using assms(2) by (metis list.set_sel(2) tl_Nil)
  moreover have "distinct (map the (filter (\<lambda>x. x \<noteq> None) (kmallocs s')))"
    using assms(1,2) unfolding fresh_def by (cases "kmallocs s") (auto split: if_splits)
  ultimately show ?thesis using assms(1,3) unfolding fresh_def by blast
qed

lemma kmalloc_tl:
  "kmalloc s = (case kmallocs s of [] \<Rightarrow> None | x # xs \<Rightarrow> x, s\<lparr>kmallocs := tl (kmallocs s)\<rparr>)"
  by (simp add: kmalloc_def split: list.splits)

text \<open>Taking a block alone keeps what the state stands for.\<close>

lemma take_memory_tl: "take_memory S = (memory S \<noteq> [] \<and> hd (memory S), S\<lparr>memory := tl (memory S)\<rparr>)"
  by (simp add: take_memory_def split: list.splits)

lemma models_tl:
  assumes "models A ring s S"
  shows "models A ring (s\<lparr>kmallocs := tl (kmallocs s)\<rparr>) (S\<lparr>memory := tl (memory S)\<rparr>)"
proof -
  let ?s = "s\<lparr>kmallocs := tl (kmallocs s)\<rparr>"
  have ids: "id_of ?s = id_of s" by (simp add: fun_eq_iff id_of_def)
  have ok: "box_ok ring ?s = box_ok ring s" by (auto simp: fun_eq_iff)
  have ent: "entry_of ?s = entry_of s" by (rule entry_of_cong) simp_all
  have "layout ring ?s L = layout ring s L" for L by (simp add: layout_def box_list_def ids ok)
  moreover have "fresh s L \<Longrightarrow> fresh ?s L" for L by (rule fresh_less[of s L]) simp_all
  ultimately show ?thesis using assms by (cases "walkable S"; simp add: models_def ent map_tl; blast)
qed

lemma models_memory:
  "models A ring s S \<Longrightarrow> memory S = map (\<lambda>x. x \<noteq> None) (kmallocs s)"
  by (simp add: models_def)

lemma id_split:
  assumes "layout ring s (pre @ (a, ms, cs) # post)" "id_of s a = i"
  shows "i \<notin> id_of s ` set (map fst (pre @ post))"
  using assms by (auto simp: layout_def image_iff)

context kernel_list begin

lemma first_mailbox:
  "layout ring s L \<Longrightarrow> next_loc A Mail (lists s) = Inr (case L of [] \<Rightarrow> Mail | x # xs \<Rightarrow> BoxNode (fst x))"
  using next_head[OF layout_ring[of ring s L]] by (cases L) simp_all

lemma create_exists:
  assumes "layout ring s L" "i \<in> id_of s ` set (map fst L)"
  shows "for_each A Mail (create_box i) s = Inr (Some (- EEXIST), say ''Error: Mailbox already exists'' [] s)"
proof -
  obtain a ms cs where "(a, ms, cs) \<in> set L" and i: "id_of s a = i" using assms(2) by auto
  then obtain pre post where L: "L = pre @ (a, ms, cs) # post" by (meson split_list)
  have "create_box i (BoxNode a) s = Inr (Some (- EEXIST), say ''Error: Mailbox already exists'' [] s)"
    using layout_box(1)[OF assms(1) L] i by (simp add: create_box_def id_of_def)
  then show ?thesis
    by (rule walk_found[OF assms(1) L id_split box_skips(1)[OF assms(1)], rotated 2])
      (use assms(1) L i in simp_all)
qed

lemma mbx_sim_create_fails:
  assumes "models A ring s S" "layout ring s L" "table S = map_of (map (entry_of s) L)"
    and "MAILBOXC s \<noteq> 0" "MAXID \<le> i" "table S i = None"
    and "L = [] \<or> (case kmallocs s of [] \<Rightarrow> None | x # xs \<Rightarrow> x) = None"
  shows "matches A ring (mbx421_create A 0 i s) (spec_create 0 i S)"
proof -
  let ?s = "say ''Creating mailbox for %lu'' [uint i] s"
  have i: "i \<noteq> 0" "\<not> i < MAXID" using assms(5) by (auto simp: not_less MAXID_def)
  have L': "layout ring ?s L" using assms(2) by simp
  have "for_each A Mail (create_box i) ?s = Inr (None, ?s)"
    by (rule walk_missing[OF L' _ box_skips(1)[OF L']])
      (use assms(3,6) in \<open>simp add: table_None\<close>)
  moreover have "\<not> (memory S \<noteq> [] \<and> hd (memory S))" if "L \<noteq> []"
    using assms(7) that models_memory[OF assms(1)] by (auto split: list.splits)
  moreover have "table S = Map.empty \<longleftrightarrow> L = []" unfolding assms(3) by simp
  ultimately show ?thesis
    using assms(4,6,7) i models_started[OF assms(1)] first_mailbox[OF assms(2)]
      models_tl[of A ring ?s S] assms(1)
    by (auto simp: mbx421_create_def spec_create_def Let_def kmalloc_tl take_memory_tl
        split: list.splits)
qed

lemma mbx_sim_create_appends:
  assumes "models A ring s S" "layout ring s L" "fresh s L" "table S = map_of (map (entry_of s) L)"
    and "MAILBOXC s \<noteq> 0" "MAXID \<le> i" "table S i = None" "L \<noteq> []" "kmallocs s = Some a # al"
  shows "matches A ring (mbx421_create A 0 i s) (spec_create 0 i S)"
proof -
  note a = fresh_next[OF assms(3,9)]
  have new: "i \<notin> id_of s ` set (map fst L)" using assms(4,7) by (metis table_None)
  have bl: "box_list ring s (map fst L)" "map fst L \<noteq> []" using assms(2,8) by (simp_all add: layout_def)
  obtain s' where s': "mbx421_create A 0 i s = Inr (0, s')" "box_list ring s' (map fst L @ [a])"
    "boxes s' = (boxes s)(a \<mapsto> \<lparr>aclC = None, box_id = i, box_count = 0\<rparr>)"
    "ring (lists s') (BoxMsgs a) []" "ring (lists s') (BoxAcl a) []" "kmallocs s' = al"
    "leaves ring ({Mail, BoxMsgs a, BoxAcl a} \<union> BoxNode ` set (a # map fst L)) s s'"
    using create_appends[OF bl assms(5,6) new assms(9) a(1)] by blast
  note lay = layout_append[OF assms(2) s'(2) a(1) s'(3-5) s'(7) new]
  let ?S = "S\<lparr>memory := tl (memory S), table := (table S)(i \<mapsto> \<lparr>waiting = 0, allowed = {}\<rparr>)\<rparr>"
  have mem: "memory S = True # map (\<lambda>x. x \<noteq> None) al" using models_memory[OF assms(1)] assms(9) by simp
  have st: "started S" using models_started[OF assms(1)] assms(5) by simp
  have "models A ring s' ?S"
  proof (rule modelsI[OF lay(1)])
    show "fresh s' (L @ [(a, [], [])])"
      by (rule fresh_taken[OF assms(3,9) s'(6)]) (auto simp: entries_def)
    show "map_of (map (entry_of s') (L @ [(a, [], [])])) = table ?S"
      unfolding lay(2) using assms(4,7) by (auto simp: fun_eq_iff map_add_def split: option.splits)
    show "walkable ?S" using assms(1) st by (simp add: models_def split: if_splits)
  qed (use s'(6,7) st assms(5) mem in \<open>simp_all add: leaves_def\<close>)
  moreover have "table S \<noteq> Map.empty" using assms(4,8) by simp
  ultimately show ?thesis
    using s'(1) assms(7) leD[OF assms(6)] st mem by (simp add: spec_create_def take_memory_tl)
qed

lemma mbx_sim_create:
  assumes "models A ring s S"
  shows "matches A ring (mbx421_create A uid i s) (spec_create uid i S)"
proof (cases "MAILBOXC s \<noteq> 0 \<and> \<not> i < MAXID \<and> uid = 0")
  case False
  then show ?thesis
    using assms models_started[OF assms] by (auto simp: mbx421_create_def spec_create_def id_invalid)
next
  case ok: True
  then have walk: "walkable S" and st: "started S" using assms by (auto simp: models_def split: if_splits)
  have max: "MAXID \<le> i" "i \<noteq> 0" using ok by (auto simp: not_less MAXID_def)
  obtain L where L: "layout ring s L" "fresh s L" "table S = map_of (map (entry_of s) L)"
    using models_layout[OF assms walk] .
  consider (exists) "table S i \<noteq> None"
    | (fails) "table S i = None" "L = [] \<or> (case kmallocs s of [] \<Rightarrow> None | x # xs \<Rightarrow> x) = None"
    | (new) a al where "table S i = None" "L \<noteq> []" "kmallocs s = Some a # al"
    by (cases "kmallocs s") auto
  then show ?thesis
  proof cases
    case exists
    let ?s = "say ''Creating mailbox for %lu'' [uint i] s"
    have "layout ring ?s L" using L(1) by simp
    then have "for_each A Mail (create_box i) ?s
        = Inr (Some (- EEXIST), say ''Error: Mailbox already exists'' [] ?s)"
      by (rule create_exists) (use exists in \<open>simp add: L(3) table_None\<close>)
    then show ?thesis using exists ok st first_mailbox[OF L(1)] max assms
      by (simp add: mbx421_create_def spec_create_def Let_def)
  next
    case fails
    then show ?thesis using mbx_sim_create_fails[OF assms L(1,3)] ok max(1) by simp
  next
    case new
    then show ?thesis using mbx_sim_create_appends[OF assms L] ok max(1) by simp
  qed
qed

end

subsection \<open>Destruction\<close>

lemma layout_less:
  assumes "layout ring s L" "set L' \<subseteq> set L" "box_list ring s' (map fst L')"
    and "\<And>b. b \<in> set (map fst L') \<Longrightarrow> boxes s' b = boxes s b"
    and "leaves ring (insert Mail (BoxNode ` Y)) s s'"
    and "distinct (map (id_of s \<circ> fst) L')" "distinct (entries L')"
  shows "layout ring s' L'" "map (entry_of s') L' = map (entry_of s) L'"
proof -
  have keep: "box_ok ring s' x \<and> entry_of s' x = entry_of s x" if x: "x \<in> set L'" for x
  proof -
    obtain b ms cs where e: "x = (b, ms, cs)" by (cases x) blast
    have ok: "box_ok ring s (b, ms, cs)" using layout_ok[OF assms(1)] assms(2) x unfolding e by blast
    have same: "boxes s' b = boxes s b" using assms(4) x unfolding e by force
    have apart: "insert (BoxMsgs b) (insert (BoxAcl b) (MsgNode ` set ms \<union> AclNode ` set cs))
      \<inter> insert Mail (BoxNode ` Y) = {}" by auto
    have frame: "\<forall>g zs. ring (lists s) g zs \<longrightarrow> set (g # zs) \<inter> insert Mail (BoxNode ` Y) = {} \<longrightarrow> ring (lists s') g zs"
      and "acls s' = acls s" using assms(5) unfolding leaves_def by blast+
    then show ?thesis using box_keeps[OF ok frame apart] same unfolding e by metis
  qed
  have "map (id_of s' \<circ> fst) L' = map (id_of s \<circ> fst) L'" using assms(4) by (simp add: id_of_def)
  then have "distinct (map (id_of s' \<circ> fst) L')" using assms(6) by metis
  moreover have "list_all (box_ok ring s') L'" using keep by (simp add: list_all_iff)
  ultimately show "layout ring s' L'" using assms(3,7) unfolding layout_def by blast
  show "map (entry_of s') L' = map (entry_of s) L'" using keep by simp
qed

lemma layout_drop:
  assumes "layout ring s (pre @ x # post)"
  shows "distinct (map (id_of s \<circ> fst) (pre @ post))" "distinct (entries (pre @ post))"
  using assms by (auto simp: layout_def entries_def)

lemma map_of_drop:
  assumes "i \<notin> set (map fst (xs @ ys))"
  shows "map_of (xs @ ys) = (map_of (xs @ (i, v) # ys))(i := None)"
proof -
  have "map_of xs i = None" "map_of ys i = None" using assms by (auto simp: map_of_eq_None_iff)
  then show ?thesis by (auto simp: fun_eq_iff map_add_def split: option.splits)
qed

lemma map_of_put:
  assumes "i \<notin> set (map fst (xs @ ys))"
  shows "map_of (xs @ (i, w) # ys) = (map_of (xs @ (i, v) # ys))(i \<mapsto> w)"
proof -
  have "map_of xs i = None" "map_of ys i = None" using assms by (auto simp: map_of_eq_None_iff)
  then show ?thesis by (auto simp: fun_eq_iff map_add_def split: option.splits)
qed

lemma ids_apart:
  "i \<notin> id_of s ` set (map fst (pre @ post)) \<Longrightarrow>
   i \<notin> set (map fst (map (entry_of s) pre @ map (entry_of s) post))"
  by (auto simp: image_image)

lemma table_put:
  assumes "L = pre @ (a, ms, cs) # post" "id_of s a = i"
    and "i \<notin> id_of s ` set (map fst (pre @ post))"
  shows "map_of (map (entry_of s) pre @ (i, w) # map (entry_of s) post) = (map_of (map (entry_of s) L))(i \<mapsto> w)"
proof -
  obtain v where "entry_of s (a, ms, cs) = (i, v)" using assms(2) by simp
  then have "map (entry_of s) L = map (entry_of s) pre @ (i, v) # map (entry_of s) post" using assms(1) by simp
  then show ?thesis using map_of_put[OF ids_apart[OF assms(3)]] by metis
qed

context kernel_list begin

lemma destroy_found:
  assumes "layout ring s L" "L = pre @ (a, ms, cs) # post" "id_of s a = i"
    and "i \<notin> id_of s ` set (map fst (pre @ post))" "MAILBOXC s \<noteq> 0" "K = (if ms = [] then pre @ post else L)"
  shows "\<exists>s'. mbx421_destroy A 0 i s = Inr (if ms = [] then 0 else - EINVAL, s') \<and> layout ring s' K
    \<and> map (entry_of s') K = map (entry_of s) K \<and> kmallocs s' = kmallocs s \<and> MAILBOXC s' = MAILBOXC s"
proof -
  have bl: "box_list ring s (map fst pre @ a # map fst post)" using assms(1,2) by (simp add: layout_def)
  have "box_count (the (boxes s a)) = 0 \<longleftrightarrow> ms = []"
    using layout_box(2)[OF assms(1,2)] by (metis box_ok.simps length_0_conv unat_eq_0)
  moreover have "i \<notin> id_of s ` set (map fst pre)" using assms(4) by auto
  ultimately obtain s' where s': "mbx421_destroy A 0 i s = Inr (if ms = [] then 0 else - EINVAL, s')"
    "if ms = [] then box_list ring s' (map fst (pre @ post)) \<and> boxes s' = (boxes s)(a := None)
     else box_list ring s' (map fst L) \<and> boxes s' = boxes s" "kmallocs s' = kmallocs s"
    "leaves ring (insert Mail (BoxNode ` set (map fst pre @ a # map fst post))) s s'"
    using destroy_removes[OF bl assms(5,3)] assms(2) by auto
  have a: "a \<notin> set (map fst (pre @ post))" using assms(3,4) by auto
  have 1: "set K \<subseteq> set L" "box_list ring s' (map fst K)" using s'(2) assms(2) by (auto simp: assms(6))
  have 2: "boxes s' b = boxes s b" if "b \<in> set (map fst K)" for b
    using s'(2) a that by (auto simp: assms(6) split: if_splits)
  have 3: "distinct (map (id_of s \<circ> fst) K)" "distinct (entries K)"
    using layout_drop[of ring s pre "(a, ms, cs)" post] assms(1,2) by (auto simp: assms(6) layout_def)
  have "layout ring s' K" "map (entry_of s') K = map (entry_of s) K"
    by (rule layout_less[OF assms(1) 1 2 s'(4) 3]; simp)+
  then show ?thesis using s'(1,3,4) by (auto simp: leaves_def)
qed

lemma mbx_sim_destroy:
  assumes "models A ring s S"
  shows "matches A ring (mbx421_destroy A uid i s) (spec_destroy uid i S)"
proof (cases "MAILBOXC s \<noteq> 0 \<and> uid = 0")
  case False
  then show ?thesis
    using assms models_started[OF assms] by (auto simp: mbx421_destroy_def spec_destroy_def)
next
  case ok: True
  then have walk: "walkable S" and st: "started S" using assms by (auto simp: models_def split: if_splits)
  obtain L where L: "layout ring s L" "fresh s L" "table S = map_of (map (entry_of s) L)"
    using models_layout[OF assms walk] .
  show ?thesis
  proof (cases "table S i")
    case None
    let ?s = "say ''Deleting mailbox %lu'' [uint i] s"
    have "layout ring ?s L" using L(1) by simp
    then have "for_each_safe A Mail (destroy_box A i) ?s = Inr (None, ?s)"
      by (rule walk_safe_missing[OF _ _ box_skips(2)]) (use None L(1) in \<open>simp_all add: L(3) table_None\<close>)
    then show ?thesis using None ok st assms by (simp add: mbx421_destroy_def spec_destroy_def Let_def)
  next
    case (Some b)
    obtain pre a ms cs post where at: "L = pre @ (a, ms, cs) # post" "id_of s a = i"
      "i \<notin> id_of s ` set (map fst (pre @ post))" "b = \<lparr>waiting = length ms, allowed = (the \<circ> acls s) ` set cs\<rparr>"
      using table_Some[OF L(1) Some[unfolded L(3)]] .
    define K where "K = (if ms = [] then pre @ post else L)"
    obtain s' where s': "mbx421_destroy A 0 i s = Inr (if ms = [] then 0 else - EINVAL, s')" "layout ring s' K"
      "map (entry_of s') K = map (entry_of s) K" "kmallocs s' = kmallocs s" "MAILBOXC s' = MAILBOXC s"
      using destroy_found[OF L(1) at(1-3) _ K_def] ok by auto
    have cut: "map_of (map (entry_of s) (pre @ post)) = (table S)(i := None)"
      using map_of_drop[OF ids_apart[OF at(3)], of b] at(2,4) unfolding L(3) at(1) by simp
    let ?S = "S\<lparr>table := if ms = [] then (table S)(i := None) else table S\<rparr>"
    have "models A ring s' ?S"
    proof (rule modelsI[OF s'(2)])
      show "fresh s' K" by (rule fresh_less[OF L(2)]) (use s'(4) at(1) in \<open>auto simp: K_def entries_def\<close>)
      show "map_of (map (entry_of s') K) = table ?S"
        unfolding s'(3) using cut by (simp add: K_def L(3) del: map_append)
    qed (use s'(4,5) walk models_started[OF assms] models_memory[OF assms] in simp_all)
    then show ?thesis
      using s'(1) Some at(4) ok st by (simp add: spec_destroy_def split: if_splits)
  qed
qed

end

end
