(* ===== verification/Mailbox_Acl.thy ===== *)
theory Mailbox_Acl
  imports Mailbox_Sim
begin

text \<open>
  The simulation of the two calls on access lists: what the change of one mailbox's list leaves
  of the others, and the handlers on every branch.
\<close>

section \<open>Access lists\<close>

text \<open>A change of the access list of the mailbox at \<open>a\<close>, with entries in \<open>Y\<close>.\<close>

definition acl_step ::
  "('l \<Rightarrow> loc \<Rightarrow> loc list \<Rightarrow> bool) \<Rightarrow> nat \<Rightarrow> nat set \<Rightarrow> 'l mbx \<Rightarrow> 'l mbx \<Rightarrow> bool" where
  "acl_step ring a Y s s' \<longleftrightarrow>
     (\<forall>g zs. ring (lists s) g zs \<longrightarrow> set (g # zs) \<inter> insert (BoxAcl a) (AclNode ` Y) = {} \<longrightarrow> ring (lists s') g zs)
     \<and> (\<forall>b. box_id (the (boxes s' b)) = box_id (the (boxes s b))
            \<and> box_count (the (boxes s' b)) = box_count (the (boxes s b)))
     \<and> dom (boxes s') = dom (boxes s) \<and> (\<forall>c. c \<notin> Y \<longrightarrow> acls s' c = acls s c)"

lemma acl_step_keeps:
  assumes "acl_step ring a Y s s'" "box_ok ring s (b, ms, cs)" "b \<noteq> a" "set cs \<inter> Y = {}"
  shows "box_ok ring s' (b, ms, cs)" "entry_of s' (b, ms, cs) = entry_of s (b, ms, cs)"
proof -
  have apart: "insert (BoxMsgs b) (insert (BoxAcl b) (MsgNode ` set ms \<union> AclNode ` set cs))
      \<inter> insert (BoxAcl a) (AclNode ` Y) = {}" using assms(3,4) by auto
  have step: "\<forall>g zs. ring (lists s) g zs \<longrightarrow> set (g # zs) \<inter> insert (BoxAcl a) (AclNode ` Y) = {} \<longrightarrow> ring (lists s') g zs"
    "box_id (the (boxes s' b)) = box_id (the (boxes s b))"
    "box_count (the (boxes s' b)) = box_count (the (boxes s b))"
    and same: "\<And>c. c \<in> set cs \<Longrightarrow> acls s' c = acls s c"
    using assms(1,4) unfolding acl_step_def by blast+
  note keep = box_keeps[OF assms(2) step(1) apart step(2,3) same]
  show "box_ok ring s' (b, ms, cs)" "entry_of s' (b, ms, cs) = entry_of s (b, ms, cs)"
    by (rule keep; assumption)+
qed

lemma acl_step_box_list:
  assumes "acl_step ring a Y s s'" "box_list ring s as"
  shows "box_list ring s' as"
proof -
  have "set (Mail # map BoxNode as) \<inter> insert (BoxAcl a) (AclNode ` Y) = {}" by auto
  then show ?thesis using assms unfolding acl_step_def box_list_def by blast
qed

lemma layout_acl:
  assumes "layout ring s (pre @ (a, ms, cs) # post)" "acl_step ring a Y s s'"
    and "ring (lists s') (BoxAcl a) (map AclNode cs')" "set cs' \<subseteq> dom (acls s')" "inj_on (acls s') (set cs')"
    and "distinct cs'" "set cs' \<subseteq> Y" "Y \<inter> set (entries (pre @ post)) = {}"
  shows "layout ring s' (pre @ (a, ms, cs') # post)"
    "map (entry_of s') (pre @ (a, ms, cs') # post) = map (entry_of s) pre
      @ (id_of s a, \<lparr>waiting = length ms, allowed = (the \<circ> acls s') ` set cs'\<rparr>) # map (entry_of s) post"
proof -
  let ?L = "pre @ (a, ms, cs) # post" and ?L' = "pre @ (a, ms, cs') # post"
  have a: "a \<notin> set (map fst (pre @ post))" using id_split[OF assms(1) refl] by auto
  have keep: "box_ok ring s' x \<and> entry_of s' x = entry_of s x" if x: "x \<in> set (pre @ post)" for x
  proof -
    obtain b ns ds where e: "x = (b, ns, ds)" by (cases x) blast
    have "box_ok ring s (b, ns, ds)"
      using layout_ok[OF assms(1), of "(b, ns, ds)"] x unfolding e by (auto simp del: box_ok.simps)
    moreover have "b \<noteq> a" using x a unfolding e by force
    moreover have "set ds \<subseteq> set (entries (pre @ post))" using x unfolding e entries_def by force
    ultimately show ?thesis using acl_step_keeps[OF assms(2)] assms(8) unfolding e by blast
  qed
  have ids: "id_of s' = id_of s" using assms(2) by (simp add: fun_eq_iff id_of_def acl_step_def)
  have ok: "box_ok ring s (a, ms, cs)" using layout_box(2)[OF assms(1)] by blast
  have "set (BoxMsgs a # map MsgNode ms) \<inter> insert (BoxAcl a) (AclNode ` Y) = {}" by auto
  then have "ring (lists s') (BoxMsgs a) (map MsgNode ms)"
    using assms(2) ok unfolding box_ok.simps acl_step_def by blast
  then have "box_ok ring s' (a, ms, cs')" using ok assms(2-5) by (simp add: acl_step_def)
  then have "list_all (box_ok ring s') ?L'" using keep by (simp add: list_all_iff)
  moreover have "box_list ring s' (map fst ?L')"
    using acl_step_box_list[OF assms(2), of "map fst ?L"] assms(1) by (simp add: layout_def)
  moreover have "distinct (map (id_of s' \<circ> fst) ?L')" using assms(1) by (simp add: layout_def ids)
  moreover have "distinct (entries ?L')"
    using assms(1,6-8) by (auto simp: layout_def entries_def)
  ultimately show "layout ring s' ?L'" unfolding layout_def by blast
  show "map (entry_of s') ?L' = map (entry_of s) pre
      @ (id_of s a, \<lparr>waiting = length ms, allowed = (the \<circ> acls s') ` set cs'\<rparr>) # map (entry_of s) post"
    using keep ids by simp
qed

text \<open>The entries of one mailbox, and those of the others.\<close>

lemma entries_apart:
  assumes "layout ring s (pre @ (a, ms, cs) # post)"
  shows "distinct cs" "set cs \<inter> set (entries (pre @ post)) = {}"
  using assms by (auto simp: layout_def entries_def)

context kernel_list begin

lemma acl_lookup:
  assumes "ring (lists s) (BoxAcl a) (map AclNode cs)" "set cs \<subseteq> dom (acls s)"
  shows "for_each A (BoxAcl a) (find_acl txt i p) s =
    Inr (if p \<in> (the \<circ> acls s) ` set cs then (Some (- EINVAL), say txt [uint p, uint i] s) else (None, s))"
proof -
  have turn: "find_acl txt i p (AclNode c) s =
      (if the (acls s c) = p then Inr (Some (- EINVAL), say txt [uint p, uint i] s) else Inr (None, s))"
    if c: "c \<in> set cs" for c
  proof -
    obtain q where "acls s c = Some q" using c assms(2) by blast
    then show ?thesis by (simp add: find_acl_def)
  qed
  show ?thesis
  proof (cases "p \<in> (the \<circ> acls s) ` set cs")
    case False
    have "for_each A (BoxAcl a) (find_acl txt i p) s = Inr (None, s)"
      by (rule walk_all[OF assms(1)]) (use turn False in auto)
    then show ?thesis using False by simp
  next
    case True
    then have "\<exists>c\<in>set cs. p = the (acls s c)" by auto
    then obtain xs c ys where c: "cs = xs @ c # ys" "p = the (acls s c)" "\<forall>z\<in>set xs. p \<noteq> the (acls s z)"
      using split_list_first_prop[of cs "\<lambda>c. p = the (acls s c)"] by blast
    have "find_acl txt i p z s = Inr (None, s)" if "z \<in> set (map AclNode xs)" for z
      using that turn c(1,3) by auto
    moreover have "find_acl txt i p (AclNode c) s = Inr (Some (- EINVAL), say txt [uint p, uint i] s)"
      using turn[of c] c(1,2) by simp
    ultimately show ?thesis
      using walk_to[of s "BoxAcl a" "map AclNode xs" "AclNode c" "map AclNode ys" "find_acl txt i p"]
        assms(1) c(1) True by simp
  qed
qed

lemma acl_add_no_memory:
  assumes "layout ring s L" "L = pre @ (a, ms, cs) # post" "id_of s a = i"
    and "p \<notin> (the \<circ> acls s) ` set cs" "(case kmallocs s of [] \<Rightarrow> None | x # xs \<Rightarrow> x) = None"
  shows "\<exists>s'. acl_add_box A i p (BoxNode a) s = Inr (Some (- ENOMEM), s') \<and> layout ring s' L
    \<and> map (entry_of s') L = map (entry_of s) L \<and> kmallocs s' = tl (kmallocs s) \<and> MAILBOXC s' = MAILBOXC s"
proof -
  note at = layout_box[OF assms(1,2)]
  define s1 where "s1 = s\<lparr>boxes := (boxes s)(a \<mapsto> the (boxes s a)\<lparr>aclC := Some True\<rparr>),
    kmallocs := tl (kmallocs s)\<rparr>"
  let ?s' = "say ''Error: Failed to allocate memeory for acl'' [] s1"
  have run: "acl_add_box A i p (BoxNode a) s = Inr (Some (- ENOMEM), ?s')"
    using at acl_lookup[of s a cs] assms(3-5)
    by (simp add: acl_add_box_def id_of_def Let_def kmalloc_tl s1_def)
  note lay = assms(1)[unfolded assms(2)]
  have step: "acl_step ring a (set cs) s s1" using at(3) by (auto simp: acl_step_def s1_def)
  have ok: "ring (lists s1) (BoxAcl a) (map AclNode cs)" "set cs \<subseteq> dom (acls s1)" "inj_on (acls s1) (set cs)"
    using at(2) by (simp_all add: s1_def)
  note new = layout_acl[OF lay step ok entries_apart(1)[OF lay] subset_refl entries_apart(2)[OF lay]]
  have "acls s1 = acls s" by (simp add: s1_def)
  then show ?thesis
    using run new unfolding assms(2) by (intro exI[of _ ?s']) (simp add: s1_def)
qed

lemma new_access:
  assumes "set cs \<subseteq> dom m" "inj_on m (set cs)" "c \<notin> set cs" "p \<notin> (the \<circ> m) ` set cs"
  shows "set (cs @ [c]) \<subseteq> dom (m(c \<mapsto> p))" "inj_on (m(c \<mapsto> p)) (set (cs @ [c]))"
    "(the \<circ> m(c \<mapsto> p)) ` set (cs @ [c]) = insert p ((the \<circ> m) ` set cs)"
proof -
  have "m d \<noteq> Some p \<and> Some p \<noteq> m d" if "d \<in> set cs" for d
    using assms(4) that by (metis comp_apply imageI option.sel)
  then show "inj_on (m(c \<mapsto> p)) (set (cs @ [c]))" using assms(2,3) by (auto simp: inj_on_def)
  show "set (cs @ [c]) \<subseteq> dom (m(c \<mapsto> p))" using assms(1) by auto
  show "(the \<circ> m(c \<mapsto> p)) ` set (cs @ [c]) = insert p ((the \<circ> m) ` set cs)"
    using assms(3) by (auto simp: image_iff)
qed

lemma acl_add_appends:
  assumes "layout ring s L" "L = pre @ (a, ms, cs) # post" "id_of s a = i"
    and "p \<notin> (the \<circ> acls s) ` set cs" "kmallocs s = Some c # al" "c \<notin> set (entries L)"
  shows "\<exists>s'. acl_add_box A i p (BoxNode a) s = Inr (Some 0, s') \<and> layout ring s' (pre @ (a, ms, cs @ [c]) # post)
    \<and> map (entry_of s') (pre @ (a, ms, cs @ [c]) # post) = map (entry_of s) pre
      @ (i, \<lparr>waiting = length ms, allowed = insert p ((the \<circ> acls s) ` set cs)\<rparr>) # map (entry_of s) post
    \<and> kmallocs s' = al \<and> MAILBOXC s' = MAILBOXC s"
proof -
  note at = layout_box[OF assms(1,2)] and lay = assms(1)[unfolded assms(2)]
  have c: "c \<notin> set cs" "c \<notin> set (entries (pre @ post))" using assms(2,6) by (auto simp: entries_def)
  have old: "set cs \<subseteq> dom (acls s)" "inj_on (acls s) (set cs)" "ring (lists s) (BoxAcl a) (map AclNode cs)"
    "AclNode c \<notin> set (BoxAcl a # map AclNode cs)"
    using at(2) c(1) by auto
  have set_c: "set (BoxAcl a # map AclNode cs @ [AclNode c]) = insert (BoxAcl a) (AclNode ` set (cs @ [c]))"
    by auto
  obtain l' where l': "add_tail A (AclNode c) (BoxAcl a) (lists s) = Inr l'"
    "ring l' (BoxAcl a) (map AclNode cs @ [AclNode c])"
    "\<forall>g zs. ring (lists s) g zs \<longrightarrow>
      set (g # zs) \<inter> insert (BoxAcl a) (AclNode ` set (cs @ [c])) = {} \<longrightarrow> ring l' g zs"
    using add_ring[OF old(3,4), unfolded set_c] by blast
  define s1 where "s1 = s\<lparr>lists := l', boxes := (boxes s)(a \<mapsto> the (boxes s a)\<lparr>aclC := Some True\<rparr>),
    acls := (acls s)(c \<mapsto> p), kmallocs := al\<rparr>"
  have s1: "lists s1 = l'" "acls s1 = (acls s)(c \<mapsto> p)" "kmallocs s1 = al" "MAILBOXC s1 = MAILBOXC s"
    by (simp_all add: s1_def)
  have run: "acl_add_box A i p (BoxNode a) s = Inr (Some 0, s1)"
    using at acl_lookup[of s a cs] assms(3-5) l'(1)
    by (simp add: acl_add_box_def id_of_def Let_def kmalloc_def on_lists_def s1_def)
  have step: "acl_step ring a (set (cs @ [c])) s s1"
    using l'(3) at(3) unfolding acl_step_def by (auto simp: s1_def)
  have ring_c: "ring (lists s1) (BoxAcl a) (map AclNode (cs @ [c]))" using l'(2) by (simp add: s1)
  have apart: "distinct (cs @ [c])" "set (cs @ [c]) \<inter> set (entries (pre @ post)) = {}"
    using entries_apart[OF lay] c by auto
  note acc = new_access[OF old(1,2) c(1) assms(4), folded s1(2)]
  note new = layout_acl[OF lay step ring_c acc(1,2) apart(1) subset_refl apart(2)]
  then show ?thesis using run s1(3,4) assms(3) unfolding acc(3) by blast
qed

lemma acl_add_full:
  assumes "models A ring s S" "walkable S" "layout ring s L" "fresh s L" "table S = map_of (map (entry_of s) L)"
    and "L = pre @ (a, ms, cs) # post" "id_of s a = i" "i \<notin> id_of s ` set (map fst (pre @ post))"
    and "b = \<lparr>waiting = length ms, allowed = (the \<circ> acls s) ` set cs\<rparr>" "p \<notin> allowed b"
    and "(case kmallocs s of [] \<Rightarrow> None | x # xs \<Rightarrow> x) = None"
  shows "\<exists>s'. for_each A Mail (acl_add_box A i p) s = Inr (Some (- ENOMEM), s')
    \<and> models A ring s' (S\<lparr>memory := tl (memory S)\<rparr>)"
proof -
  obtain s' where s': "acl_add_box A i p (BoxNode a) s = Inr (Some (- ENOMEM), s')" "layout ring s' L"
    "map (entry_of s') L = map (entry_of s) L" "kmallocs s' = tl (kmallocs s)" "MAILBOXC s' = MAILBOXC s"
    using acl_add_no_memory[OF assms(3,6,7), of p] assms(9-11) by auto
  have "models A ring s' (S\<lparr>memory := tl (memory S)\<rparr>)"
  proof (rule modelsI[OF s'(2)])
    show "fresh s' L" by (rule fresh_less[OF assms(4)]) (use s'(4) in auto)
    show "map_of (map (entry_of s') L) = table (S\<lparr>memory := tl (memory S)\<rparr>)" unfolding s'(3) by (simp add: assms(5))
  qed (use s'(4,5) models_started[OF assms(1)] models_memory[OF assms(1)] assms(2) in \<open>simp_all add: map_tl\<close>)
  moreover have "for_each A Mail (acl_add_box A i p) s = Inr (Some (- ENOMEM), s')"
    by (rule walk_found[OF assms(3,6,8) box_skips(4)[OF assms(3)] s'(1)])
  ultimately show ?thesis by blast
qed

lemma acl_add_new:
  assumes "models A ring s S" "walkable S" "layout ring s L" "fresh s L" "table S = map_of (map (entry_of s) L)"
    and "L = pre @ (a, ms, cs) # post" "id_of s a = i" "i \<notin> id_of s ` set (map fst (pre @ post))"
    and "b = \<lparr>waiting = length ms, allowed = (the \<circ> acls s) ` set cs\<rparr>" "p \<notin> allowed b"
    and "kmallocs s = Some c # al"
  shows "\<exists>s'. for_each A Mail (acl_add_box A i p) s = Inr (Some 0, s')
    \<and> models A ring s' (S\<lparr>memory := tl (memory S), table := (table S)(i \<mapsto> b\<lparr>allowed := insert p (allowed b)\<rparr>)\<rparr>)"
proof -
  let ?S = "S\<lparr>memory := tl (memory S), table := (table S)(i \<mapsto> b\<lparr>allowed := insert p (allowed b)\<rparr>)\<rparr>"
  obtain s' where s': "acl_add_box A i p (BoxNode a) s = Inr (Some 0, s')"
    "layout ring s' (pre @ (a, ms, cs @ [c]) # post)"
    "map (entry_of s') (pre @ (a, ms, cs @ [c]) # post) = map (entry_of s) pre
      @ (i, \<lparr>waiting = length ms, allowed = insert p ((the \<circ> acls s) ` set cs)\<rparr>) # map (entry_of s) post"
    "kmallocs s' = al" "MAILBOXC s' = MAILBOXC s"
    using acl_add_appends[OF assms(3,6,7) _ assms(11) fresh_next(2)[OF assms(4,11)], of p] assms(9,10) by auto
  have "models A ring s' ?S"
  proof (rule modelsI[OF s'(2)])
    show "fresh s' (pre @ (a, ms, cs @ [c]) # post)"
      by (rule fresh_taken[OF assms(4,11) s'(4)]) (auto simp: assms(6) entries_def)
    show "map_of (map (entry_of s') (pre @ (a, ms, cs @ [c]) # post)) = table ?S"
      unfolding s'(3) table_put[OF assms(6-8)] by (simp add: assms(5,9))
  qed (use s'(4,5) models_started[OF assms(1)] models_memory[OF assms(1)] assms(2,11) in simp_all)
  moreover have "for_each A Mail (acl_add_box A i p) s = Inr (Some 0, s')"
    by (rule walk_found[OF assms(3,6,8) box_skips(4)[OF assms(3)] s'(1)])
  ultimately show ?thesis by blast
qed

lemma mbx_sim_acl_add_found:
  assumes "models A ring s S" "walkable S" "table S i = Some b"
  shows "matches A ring (mbx421_acl_add A 0 i p s) (spec_acl_add 0 i p S)"
proof -
  let ?s = "say ''Adding to ACL'' [] s"
  have m: "models A ring ?s S" using assms(1) by simp
  obtain L where L: "layout ring ?s L" "fresh ?s L" "table S = map_of (map (entry_of ?s) L)"
    using models_layout[OF m assms(2)] .
  note mem = models_memory[OF m] and Some = assms(3) and ok = assms(2) and assms = assms(1)
  obtain pre a ms cs post where at: "L = pre @ (a, ms, cs) # post" "id_of ?s a = i"
    "i \<notin> id_of ?s ` set (map fst (pre @ post))" "b = \<lparr>waiting = length ms, allowed = (the \<circ> acls ?s) ` set cs\<rparr>"
    using table_Some[OF L(1) Some[unfolded L(3)]] .
  note found = walk_found[OF L(1) at(1,3) box_skips(4)[OF L(1)]]
  consider (there) "p \<in> allowed b"
    | (full) "p \<notin> allowed b" "(case kmallocs ?s of [] \<Rightarrow> None | x # xs \<Rightarrow> x) = None"
    | (new) c al where "p \<notin> allowed b" "kmallocs ?s = Some c # al"
    by (cases "kmallocs ?s") auto
  then show ?thesis
  proof cases
    case there
    then have "\<exists>f xs. acl_add_box A i p (BoxNode a) ?s = Inr (Some (- EINVAL), say f xs ?s)"
      using layout_box[OF L(1) at(1)] acl_lookup[of ?s a cs] at(2,4)
      by (auto simp: acl_add_box_def id_of_def)
    then obtain f xs where "for_each A Mail (acl_add_box A i p) ?s = Inr (Some (- EINVAL), say f xs ?s)"
      using found[of A p "- EINVAL"] by metis
    then show ?thesis using there Some ok assms
      by (simp add: mbx421_acl_add_def spec_acl_add_def Let_def)
  next
    case full
    obtain s' where "for_each A Mail (acl_add_box A i p) ?s = Inr (Some (- ENOMEM), s')"
      "models A ring s' (S\<lparr>memory := tl (memory S)\<rparr>)"
      using acl_add_full[OF m _ L at full] ok by blast
    moreover have "\<not> (memory S \<noteq> [] \<and> hd (memory S))" using full(2) mem by (auto split: list.splits)
    ultimately show ?thesis
      using full(1) Some ok by (simp add: mbx421_acl_add_def spec_acl_add_def Let_def take_memory_tl)
  next
    case new
    obtain s' where "for_each A Mail (acl_add_box A i p) ?s = Inr (Some 0, s')"
      "models A ring s' (S\<lparr>memory := tl (memory S), table := (table S)(i \<mapsto> b\<lparr>allowed := insert p (allowed b)\<rparr>)\<rparr>)"
      using acl_add_new[OF m _ L at new] ok by blast
    then show ?thesis
      using new Some ok mem by (simp add: mbx421_acl_add_def spec_acl_add_def Let_def take_memory_tl)
  qed
qed

lemma mbx_sim_acl_add:
  assumes "models A ring s S"
  shows "matches A ring (mbx421_acl_add A uid i p s) (spec_acl_add uid i p S)"
proof (cases "uid = 0 \<and> walkable S")
  case False
  then show ?thesis
    using assms not_walkable(4)[OF assms, of "say ''Adding to ACL'' [] s" i p]
    by (auto simp: mbx421_acl_add_def spec_acl_add_def Let_def)
next
  case ok: True
  let ?s = "say ''Adding to ACL'' [] s"
  have m: "models A ring ?s S" using assms by simp
  obtain L where L: "layout ring ?s L" "fresh ?s L" "table S = map_of (map (entry_of ?s) L)"
    using models_layout[OF m] ok by blast
  show ?thesis
  proof (cases "table S i")
    case None
    then have "for_each A Mail (acl_add_box A i p) ?s = Inr (None, ?s)"
      by (intro walk_missing[OF L(1) _ box_skips(4)[OF L(1)]]) (simp add: L(3) table_None)
    then show ?thesis using None ok assms by (simp add: mbx421_acl_add_def spec_acl_add_def Let_def)
  next
    case (Some b)
    then show ?thesis using mbx_sim_acl_add_found[OF assms] ok by simp
  qed
qed

lemma acl_remove_absent:
  assumes "layout ring s L" "L = pre @ (a, ms, cs) # post" "id_of s a = i" "p \<notin> (the \<circ> acls s) ` set cs"
  shows "\<exists>f xs. acl_remove_box A i p (BoxNode a) s = Inr (Some (- EINVAL), say f xs s)"
proof -
  note at = layout_box[OF assms(1,2)]
  have r: "ring (lists s) (BoxAcl a) (map AclNode cs)" using at(2) by simp
  have "remove_acl A p z s = Inr (None, s)" if z: "z \<in> set (map AclNode cs)" for z
  proof -
    obtain c where c: "z = AclNode c" "c \<in> set cs" using z by auto
    then obtain q where "acls s c = Some q" using at(2) unfolding box_ok.simps by blast
    then show ?thesis using c assms(4) by (force simp: remove_acl_def)
  qed
  then have "for_each A (BoxAcl a) (remove_acl A p) s = Inr (None, s)" by (rule walk_all[OF r])
  then show ?thesis using at(1) assms(3) by (auto simp: acl_remove_box_def id_of_def)
qed

lemma acl_unlink:
  assumes "ring (lists s) (BoxAcl a) (map AclNode cs)" "set cs \<subseteq> dom (acls s)" "cs = xs @ c # ys"
    and "acls s c = Some p" "\<forall>z\<in>set xs. acls s z \<noteq> Some p"
  shows "\<exists>l'. for_each A (BoxAcl a) (remove_acl A p) s
      = Inr (Some 0, (say ''Removed %u from mailbox'' [uint p] s)\<lparr>lists := l', acls := (acls s)(c := None)\<rparr>)
    \<and> ring l' (BoxAcl a) (map AclNode (xs @ ys))
    \<and> (\<forall>g zs. ring (lists s) g zs \<longrightarrow> set (g # zs) \<inter> insert (BoxAcl a) (AclNode ` set cs) = {} \<longrightarrow> ring l' g zs)"
proof -
  have r: "ring (lists s) (BoxAcl a) (map AclNode xs @ AclNode c # map AclNode ys)" using assms(1,3) by simp
  have set_c: "set (BoxAcl a # map AclNode xs @ AclNode c # map AclNode ys) = insert (BoxAcl a) (AclNode ` set cs)"
    using assms(3) by auto
  from del_ring[OF r, unfolded set_c] obtain l' where l': "del A (AclNode c) (lists s) = Inr l'" "ring l' (BoxAcl a) (map AclNode (xs @ ys))"
    "\<forall>g zs. ring (lists s) g zs \<longrightarrow> set (g # zs) \<inter> insert (BoxAcl a) (AclNode ` set cs) = {} \<longrightarrow> ring l' g zs"
    unfolding map_append by blast
  let ?s = "(say ''Removed %u from mailbox'' [uint p] s)\<lparr>lists := l', acls := (acls s)(c := None)\<rparr>"
  have "remove_acl A p z s = Inr (None, s)" if z: "z \<in> set (map AclNode xs)" for z
  proof -
    obtain d where d: "z = AclNode d" "d \<in> set xs" using z by auto
    then obtain q where "acls s d = Some q" using assms(2,3) by (auto simp: dom_def)
    then show ?thesis using d assms(5) by (auto simp: remove_acl_def)
  qed
  moreover have "remove_acl A p (AclNode c) s = Inr (Some 0, ?s)"
    using assms(4) l'(1) by (simp add: remove_acl_def on_lists_def Let_def)
  ultimately have "for_each A (BoxAcl a) (remove_acl A p) s = Inr (Some 0, ?s)"
    using walk_to[OF r, of "remove_acl A p"] by simp
  then show ?thesis using l'(2,3) by blast
qed

lemma cut_access:
  assumes "cs = xs @ c # ys" "distinct cs" "set cs \<subseteq> dom m" "inj_on m (set cs)" "m c = Some p"
  shows "set (xs @ ys) \<subseteq> dom (m(c := None))" "inj_on (m(c := None)) (set (xs @ ys))"
    "(the \<circ> m(c := None)) ` set (xs @ ys) = (the \<circ> m) ` set cs - {p}"
proof -
  have cut: "c \<notin> set (xs @ ys)" "set cs = insert c (set (xs @ ys))" using assms(1,2) by auto
  then have same: "(m(c := None)) d = m d" if "d \<in> set (xs @ ys)" for d using that by auto
  show "set (xs @ ys) \<subseteq> dom (m(c := None))" using assms(3) cut by auto
  show "inj_on (m(c := None)) (set (xs @ ys))"
  proof -
    have "inj_on m (set (xs @ ys))" by (rule inj_on_subset[OF assms(4)]) (use cut(2) in blast)
    then show ?thesis using inj_on_cong[of "set (xs @ ys)" "m(c := None)" m] same by blast
  qed
  have "the (m d) \<noteq> p" if d: "d \<in> set (xs @ ys)" for d
  proof
    assume "the (m d) = p"
    moreover obtain q where "m d = Some q" using d cut(2) assms(3) by blast
    ultimately have "m d = m c" using assms(5) by simp
    then have "d = c" using inj_onD[OF assms(4)] d cut(2) by blast
    then show False using d cut(1) by simp
  qed
  moreover have "(the \<circ> m(c := None)) ` set (xs @ ys) = (the \<circ> m) ` set (xs @ ys)"
    by (rule image_cong) (simp_all only: comp_apply same)
  ultimately show "(the \<circ> m(c := None)) ` set (xs @ ys) = (the \<circ> m) ` set cs - {p}"
    using cut(2) assms(5) by auto
qed

lemma acl_remove_removes:
  assumes "layout ring s L" "L = pre @ (a, ms, cs) # post" "id_of s a = i" "p \<in> (the \<circ> acls s) ` set cs"
  shows "\<exists>s' ds. acl_remove_box A i p (BoxNode a) s = Inr (Some 0, s') \<and> layout ring s' (pre @ (a, ms, ds) # post)
    \<and> map (entry_of s') (pre @ (a, ms, ds) # post) = map (entry_of s) pre
      @ (i, \<lparr>waiting = length ms, allowed = (the \<circ> acls s) ` set cs - {p}\<rparr>) # map (entry_of s) post
    \<and> set ds \<subseteq> set cs \<and> kmallocs s' = kmallocs s \<and> MAILBOXC s' = MAILBOXC s"
proof -
  note at = layout_box[OF assms(1,2)]
  have old: "set cs \<subseteq> dom (acls s)" "inj_on (acls s) (set cs)" "ring (lists s) (BoxAcl a) (map AclNode cs)"
    using at(2) by simp_all
  have "\<exists>c\<in>set cs. acls s c = Some p" using assms(4) old(1) by force
  then obtain xs c ys where c: "cs = xs @ c # ys" "acls s c = Some p" "\<forall>z\<in>set xs. acls s z \<noteq> Some p"
    using split_list_first_prop[of cs "\<lambda>c. acls s c = Some p"] by blast
  note lay = assms(1)[unfolded assms(2)]
  note dis = entries_apart[OF lay]
  obtain l' where l': "for_each A (BoxAcl a) (remove_acl A p) s
      = Inr (Some 0, (say ''Removed %u from mailbox'' [uint p] s)\<lparr>lists := l', acls := (acls s)(c := None)\<rparr>)"
    "ring l' (BoxAcl a) (map AclNode (xs @ ys))"
    "\<forall>g zs. ring (lists s) g zs \<longrightarrow> set (g # zs) \<inter> insert (BoxAcl a) (AclNode ` set cs) = {} \<longrightarrow> ring l' g zs"
    using acl_unlink[OF old(3,1) c] by blast
  define s1 where "s1 = (say ''Removed %u from mailbox'' [uint p] s)\<lparr>lists := l', acls := (acls s)(c := None)\<rparr>"
  have s1: "lists s1 = l'" "acls s1 = (acls s)(c := None)" "boxes s1 = boxes s"
    "kmallocs s1 = kmallocs s" "MAILBOXC s1 = MAILBOXC s"
    by (simp_all add: s1_def)
  have run: "acl_remove_box A i p (BoxNode a) s = Inr (Some 0, s1)"
    using at(1) assms(3) l'(1) by (simp add: acl_remove_box_def id_of_def s1_def)
  note cut = cut_access[OF c(1) dis(1) old(1,2) c(2), folded s1(2)]
  have sub: "distinct (xs @ ys)" "set (xs @ ys) \<subseteq> set cs" using dis(1) c(1) by auto
  have step: "acl_step ring a (set cs) s s1" using l'(3) c(1) unfolding acl_step_def by (simp add: s1)
  have ring_a: "ring (lists s1) (BoxAcl a) (map AclNode (xs @ ys))" using l'(2) by (simp only: s1)
  note new = layout_acl[OF lay step ring_a cut(1,2) sub dis(2)]
  then show ?thesis using run s1(4,5) sub(2) assms(3) unfolding cut(3) by blast
qed

lemma acl_remove_found:
  assumes "models A ring s S" "walkable S" "layout ring s L" "fresh s L" "table S = map_of (map (entry_of s) L)"
    and "L = pre @ (a, ms, cs) # post" "id_of s a = i" "i \<notin> id_of s ` set (map fst (pre @ post))"
    and "b = \<lparr>waiting = length ms, allowed = (the \<circ> acls s) ` set cs\<rparr>" "p \<in> allowed b"
  shows "\<exists>s'. for_each A Mail (acl_remove_box A i p) s = Inr (Some 0, s')
    \<and> models A ring s' (S\<lparr>table := (table S)(i \<mapsto> b\<lparr>allowed := allowed b - {p}\<rparr>)\<rparr>)"
proof -
  let ?S = "S\<lparr>table := (table S)(i \<mapsto> b\<lparr>allowed := allowed b - {p}\<rparr>)\<rparr>"
  obtain s' ds where s': "acl_remove_box A i p (BoxNode a) s = Inr (Some 0, s')"
    "layout ring s' (pre @ (a, ms, ds) # post)"
    "map (entry_of s') (pre @ (a, ms, ds) # post) = map (entry_of s) pre
      @ (i, \<lparr>waiting = length ms, allowed = (the \<circ> acls s) ` set cs - {p}\<rparr>) # map (entry_of s) post"
    "set ds \<subseteq> set cs" "kmallocs s' = kmallocs s" "MAILBOXC s' = MAILBOXC s"
    using acl_remove_removes[OF assms(3,6,7), of p] assms(9,10) by auto
  have "models A ring s' ?S"
  proof (rule modelsI[OF s'(2)])
    show "fresh s' (pre @ (a, ms, ds) # post)"
      by (rule fresh_less[OF assms(4)]) (use s'(4,5) in \<open>auto simp: assms(6) entries_def\<close>)
    show "map_of (map (entry_of s') (pre @ (a, ms, ds) # post)) = table ?S"
      unfolding s'(3) table_put[OF assms(6-8)] by (simp add: assms(5,9))
  qed (use s'(5,6) models_started[OF assms(1)] models_memory[OF assms(1)] assms(2) in simp_all)
  moreover have "for_each A Mail (acl_remove_box A i p) s = Inr (Some 0, s')"
    by (rule walk_found[OF assms(3,6,8) box_skips(5)[OF assms(3)] s'(1)])
  ultimately show ?thesis by blast
qed

lemma mbx_sim_acl_remove:
  assumes "models A ring s S"
  shows "matches A ring (mbx421_acl_remove A uid i p s) (spec_acl_remove uid i p S)"
proof (cases "uid = 0 \<and> walkable S")
  case False
  then show ?thesis
    using assms not_walkable(5)[OF assms, of "say ''Removing from ACL'' [] s" i p]
    by (auto simp: mbx421_acl_remove_def spec_acl_remove_def Let_def)
next
  case ok: True
  let ?s = "say ''Removing from ACL'' [] s"
  have m: "models A ring ?s S" using assms by simp
  obtain L where L: "layout ring ?s L" "fresh ?s L" "table S = map_of (map (entry_of ?s) L)"
    using models_layout[OF m] ok by blast
  show ?thesis
  proof (cases "table S i")
    case None
    then have "for_each A Mail (acl_remove_box A i p) ?s = Inr (None, ?s)"
      by (intro walk_missing[OF L(1) _ box_skips(5)[OF L(1)]]) (simp add: L(3) table_None)
    then show ?thesis using None ok assms by (simp add: mbx421_acl_remove_def spec_acl_remove_def Let_def)
  next
    case (Some b)
    obtain pre a ms cs post where at: "L = pre @ (a, ms, cs) # post" "id_of ?s a = i"
      "i \<notin> id_of ?s ` set (map fst (pre @ post))" "b = \<lparr>waiting = length ms, allowed = (the \<circ> acls ?s) ` set cs\<rparr>"
      using table_Some[OF L(1) Some[unfolded L(3)]] .
    note found = walk_found[OF L(1) at(1,3) box_skips(5)[OF L(1)]]
    show ?thesis
    proof (cases "p \<in> allowed b")
      case False
      then obtain f xs where "acl_remove_box A i p (BoxNode a) ?s = Inr (Some (- EINVAL), say f xs ?s)"
        using acl_remove_absent[OF L(1) at(1,2), of p] at(4) by auto
      then show ?thesis using found[of A p "- EINVAL"] False Some ok assms
        by (simp add: mbx421_acl_remove_def spec_acl_remove_def Let_def)
    next
      case True
      obtain s' where "for_each A Mail (acl_remove_box A i p) ?s = Inr (Some 0, s')"
        "models A ring s' (S\<lparr>table := (table S)(i \<mapsto> b\<lparr>allowed := allowed b - {p}\<rparr>)\<rparr>)"
        using acl_remove_found[OF m _ L at True] ok by blast
      then show ?thesis using True Some ok
        by (simp add: mbx421_acl_remove_def spec_acl_remove_def Let_def)
    qed
  qed
qed

end

end
