(* ===== verification/Mailbox_Refines.thy ===== *)
theory Mailbox_Refines
  imports Mailbox_Acl
begin

text \<open>
  The mailbox module against its table, over sequences of requests: the simulations of the
  single calls put together, and when the loaded module crashes.
\<close>

section \<open>Sequences of requests\<close>

context kernel_list begin

lemmas mbx_sim_calls = mbx_sim_init mbx_sim_transfer mbx_sim_shutdown mbx_sim_create mbx_sim_destroy mbx_sim_count mbx_sim_length
  mbx_sim_acl_add mbx_sim_acl_remove

lemma mbx_sim_do:
  assumes "models A ring s S"
  shows "matches A ring (mbx_do A copied q s) (spec_do q S)"
  by (cases q) (simp_all add: mbx_sim_calls[OF assms])

lemma mbx_sim_run:
  "models A ring s S \<Longrightarrow> matches A ring (mbx_run A copied qs s) (spec_run qs S)"
proof (induction qs arbitrary: s S)
  case (Cons q qs)
  note this_call = mbx_sim_do[OF Cons.prems, of copied q]
  show ?case
  proof (cases "spec_do q S")
    case (Inl e)
    then show ?thesis using this_call by simp
  next
    case (Inr y)
    obtain r S1 where y: "y = (r, S1)" by (cases y)
    then obtain s1 where s1: "mbx_do A copied q s = Inr (r, s1)" "models A ring s1 S1"
      using this_call Inr by auto
    show ?thesis
      using Cons.IH[OF s1(2)] s1(1) Inr y
      by (cases "spec_run qs S1") (auto simp: matches_def)
  qed
qed simp

end

text \<open>The module as loaded is the empty table.\<close>

lemma boot_models:
  assumes "ring l Mail []" "distinct (map the (filter (\<lambda>x. x \<noteq> None) al))"
  shows "models A ring (mbx_boot l al) (spec_boot (map (\<lambda>x. x \<noteq> None) al))"
  by (rule modelsI[of ring _ "[]"])
    (use assms in \<open>simp_all add: mbx_boot_def spec_boot_def layout_def box_list_def entries_def fresh_def\<close>)

text \<open>The requests that walk the list of mailboxes without a started module.\<close>

fun walks :: "mbx_req \<Rightarrow> bool" where
  "walks (Shutdown u) \<longleftrightarrow> u = 0"
| "walks (Count u i) \<longleftrightarrow> True"
| "walks (Length u i) \<longleftrightarrow> True"
| "walks (Acl_add u i p) \<longleftrightarrow> u = 0"
| "walks (Acl_remove u i p) \<longleftrightarrow> u = 0"
| "walks _ \<longleftrightarrow> False"

definition idle_spec :: "bool \<Rightarrow> spec \<Rightarrow> bool" where
  "idle_spec w S \<longleftrightarrow> \<not> started S \<and> walkable S = w \<and> table S = Map.empty"

lemma idle_shut:
  assumes "idle_spec False S"
  shows "spec_do q S = Inl BadPointer \<and> walks q \<or> (\<exists>r. spec_do q S = Inr (r, S)) \<and> \<not> walks q"
  using assms
  by (cases q) (auto simp: idle_spec_def spec_init_def spec_shutdown_def spec_create_def spec_destroy_def
      spec_count_def spec_transfer_def spec_length_def spec_acl_add_def spec_acl_remove_def)

lemma idle_open:
  assumes "idle_spec True S"
  shows "\<exists>r S'. spec_do q S = Inr (r, S') \<and> idle_spec (q \<noteq> Shutdown 0) S'"
  using assms
  by (cases q) (auto simp: idle_spec_def spec_init_def spec_shutdown_def spec_create_def spec_destroy_def
      spec_count_def spec_transfer_def spec_length_def spec_acl_add_def spec_acl_remove_def)

lemma shut_run:
  "idle_spec False S \<Longrightarrow>
   if \<exists>q\<in>set qs. walks q then spec_run qs S = Inl BadPointer else \<exists>rs. spec_run qs S = Inr (rs, S)"
proof (induction qs)
  case (Cons q qs)
  show ?case using idle_shut[OF Cons.prems, of q] Cons.IH[OF Cons.prems] by (auto split: if_splits)
qed simp

lemma open_run:
  "idle_spec True S \<Longrightarrow>
   if \<exists>xs ys. qs = xs @ Shutdown 0 # ys \<and> (\<exists>q\<in>set ys. walks q)
   then spec_run qs S = Inl BadPointer else \<exists>rs S'. spec_run qs S = Inr (rs, S')"
proof (induction qs arbitrary: S)
  case (Cons q qs)
  obtain r S1 where S1: "spec_do q S = Inr (r, S1)" "idle_spec (q \<noteq> Shutdown 0) S1"
    using idle_open[OF Cons.prems, of q] by blast
  let ?shut = "\<lambda>qs. \<exists>xs ys. qs = xs @ Shutdown 0 # ys \<and> (\<exists>q\<in>set ys. walks q)"
  have cut: "?shut (q # qs) \<longleftrightarrow> (q = Shutdown 0 \<and> (\<exists>q\<in>set qs. walks q)) \<or> ?shut qs"
    by (auto simp: Cons_eq_append_conv)
  show ?case
  proof (cases "q = Shutdown 0")
    case False
    then show ?thesis using Cons.IH[of S1] S1 cut by (auto split: if_splits)
  next
    case True
    moreover have "\<exists>q\<in>set qs. walks q" if "?shut qs" using that by force
    ultimately have "?shut (q # qs) \<longleftrightarrow> (\<exists>q\<in>set qs. walks q)" using cut by blast
    then show ?thesis using True shut_run[of S1 qs] S1 by (auto split: if_splits)
  qed
qed simp

section \<open>Properties\<close>

text \<open>
  C12: the module implements the table. From a state the table stands for, over any lists with the
  laws of the kernel's, every sequence of requests is answered by the handlers as by the table -
  request by request, the faults included - and leaves a state the new table stands for.
\<close>

theorem mailbox_implements_table:
  assumes "kernel_list A ring" "models A ring s S"
  shows "matches A ring (mbx_run A copied qs s) (spec_run qs S)"
  by (rule kernel_list.mbx_sim_run[OF assms])

definition demo_two :: "heads mbx" where
  "demo_two = demo_one\<lparr>kmallocs := [Some 6, Some 7]\<rparr>"

definition demo_table :: spec where
  "demo_table = \<lparr>started = True, memory = [True, True], walkable = True,
     table = [MAXID \<mapsto> \<lparr>waiting = 0, allowed = {}\<rparr>]\<rparr>"

lemma demo_two_models: "models ptr_list ptr_ring demo_two demo_table"
proof (rule modelsI[of ptr_ring _ "[(5, [], [])]"])
  show "layout ptr_ring demo_two [(5, [], [])]"
    by (simp add: layout_def box_list_def entries_def demo_two_def demo_one_def mbx_boot_def
        one_heads_def ptr_ring_def)
qed (simp_all add: demo_two_def demo_table_def demo_one_def mbx_boot_def fresh_def entries_def id_of_def)

theorem mailbox_implements_table_witness:
  "\<exists>s. mbx_run ptr_list (\<lambda>_. []) [Create 0 (MAXID + 1), Create 0 MAXID, Acl_add 0 MAXID 42,
      Acl_add 0 MAXID 42, Destroy 0 (MAXID + 1), Acl_remove 0 MAXID 42] demo_two
    = Inr ([0, - EEXIST, 0, - EINVAL, 0, 0], s) \<and> models ptr_list ptr_ring s (demo_table\<lparr>memory := []\<rparr>)"
  using mailbox_implements_table[OF ptr.kernel_list_axioms demo_two_models, of "\<lambda>_. []"
      "[Create 0 (MAXID + 1), Create 0 MAXID, Acl_add 0 MAXID 42, Acl_add 0 MAXID 42,
        Destroy 0 (MAXID + 1), Acl_remove 0 MAXID 42]"]
  by (simp add: demo_table_def spec_create_def spec_acl_add_def spec_destroy_def spec_acl_remove_def
      take_memory_def MAXID_def fun_upd_twist)

text \<open>
  C13: when the loaded module crashes. Over a sequence of requests by any users, a freshly loaded
  module faults exactly when root has shut it down and a later request walks the list of
  mailboxes: a count or a length query of anyone, or root's shutdown or access-list calls.
  Otherwise every request is answered.
\<close>

theorem loaded_module_faults_iff:
  assumes "kernel_list A ring" "ring l Mail []" "distinct (map the (filter (\<lambda>x. x \<noteq> None) al))"
  shows "if \<exists>xs ys. qs = xs @ Shutdown 0 # ys \<and> (\<exists>q\<in>set ys. walks q)
    then mbx_run A copied qs (mbx_boot l al) = Inl BadPointer
    else \<exists>rs s. mbx_run A copied qs (mbx_boot l al) = Inr (rs, s)"
proof -
  let ?S = "spec_boot (map (\<lambda>x. x \<noteq> None) al)"
  have "matches A ring (mbx_run A copied qs (mbx_boot l al)) (spec_run qs ?S)"
    by (rule kernel_list.mbx_sim_run[OF assms(1) boot_models[of ring l al A, OF assms(2,3)]])
  moreover have "idle_spec True ?S" by (simp add: idle_spec_def spec_boot_def)
  ultimately show ?thesis using open_run[of ?S qs] by (auto split: if_splits)
qed

theorem loaded_module_faults_iff_witness:
  "(\<exists>rs s. mbx_run ptr_list (\<lambda>_. []) [Init 0 5 2, Count 7 1, Shutdown 0] (mbx_boot demo_heads []) = Inr (rs, s))
   \<and> mbx_run ptr_list (\<lambda>_. []) [Shutdown 0, Count 7 1] (mbx_boot demo_heads []) = Inl BadPointer"
proof
  note iff = loaded_module_faults_iff[OF ptr.kernel_list_axioms demo_heads_ring, of "[]" qs "\<lambda>_. []" for qs, simplified filter.simps list.map distinct.simps(1) True_implies_equals]
  show "\<exists>rs s. mbx_run ptr_list (\<lambda>_. []) [Init 0 5 2, Count 7 1, Shutdown 0] (mbx_boot demo_heads []) = Inr (rs, s)"
    using iff[of "[Init 0 5 2, Count 7 1, Shutdown 0]"] by (auto simp: Cons_eq_append_conv split: if_splits)
  have "\<exists>xs ys. [Shutdown 0, Count 7 1] = xs @ Shutdown 0 # ys \<and> (\<exists>q\<in>set ys. walks q)"
    by (rule exI[of _ "[]"]) simp
  then show "mbx_run ptr_list (\<lambda>_. []) [Shutdown 0, Count 7 1] (mbx_boot demo_heads []) = Inl BadPointer"
    using iff[of "[Shutdown 0, Count 7 1]"] by simp
qed

end
