(* ===== verification/Mailbox_Test.thy ===== *)
theory Mailbox_Test
  imports Mailbox_Props
begin

text \<open>
  The user program \<^verbatim>\<open>project1/proj1tests/test.c\<close>, which calls the mailbox module and prints a line
  per test. The calls are declared nowhere; each is read as the system call of its name with a
  return convention \<open>conv\<close> (the value itself, or the C library's -1), and \<open>mbx421_rev\<close> as
  \<open>mbx421_recv\<close>. The second and later tests print the result of the first when they fail, and
  the sixth tests the result of the fifth, as in the source. \<open>sleep\<close> has no effect on the module.
\<close>

section \<open>The program\<close>

definition printed :: "bool \<Rightarrow> string \<Rightarrow> string \<Rightarrow> int \<Rightarrow> kmsg list" where
  "printed ok passed failed t = (if ok then [(passed, [])] else [(failed, [t])])"

definition test_main ::
  "'l list_api \<Rightarrow> (int \<Rightarrow> u8 list) \<Rightarrow> (int \<Rightarrow> int) \<Rightarrow> u32 \<Rightarrow> 'l mbx \<Rightarrow> (kmsg list \<times> 'l mbx) res" where
  "test_main A copied conv me s =
     (let out = [(''Running test: '', [])] in
      andThen (mbx421_init me 5 10 s) (\<lambda>(r, s).
      let test1 = conv r;
          out = out @ printed (test1 = 0) ''test 1 passed'' ''test 1 failed: Returned %ld'' test1 in
      andThen (mbx421_create A me 142 s) (\<lambda>(r, s).
      let test2 = conv r;
          out = out @ printed (test2 = 0) ''test 2 passed'' ''test 2 failed: Returned %ld'' test1 in
      andThen (mbx421_send A copied me 142 14 s) (\<lambda>(r, s).
      let test3 = conv r;
          out = out @ printed (test3 = 0) ''test 3 passed'' ''test 3 failed: Returned %ld'' test1 in
      andThen (mbx421_recv A me 142 s) (\<lambda>(r, s).
      let test4 = conv r;
          out = out @ printed (test4 = 0) ''test 4 passed'' ''test 4 failed: Returned %ld'' test1 in
      andThen (mbx421_recv A me 4 s) (\<lambda>(r, s).
      let test5 = conv r;
          out = out @ printed (test5 \<noteq> 0) ''test 5 passed'' ''test 5 failed: Returned %ld'' test1 in
      andThen (mbx421_recv A me 142 s) (\<lambda>(r, s).
      let test6 = conv r;
          out = out @ printed (test5 = 0) ''test 6 passed'' ''test 6 failed: Returned %ld'' test1 in
      andThen (mbx421_shutdown A me s) (\<lambda>(r, s).
      let test7 = conv r;
          out = out @ printed (test7 = 0) ''test 7 passed'' ''test 7 failed: Returned %ld'' test1
      in Inr (out @ [(''Closing Test'', [])], s)))))))))"

section \<open>Calls to a module that has not started\<close>

lemma stopped_calls:
  assumes "MAILBOXC s = 0"
  shows "\<exists>ms. mbx421_create A me i s = Inr (- ENOENT, s\<lparr>mlog := mlog s @ ms\<rparr>)"
    "\<exists>ms. mbx421_send A copied me i len s = Inr (- ENOENT, s\<lparr>mlog := mlog s @ ms\<rparr>)"
    "\<exists>ms. mbx421_recv A me i s = Inr (- ENOENT, s\<lparr>mlog := mlog s @ ms\<rparr>)"
    "\<exists>ms. mbx421_init me ptrs prob s = Inr (if me \<noteq> 0 then - EPERM else - EINVAL, s\<lparr>mlog := mlog s @ ms\<rparr>)"
  using assms init_fails[of me ptrs prob s]
  by (auto simp: mbx421_create_def mbx421_send_def mbx421_recv_def say_def Let_def)

lemma box_list_log: "box_list ring (s\<lparr>mlog := l\<rparr>) as = box_list ring s as"
  by (simp add: box_list_def)

lemma shutdown_result:
  assumes "kernel_list A ring" "box_list ring s []"
  shows "\<exists>s'. mbx421_shutdown A me s = Inr (if me = 0 then 0 else - EPERM, s')"
proof (cases "me = 0")
  case True
  then show ?thesis using kernel_list.shutdown_empty[OF assms] by auto
qed (simp add: mbx421_shutdown_def Let_def)

text \<open>
  C29: the test program cannot pass. Run against the freshly loaded module by any user, whatever
  the return convention, it reports failure of tests 1 to 4 and 6 with the result of test 1,
  success of test 5, which expects an error, and success of test 7 exactly for root.
\<close>

theorem mailbox_test_output:
  assumes "kernel_list A ring" "box_list ring s []" "MAILBOXC s = 0" "\<And>r. conv r = 0 \<longleftrightarrow> r = 0"
    and "t = conv (if me \<noteq> 0 then - EPERM else - EINVAL)"
  shows "\<exists>s'. test_main A copied conv me s = Inr
    ([(''Running test: '', []), (''test 1 failed: Returned %ld'', [t]), (''test 2 failed: Returned %ld'', [t]),
      (''test 3 failed: Returned %ld'', [t]), (''test 4 failed: Returned %ld'', [t]), (''test 5 passed'', []),
      (''test 6 failed: Returned %ld'', [t]),
      if me = 0 then (''test 7 passed'', []) else (''test 7 failed: Returned %ld'', [t]),
      (''Closing Test'', [])], s')"
proof -
  let ?r = "if me \<noteq> 0 then - EPERM else - EINVAL"
  have t0: "t \<noteq> 0" "conv (- ENOENT) \<noteq> 0" using assms(4,5) by (simp_all add: errno_defs)
  obtain m1 where 1: "mbx421_init me 5 10 s = Inr (?r, s\<lparr>mlog := m1\<rparr>)"
    using stopped_calls(4)[OF assms(3)] by blast
  have stopped: "\<exists>m'. mbx421_create A me i (s\<lparr>mlog := m\<rparr>) = Inr (- ENOENT, s\<lparr>mlog := m'\<rparr>)"
    "\<exists>m'. mbx421_send A copied me i len (s\<lparr>mlog := m\<rparr>) = Inr (- ENOENT, s\<lparr>mlog := m'\<rparr>)"
    "\<exists>m'. mbx421_recv A me i (s\<lparr>mlog := m\<rparr>) = Inr (- ENOENT, s\<lparr>mlog := m'\<rparr>)" for m i len
    using stopped_calls(1-3)[of "s\<lparr>mlog := m\<rparr>"] assms(3) by fastforce+
  obtain m2 where 2: "mbx421_create A me 142 (s\<lparr>mlog := m1\<rparr>) = Inr (- ENOENT, s\<lparr>mlog := m2\<rparr>)"
    using stopped(1) by blast
  obtain m3 where 3: "mbx421_send A copied me 142 14 (s\<lparr>mlog := m2\<rparr>) = Inr (- ENOENT, s\<lparr>mlog := m3\<rparr>)"
    using stopped(2) by blast
  obtain m4 where 4: "mbx421_recv A me 142 (s\<lparr>mlog := m3\<rparr>) = Inr (- ENOENT, s\<lparr>mlog := m4\<rparr>)"
    using stopped(3) by blast
  obtain m5 where 5: "mbx421_recv A me 4 (s\<lparr>mlog := m4\<rparr>) = Inr (- ENOENT, s\<lparr>mlog := m5\<rparr>)"
    using stopped(3) by blast
  obtain m6 where 6: "mbx421_recv A me 142 (s\<lparr>mlog := m5\<rparr>) = Inr (- ENOENT, s\<lparr>mlog := m6\<rparr>)"
    using stopped(3) by blast
  obtain s' where 7: "mbx421_shutdown A me (s\<lparr>mlog := m6\<rparr>) = Inr (if me = 0 then 0 else - EPERM, s')"
    using shutdown_result[OF assms(1)] assms(2) box_list_log by metis
  have 8: "conv (if me = 0 then 0 else - EPERM) = 0 \<longleftrightarrow> me = 0"
    using assms(4) by (simp add: errno_defs)
  show ?thesis
    unfolding test_main_def printed_def Let_def 1 andThen_simps prod.case 2 3 4 5 6 7 8
    using t0 assms(5) by simp
qed

theorem mailbox_test_output_witness:
  "\<exists>s' out. test_main ptr_list (\<lambda>_. []) (\<lambda>r. r) 0 (mbx_boot demo_heads []) = Inr (out, s')
    \<and> out ! 1 = (''test 1 failed: Returned %ld'', [- EINVAL]) \<and> out ! 7 = (''test 7 passed'', [])"
  using mailbox_test_output[OF ptr.kernel_list_axioms, of "mbx_boot demo_heads []" "\<lambda>r. r" "- EINVAL" 0 "\<lambda>_. []"]
    demo_heads_ring
  by (auto simp: box_list_def mbx_boot_def)

end
