(* ===== verification/Spec2Isabelle.thy ===== *)
theory Spec2Isabelle
  imports Prelude Transitions Sandbox Sandbox_Policy Sandbox_Runs Sandbox_Props Entry Entry_Props Userland
    Sandbox_System HashTable KernelList Mailbox Mailbox_Props SkipList SkipList_Insert SkipList_Types
    Shell BootParams BootParams_Props Boot_Init
    Initcalls Initcalls_Props Startup Startup_Props Handover Sandbox_Threads Sandbox_Threads_Props
    Draft Mailbox_Spec Mailbox_Sim Mailbox_Acl Mailbox_Refines Mailbox_Test
begin

text \<open>
  A verification library for three operating-systems course projects: a shell
  (\<^verbatim>\<open>project 0\<close>), a mailbox kernel module with a skip-list prototype (\<^verbatim>\<open>project1\<close>), and a
  system-call sandbox built into a Linux kernel (\<^verbatim>\<open>project 2\<close>), whose \<^verbatim>\<open>common.c\<close> and \<^verbatim>\<open>main.c\<close> are
  the kernel's own files with the project's changes.

  The programs and how they hang together. The sandbox keeps a table with a row per system
  call; three system calls edit and read it, and \<open>do_syscall_64\<close> asks \<open>findder\<close> whether the
  caller is refused before it dispatches. The user programs of \<^verbatim>\<open>project 2/proj2/userland\<close> drive
  the three system calls. \<^verbatim>\<open>hash.h\<close> is an earlier hash table nothing includes, and
  \<^verbatim>\<open>proj2_copy.c\<close> an earlier draft of the sandbox. \<^verbatim>\<open>main.c\<close> starts the kernel: the boot thread
  parses the command line, brings the subsystems up and creates the init thread, which runs the
  initcalls and the first program. The mailbox module is separate: ten system calls over one
  list of mailboxes, with a user program that tests them. The skip list was meant to replace
  that list and runs in user space. The shell stands alone.

  Conventions. A C operation is a function on a state record that returns a \<open>res\<close>: \<open>Inr\<close> the
  value and the new state, or \<open>Inl\<close> a fault, for what the language leaves undefined or the kernel
  ends with - an access outside an array, a null, freed or poisoned pointer, a lock taken twice,
  an overflow, an unset variable, a panic. An error number is an ordinary negative value. An
  integer whose width matters is a word, read as signed by \<^const>\<open>sint\<close> and unsigned by \<^const>\<open>uint\<close>;
  other integers are \<open>int\<close>, with the overflow of an \<open>int\<close> counter a fault. A loop that may run
  for ever is a \<open>partial_function\<close> whose value is then \<open>None\<close> (\<open>NoReturn\<close> where the loop is inside
  a function that returns a \<open>res\<close>); the properties say when it returns. What a
  file only calls and the repository does not contain is a parameter.

  Theories.

  \<open>Prelude\<close>: faults and their sequencing, checked arrays, C constants, error numbers.
  \<open>Transitions\<close>: the locales \<open>invariant\<close> and \<open>progress\<close> of step relations, interpreted on the
  threads of the sandbox and on the hand-over at the end of the start.

  \<open>Sandbox\<close>: \<^verbatim>\<open>proj2.h\<close> and \<^verbatim>\<open>proj2.c\<close> - the table \<open>permList\<close> (\<open>sysTable\<close>, \<open>sbx\<close>), \<open>sbx421_block\<close>,
  \<open>sbx421_unblock\<close>, \<open>sbx421_count\<close>, \<open>findder\<close>, the set-up - and well-formed tables. \<open>Sandbox_Policy\<close>:
  which ids a row refuses, what each operation does to a row, with two locales: \<open>guarded_op\<close>,
  the contract of the two editing calls, and \<open>syscall_filter\<close>, what the entry path may ask of a
  filter; both are interpreted on the operations. \<open>Sandbox_Runs\<close>: sequences of requests,
  reachable tables and their invariant, and an abstract policy - at most one counted block per
  system call - with the simulation of every admissible sequence. \<open>Sandbox_Props\<close>: the properties.
  A blocked pair is refused and an unblocked one is not; what else the two change is stated
  exactly, and with it the defects: a second block lifts the block, an unblock frees every user,
  root's id is the empty slot's value, a blocked user can unblock itself, indices are unchecked.

  \<open>Sandbox_Threads\<close>, \<open>Sandbox_Threads_Props\<close>: the same operations run by any number of threads, a
  statement at a time (the test of a row and the reset of a row are one step each). A thread alone does what the whole operation of \<open>Sandbox\<close> does; the lock
  is taken exactly while one thread is in a critical section, and gives no deadlock for arguments inside the table; the code outside the
  lock gives the races the properties exhibit as reachable states. \<open>Draft\<close>: \<^verbatim>\<open>proj2_copy.c\<close>,
  which follows a null or dead pointer on its first permitted request.

  \<open>Entry\<close>, \<open>Entry_Props\<close>: \<^verbatim>\<open>common.c\<close>. The state has registers, flags, the sandbox's state and a
  trace of the kernel functions called; these are parameters that may do anything to the state,
  and a property that needs more says so (\<open>untraced\<close>, \<open>settles\<close>, and \<open>work_bounded\<close>, by which each
  handler of the exit loop clears its flag or takes from a bound on the work still to arrive). The
  exit loop ends and leaves no work; a call is dispatched once, at the number the entry path goes
  on with; the order of the exit work; and a refused call is dispatched nevertheless.

  \<open>Sandbox_System\<close>: the two together. The locale \<open>exit_work\<close> collects what the entry and exit work keeps
  and is interpreted on the growing trace and on the caller's registers, id and table; over a
  kernel whose other functions leave these alone (\<open>plain_kernel\<close>) and whose table of system calls
  holds the three handlers (\<open>has_handlers\<close>), a call is followed from the registers to the handler
  and back: a refused call gives its caller the handler's result, and one system call takes a
  user out of the sandbox; what the user programs get for their calls is tied to it.

  \<open>Userland\<close>: the four user programs. \<open>HashTable\<close>: \<^verbatim>\<open>hash.h\<close>.

  \<open>KernelList\<close>: the kernel's lists as the interface \<open>list_api\<close> with the laws of the locale
  \<open>kernel_list\<close>, and an implementation by pointers on which the locale is interpreted.
  \<open>Mailbox\<close>, \<open>Mailbox_Props\<close>: \<^verbatim>\<open>project1.c\<close> - the ten system calls. Over any implementation of the
  lists the module never starts and nobody can send or receive; over lists with the laws,
  creation, destruction and shutdown do what the properties say from states with mailboxes.
  \<open>Mailbox_Spec\<close>, \<open>Mailbox_Sim\<close>, \<open>Mailbox_Acl\<close>, \<open>Mailbox_Refines\<close>: the module's contract - a table from ids
  to waiting messages and allowed processes, with the ten requests - and the refinement: from
  any state the table stands for, every sequence of requests is answered and faults as the table
  says. From it, the exact sequences on which the loaded module crashes.
  \<open>Mailbox_Test\<close>: \<^verbatim>\<open>proj1tests/test.c\<close>, composed with the module: what it prints.

  \<open>SkipList\<close>: \<^verbatim>\<open>skipList.c\<close> but for \<open>insertKey\<close>, which \<open>SkipList_Insert\<close> reads with the memory layout of
  64-bit Linux, since it walks nodes as if they were lists: it cannot insert into a list that
  \<open>createSkipList\<close> made, nor a key at least as large as every key in the memory. \<open>SkipList_Types\<close>:
  the well-typed memories of the skip list; creation keeps them, and a search of a list of height
  at least 2 in one is safe, and returns when the keys ascend.

  \<open>Shell\<close>: \<^verbatim>\<open>simple_shell.c\<close>, from the characters of the input to the vectors its children execute.

  \<open>BootParams\<close>, \<open>BootParams_Props\<close>: the boot-parameter handlers of \<^verbatim>\<open>main.c\<close>, over the command
  line as a buffer that is edited in place; the scans of the argument and environment arrays
  stay in bounds. \<open>Startup\<close>, \<open>Startup_Props\<close>: \<open>start_kernel\<close> up to \<open>rest_init\<close>, with the copies of
  the command line and both parses; the kernel functions called may do anything and are taken
  to return, and the calls are recorded: their order is the one the comments ask for, and a start with too many boot arguments
  panics. \<open>Initcalls\<close>, \<open>Initcalls_Props\<close>: the initcall blacklist, the trace and the guard around
  each initcall, their order, the rest of \<open>kernel_init\<close>, and the programs it tries. \<open>Boot_Init\<close>: the
  file's own boot parameters, and the option \<open>init=\<close> followed from the command line to the first
  process. \<open>Handover\<close>: \<open>rest_init\<close> and the init thread as two threads whose statements interleave in any order; an
  invariant ties the shared state to what each has behind it, and gives safety and, under every
  schedule, completion after as many moves as there are statements. There each kernel call
  returns and the first program starts; the statements of the init thread are those of
  \<open>kernel_init\<close> in \<open>Initcalls\<close>, which a lemma checks.

  Readings. Some files do not build as they are; each theory says at its head how it reads the
  offending lines.

  Bounds. \<open>solo\<close> in \<open>Sandbox_Threads\<close> counts the steps of one thread; its property says that some
  number suffices. The schedules of \<open>Handover\<close> are infinite sequences.

  Not modelled. Code that is commented out, declarations nothing uses, the empty functions an
  architecture may replace (their calls are in the traces), and the functions of other files,
  which are parameters; of \<^verbatim>\<open>main.c\<close> also the stubs for kernels with one processor. \<^verbatim>\<open>main.c\<close> and \<^verbatim>\<open>common.c\<close> are read in the configurations the theories name.
  The operations of \<open>Mailbox\<close> take no lock in the source and are modelled one at a time; so are
  those of the draft, whose lock shows as the fault of taking it twice.
\<close>

end
